(* ===== verification/Prelude.thy ===== *)
theory Prelude
  imports Main "HOL-Library.Sublist" "HOL-Library.List_Lexorder" "HOL-Library.Char_ord"
    "HOL-Library.Code_Target_Nat"
begin

text \<open>
  The shared vocabulary of the development: the types the components name, the integer
  arithmetic of Go (64-bit two's complement), the functions of Go's \<open>strings\<close> and
  \<open>encoding/hex\<close> packages the program uses, and the list lemmas the components share.
  Times and durations are nanoseconds held in \<open>int\<close>; where the source can overflow an
  \<open>int64\<close> the model applies \<open>wrap64\<close>. Byte strings (\<open>string\<close>, \<open>[]byte\<close>,
  \<open>json.RawMessage\<close>) are HOL strings, whose characters are bytes.
\<close>

named_theorems go_consts \<open>the numeric constants of the sources and of the Go library\<close>

type_synonym time = int
type_synonym duration = int
type_synonym bytes = string

text \<open>
  A Go slice that may be nil, and a column of Postgres that may be NULL, is an option: \<open>None\<close> is nil
  or NULL, which is not the empty slice or the empty value. \<open>elems\<close> is what ranging over a slice
  or taking its length sees, \<open>coalesce\<close> is \<open>coalesce(v, '')\<close>.
\<close>

type_synonym 'a slice = "'a list option"

definition elems :: "'a slice \<Rightarrow> 'a list" where
  "elems xs = (case xs of None \<Rightarrow> [] | Some ys \<Rightarrow> ys)"

lemma elems_simps [simp]: "elems None = []" "elems (Some ys) = ys"
  by (simp_all add: elems_def)

definition coalesce :: "string option \<Rightarrow> string" where
  "coalesce v = (case v of None \<Rightarrow> [] | Some s \<Rightarrow> s)"

section \<open>Machine integers\<close>

definition wrap64 :: "int \<Rightarrow> int" where
  "wrap64 x = (x + 2 ^ 63) mod 2 ^ 64 - 2 ^ 63"

definition fits64 :: "int \<Rightarrow> bool" where
  "fits64 x \<longleftrightarrow> - (2 ^ 63) \<le> x \<and> x < 2 ^ 63"

lemma wrap64_id: "fits64 x \<Longrightarrow> wrap64 x = x"
  by (simp add: wrap64_def fits64_def)

lemma wrap64_fits: "fits64 (wrap64 x)"
  by (simp add: wrap64_def fits64_def)

definition Microsecond :: duration where "Microsecond = 1000"
definition Millisecond :: duration where "Millisecond = 1000000"
definition Second :: duration where "Second = 1000000000"
definition Minute :: duration where "Minute = 60 * Second"
definition Hour :: duration where "Hour = 60 * Minute"
definition Day :: duration where "Day = 24 * Hour"

declare Microsecond_def [go_consts] Millisecond_def [go_consts] Second_def [go_consts] Minute_def [go_consts]
  Hour_def [go_consts] Day_def [go_consts]

text \<open>\<open>net/http\<close>.\<close>

definition StatusOK :: int where
  [go_consts]: "StatusOK = 200"

section \<open>Go strings\<close>

abbreviation HasPrefix :: "string \<Rightarrow> string \<Rightarrow> bool" where
  "HasPrefix s p \<equiv> prefix p s"

abbreviation HasSuffix :: "string \<Rightarrow> string \<Rightarrow> bool" where
  "HasSuffix s p \<equiv> suffix p s"

abbreviation Contains :: "string \<Rightarrow> string \<Rightarrow> bool" where
  "Contains s p \<equiv> sublist p s"

fun Join :: "string list \<Rightarrow> string \<Rightarrow> string" where
  "Join [] sep = []"
| "Join [x] sep = x"
| "Join (x # y # xs) sep = x @ sep @ Join (y # xs) sep"

definition TrimSuffix :: "string \<Rightarrow> string \<Rightarrow> string" where
  "TrimSuffix s suf = (if HasSuffix s suf then take (length s - length suf) s else s)"

text \<open>\<open>strings.ToLower\<close> on ASCII text.\<close>

definition lower_char :: "char \<Rightarrow> char" where
  "lower_char c =
     (let n = of_char c :: nat in if 65 \<le> n \<and> n \<le> 90 then char_of (n + 32) else c)"

definition ToLower :: "string \<Rightarrow> string" where
  "ToLower s = map lower_char s"

text \<open>\<open>hex.EncodeToString\<close>: two lower-case digits per byte.\<close>

definition hex_digit :: "nat \<Rightarrow> char" where
  "hex_digit n = (if n < 10 then char_of (48 + n) else char_of (87 + n))"

fun hex_encode :: "bytes \<Rightarrow> string" where
  "hex_encode [] = []"
| "hex_encode (c # cs) =
     hex_digit (of_char c div 16) # hex_digit (of_char c mod 16) # hex_encode cs"

lemma length_hex_encode: "length (hex_encode s) = 2 * length s"
  by (induction s) auto

lemma hex_digit_inj:
  assumes "m < 16" "n < 16" "hex_digit m = hex_digit n"
  shows "m = n"
proof -
  have "of_char (hex_digit k) = (if k < 10 then 48 + k else 87 + k)" if "k < 16" for k
    using that by (simp add: hex_digit_def)
  with assms have "(if m < 10 then 48 + m else 87 + m) = (if n < 10 then 48 + n else 87 + n)" by metis
  then show ?thesis by (auto split: if_splits)
qed

lemma of_char_bound: "of_char c < (256::nat)"
  by (metis of_char_mod_256 mod_less_divisor zero_less_numeral)

lemma hex_encode_inj: "inj hex_encode"
proof (rule injI)
  fix s t
  show "hex_encode s = hex_encode t \<Longrightarrow> s = t"
  proof (induction s arbitrary: t)
    case Nil
    then show ?case by (cases t) auto
  next
    case (Cons c s)
    then obtain d t' where t: "t = d # t'" by (cases t) auto
    have lt: "of_char x div 16 < (16::nat)" for x :: char by (simp add: div_less_iff_less_mult of_char_bound)
    from Cons.prems t have "of_char c div 16 = (of_char d div 16 :: nat)"
      "of_char c mod 16 = (of_char d mod 16 :: nat)"
      using hex_digit_inj [OF lt lt, of c d] hex_digit_inj [of "of_char c mod 16" "of_char d mod 16"] by auto
    then have "of_char c = (of_char d :: nat)" by (metis div_mult_mod_eq)
    then have "c = d" by (simp only: of_char_eq_iff)
    with Cons t show ?case by auto
  qed
qed

text \<open>\<open>strconv.Itoa\<close>: the digits are written from the last one back, in front of what is there.\<close>

fun put_decimal :: "nat \<Rightarrow> string \<Rightarrow> string" where
  "put_decimal n out =
     (let out' = char_of (48 + n mod 10) # out in
      if n div 10 = 0 then out' else put_decimal (n div 10) out')"

declare put_decimal.simps [simp del]

definition decimal :: "nat \<Rightarrow> string" where
  "decimal n = put_decimal n []"

lemma put_decimal_append: "put_decimal n out = decimal n @ out"
proof -
  have "put_decimal n (xs @ ys) = put_decimal n xs @ ys" for xs ys
  proof (induction n xs rule: put_decimal.induct)
    case (1 n xs)
    then show ?case by (simp add: put_decimal.simps [of n] Let_def)
  qed
  from this [of "[]" out] show ?thesis by (simp add: decimal_def)
qed

lemma decimal_last: "decimal n = (if n < 10 then [] else decimal (n div 10)) @ [char_of (48 + n mod 10)]"
  by (simp add: decimal_def [of n] put_decimal.simps [of n "[]"] put_decimal_append [of "n div 10"] Let_def div_eq_0_iff)

lemma decimal_induct [case_names last]:
  assumes "\<And>n. (10 \<le> n \<Longrightarrow> P (n div 10)) \<Longrightarrow> P n"
  shows "P (n :: nat)"
proof (induction n rule: less_induct)
  case (less n)
  have "P (n div 10)" if "10 \<le> n" using less [of "n div 10"] that by simp
  with assms show ?case by blast
qed

definition Itoa :: "int \<Rightarrow> string" where
  "Itoa n = (if n < 0 then ''-'' @ decimal (nat (- n)) else decimal (nat n))"

section \<open>Lists\<close>

text \<open>
  \<open>List.find\<close> is the first element that satisfies a predicate: what a query for at most
  one row returns.
\<close>

lemma find_Some_in: "List.find P xs = Some x \<Longrightarrow> x \<in> set xs \<and> P x"
  by (induction xs) (auto split: if_splits)

lemma find_None_all: "List.find P xs = None \<longleftrightarrow> (\<forall>x \<in> set xs. \<not> P x)"
  by (induction xs) auto

lemma find_append:
  "List.find P (xs @ ys) = (case List.find P xs of None \<Rightarrow> List.find P ys | Some x \<Rightarrow> Some x)"
  by (induction xs) auto

lemma concat_map_nil: "concat (map f xs) = [] \<longleftrightarrow> (\<forall>x \<in> set xs. f x = [])"
  by (induction xs) auto

lemma if_nil: "(if b then [x] else []) = [] \<longleftrightarrow> \<not> b"
  by simp

lemma distinct_map_unique:
  "distinct (map f xs) \<Longrightarrow> x \<in> set xs \<Longrightarrow> y \<in> set xs \<Longrightarrow> f x = f y \<Longrightarrow> x = y"
  by (simp add: distinct_map inj_on_def)

lemma find_distinct:
  assumes "distinct (map f xs)" and "x \<in> set xs" and "f x = v"
  shows "List.find (\<lambda>y. f y = v) xs = Some x"
  using assms by (induction xs) force+

lemma find_conj_distinct:
  assumes "distinct (map f xs)"
  shows "List.find (\<lambda>x. f x = v \<and> Q x) xs =
    (case List.find (\<lambda>x. f x = v) xs of None \<Rightarrow> None | Some x \<Rightarrow> if Q x then Some x else None)"
  using assms
proof (induction xs)
  case (Cons x xs)
  show ?case
  proof (cases "f x = v")
    case True
    with Cons.prems have "\<forall>y \<in> set xs. f y \<noteq> v" by (auto simp: image_iff)
    with True show ?thesis by (auto simp: find_None_all)
  next
    case False
    with Cons show ?thesis by simp
  qed
qed simp

lemma length_filter_distinct:
  assumes "distinct (map f xs)"
  shows "length (filter (\<lambda>x. f x = a \<and> Q x) xs) =
    (case List.find (\<lambda>x. f x = a) xs of None \<Rightarrow> 0 | Some x \<Rightarrow> if Q x then 1 else 0)"
  using assms
proof (induction xs)
  case (Cons x xs)
  show ?case
  proof (cases "f x = a")
    case True
    then have "filter (\<lambda>x. f x = a \<and> Q x) xs = []"
      using Cons.prems by (auto simp: filter_empty_conv image_iff)
    with True show ?thesis by simp
  qed (use Cons in simp)
qed simp

end
