(* ===== verification/Json.thy ===== *)
theory Json
  imports Prelude
begin

text \<open>
  The part of Go's \<open>encoding/json\<close> the program uses. Encoding: values built from maps,
  strings, numbers, booleans and \<open>json.RawMessage\<close>, and \<open>json.Marshal\<close> on them: map keys
  sorted, raw messages compacted, strings escaped with \<open><\<close>, \<open>>\<close>, \<open>&\<close> and the two line
  separators, and bytes that are not UTF-8 replaced. Decoding: the scanner of a value (with its
  nesting limit), the text of a string, and the fields of a struct. A value keeps the text it was
  read from, because the program copies values into \<open>json.RawMessage\<close> fields.
\<close>

section \<open>UTF-8\<close>

definition between :: "nat \<Rightarrow> nat \<Rightarrow> char \<Rightarrow> bool" where
  "between lo hi c \<longleftrightarrow> lo \<le> of_char c \<and> of_char c \<le> hi"

abbreviation tail_byte :: "char \<Rightarrow> bool" where
  "tail_byte \<equiv> between 128 191"

text \<open>
  The length of the character a byte string starts with, 0 when its first bytes are not the
  encoding of one: the table of \<open>utf8.DecodeRune\<close>, which admits no overlong form, no surrogate
  and nothing above U+10FFFF.
\<close>

definition two_bytes :: "bytes \<Rightarrow> bool" where
  "two_bytes s \<longleftrightarrow> 2 \<le> length s \<and> between 194 223 (s ! 0) \<and> tail_byte (s ! 1)"

definition three_bytes :: "bytes \<Rightarrow> bool" where
  "three_bytes s \<longleftrightarrow> 3 \<le> length s \<and>
     (between 224 224 (s ! 0) \<and> between 160 191 (s ! 1) \<or>
      (between 225 236 (s ! 0) \<or> between 238 239 (s ! 0)) \<and> tail_byte (s ! 1) \<or>
      between 237 237 (s ! 0) \<and> between 128 159 (s ! 1)) \<and> tail_byte (s ! 2)"

definition four_bytes :: "bytes \<Rightarrow> bool" where
  "four_bytes s \<longleftrightarrow> 4 \<le> length s \<and>
     (between 240 240 (s ! 0) \<and> between 144 191 (s ! 1) \<or>
      between 241 243 (s ! 0) \<and> tail_byte (s ! 1) \<or>
      between 244 244 (s ! 0) \<and> between 128 143 (s ! 1)) \<and> tail_byte (s ! 2) \<and> tail_byte (s ! 3)"

definition utf8_size :: "bytes \<Rightarrow> nat" where
  "utf8_size s =
     (if s = [] then 0
      else if between 0 127 (s ! 0) then 1
      else if two_bytes s then 2
      else if three_bytes s then 3
      else if four_bytes s then 4
      else 0)"

definition replacement :: bytes where
  "replacement = [char_of (239::nat), char_of (191::nat), char_of (189::nat)]"

definition utf8_encode :: "nat \<Rightarrow> bytes" where
  "utf8_encode n =
     (if n < 128 then [char_of n]
      else if n < 2048 then [char_of (192 + n div 64), char_of (128 + n mod 64)]
      else if n < 65536
      then [char_of (224 + n div 4096), char_of (128 + n div 64 mod 64), char_of (128 + n mod 64)]
      else [char_of (240 + n div 262144), char_of (128 + n div 4096 mod 64),
            char_of (128 + n div 64 mod 64), char_of (128 + n mod 64)])"

lemma utf8_size_le: "utf8_size s \<le> length s"
  by (cases s) (auto simp: utf8_size_def two_bytes_def three_bytes_def four_bytes_def)

section \<open>Encoding\<close>

datatype json =
    JNull
  | JBool bool
  | JInt int
  | JString string
  | JList "json list"
  | JRaw bytes
  | JObject "(string \<times> json) list"
  | JStruct "(string \<times> json) list"

abbreviation backslash :: char where
  "backslash \<equiv> CHR 92"

abbreviation dquote :: char where
  "dquote \<equiv> CHR 34"

definition hex4 :: "nat \<Rightarrow> string" where
  "hex4 n = [hex_digit (n div 4096 mod 16), hex_digit (n div 256 mod 16),
             hex_digit (n div 16 mod 16), hex_digit (n mod 16)]"

definition unicode_escape :: "nat \<Rightarrow> string" where
  "unicode_escape n = backslash # CHR ''u'' # hex4 n"

definition html_special :: "char \<Rightarrow> bool" where
  "html_special c \<longleftrightarrow> c \<in> {CHR ''<'', CHR ''>'', CHR ''&''}"

definition escape_char :: "char \<Rightarrow> string" where
  "escape_char c =
     (if c = dquote \<or> c = backslash then [backslash, c]
      else if c = CHR 8 then [backslash, CHR ''b'']
      else if c = CHR 12 then [backslash, CHR ''f'']
      else if c = CHR 10 then [backslash, CHR ''n'']
      else if c = CHR 13 then [backslash, CHR ''r'']
      else if c = CHR 9 then [backslash, CHR ''t'']
      else if between 0 31 c \<or> html_special c then unicode_escape (of_char c)
      else [c])"

definition line_separator :: "bytes \<Rightarrow> bool" where
  "line_separator s \<longleftrightarrow> take 2 s = [CHR 226, CHR 128] \<and> (s ! 2 = CHR 168 \<or> s ! 2 = CHR 169)"

function escape :: "string \<Rightarrow> string" where
  "escape s =
     (case s of
        [] \<Rightarrow> []
      | c # cs \<Rightarrow>
          if between 0 127 c then escape_char c @ escape cs
          else let n = utf8_size s in
            if n = 0 then backslash # ''ufffd'' @ escape cs
            else if n = 3 \<and> line_separator s
            then unicode_escape (if s ! 2 = CHR 168 then 8232 else 8233) @ escape (drop 3 s)
            else take n s @ escape (drop n s))"
  by pat_completeness auto
termination
  by (relation "measure length") (auto simp: Let_def)

declare escape.simps [simp del]

definition quote_json :: "string \<Rightarrow> string" where
  "quote_json s = [dquote] @ escape s @ [dquote]"

text \<open>
  Compacting a raw message: white space outside strings is dropped, the HTML characters and the
  line separators are escaped. The flags say whether the scan is inside a string and after a
  backslash.
\<close>

function compact :: "bool \<Rightarrow> bool \<Rightarrow> bytes \<Rightarrow> bytes" where
  "compact instr esc s =
     (case s of
        [] \<Rightarrow> []
      | c # cs \<Rightarrow>
          if 3 \<le> length s \<and> line_separator s
          then unicode_escape (if s ! 2 = CHR 168 then 8232 else 8233) @ compact instr False (drop 3 s)
          else
            (if html_special c then unicode_escape (of_char c)
             else if \<not> instr \<and> c \<in> {CHR 9, CHR 10, CHR 13, CHR 32} then [] else [c]) @
            compact (if c = dquote \<and> \<not> esc then \<not> instr else instr)
              (instr \<and> \<not> esc \<and> c = backslash) cs)"
  by pat_completeness auto
termination
  by (relation "measure (\<lambda>(instr, esc, s). length s)") auto

declare compact.simps [simp del]

fun marshal :: "json \<Rightarrow> bytes" where
  "marshal JNull = ''null''"
| "marshal (JBool b) = (if b then ''true'' else ''false'')"
| "marshal (JInt n) = Itoa n"
| "marshal (JString s) = quote_json s"
| "marshal (JList js) = ''['' @ Join (map marshal js) '','' @ '']''"
| "marshal (JRaw raw) = (if raw = [] then ''null'' else compact False False raw)"
| "marshal (JObject fields) =
     ''{'' @ Join (map (\<lambda>(k, v). quote_json k @ '':'' @ v)
                     (sort_key fst (map (\<lambda>(k, v). (k, marshal v)) fields))) '','' @ ''}''"
| "marshal (JStruct fields) =
     ''{'' @ Join (map (\<lambda>(k, v). quote_json k @ '':'' @ marshal v) fields) '','' @ ''}''"

definition json_field :: "json \<Rightarrow> string \<Rightarrow> json option" where
  "json_field j name = (case j of JObject fields \<Rightarrow> map_of fields name | _ \<Rightarrow> None)"

end
