(* ===== verification/Json_Parse.thy ===== *)
theory Json_Parse
  imports Json "HOL-Library.AList"
begin

text \<open>
  Decoding: the grammar of JSON as Go's scanner accepts it (\<open>json.Valid\<close>, \<open>json.Unmarshal\<close>
  and one \<open>Decoder.Decode\<close>), the text a string literal denotes, and how a struct's fields are
  filled from an object. Member names are matched without regard to case, a \<open>null\<close> leaves
  a field alone, and a value of the wrong kind makes the decoding fail.
\<close>

section \<open>The scanner\<close>

definition json_space :: "char \<Rightarrow> bool" where
  "json_space c \<longleftrightarrow> c \<in> {CHR 9, CHR 10, CHR 13, CHR 32}"

definition skip_space :: "bytes \<Rightarrow> bytes" where
  "skip_space s = dropWhile json_space s"

lemma length_skip_space [termination_simp]: "length (skip_space s) \<le> length s"
  by (simp add: skip_space_def length_dropWhile_le)

lemma skip_space_Cons: "skip_space s = c # r \<Longrightarrow> length r < length s"
  using length_skip_space [of s] by simp

lemma skip_space_less: "length s < n \<Longrightarrow> length (skip_space s) < n"
  using length_skip_space [of s] by simp

lemma skip_space_twice: "length s < n \<Longrightarrow> Suc (2 * length (skip_space s)) \<le> 2 * n"
  using length_skip_space [of s] by simp

definition is_digit :: "char \<Rightarrow> bool" where
  "is_digit c \<longleftrightarrow> between 48 57 c"

definition hex_value :: "char \<Rightarrow> nat option" where
  "hex_value c =
     (if between 48 57 c then Some (of_char c - 48)
      else if between 97 102 c then Some (of_char c - 87)
      else if between 65 70 c then Some (of_char c - 55)
      else None)"

definition hex4_value :: "bytes \<Rightarrow> nat option" where
  "hex4_value s =
     (case s of
        a # b # c # d # _ \<Rightarrow>
          (case (hex_value a, hex_value b, hex_value c, hex_value d) of
             (Some w, Some x, Some y, Some z) \<Rightarrow> Some (4096 * w + 256 * x + 16 * y + z)
           | _ \<Rightarrow> None)
      | _ \<Rightarrow> None)"

text \<open>Put text in front of what a scan found.\<close>

definition push :: "bytes \<Rightarrow> (bytes \<times> bytes) option \<Rightarrow> (bytes \<times> bytes) option" where
  "push p x = (case x of None \<Rightarrow> None | Some (t, r) \<Rightarrow> Some (p @ t, r))"

text \<open>The inside of a string literal up to its closing quote, and what follows.\<close>

fun scan_string :: "bytes \<Rightarrow> (bytes \<times> bytes) option" where
  "scan_string [] = None"
| "scan_string (c # cs) =
     (if c = dquote then Some ([], cs)
      else if c = backslash then
        (case cs of
           [] \<Rightarrow> None
         | e # es \<Rightarrow>
             if e \<in> set [dquote, backslash, CHR ''/'', CHR ''b'', CHR ''f'', CHR ''n'', CHR ''r'', CHR ''t'']
             then push [c, e] (scan_string es)
             else if e = CHR ''u'' \<and> hex4_value es \<noteq> None
             then push [c, e] (scan_string es)
             else None)
      else if between 0 31 c then None
      else push [c] (scan_string cs))"

text \<open>
  The four hexadecimal digits of an escape are ordinary characters, so the scan may go on
  through them one by one.
\<close>

definition scan_digits :: "bytes \<Rightarrow> (bytes \<times> bytes) option" where
  "scan_digits s =
     (case takeWhile is_digit s of [] \<Rightarrow> None | ds \<Rightarrow> Some (ds, dropWhile is_digit s))"

definition scan_int :: "bytes \<Rightarrow> (bytes \<times> bytes) option" where
  "scan_int s =
     (case s of
        c # cs \<Rightarrow> if c = CHR ''0'' then Some ([c], cs) else scan_digits s
      | [] \<Rightarrow> None)"

definition scan_fraction :: "bytes \<Rightarrow> (bytes \<times> bytes) option" where
  "scan_fraction s =
     (case s of
        c # cs \<Rightarrow> if c = CHR ''.'' then push [c] (scan_digits cs) else Some ([], s)
      | [] \<Rightarrow> Some ([], s))"

definition scan_exponent :: "bytes \<Rightarrow> (bytes \<times> bytes) option" where
  "scan_exponent s =
     (case s of
        c # cs \<Rightarrow>
          if c = CHR ''e'' \<or> c = CHR ''E'' then
            (case cs of
               d # ds \<Rightarrow>
                 if d = CHR ''+'' \<or> d = CHR ''-''
                 then push [c, d] (scan_digits ds)
                 else push [c] (scan_digits cs)
             | [] \<Rightarrow> None)
          else Some ([], s)
      | [] \<Rightarrow> Some ([], s))"

definition scan_sign :: "bytes \<Rightarrow> bytes \<times> bytes" where
  "scan_sign s = (case s of c # cs \<Rightarrow> if c = CHR ''-'' then ([c], cs) else ([], s) | [] \<Rightarrow> ([], s))"

definition scan_number :: "bytes \<Rightarrow> (bytes \<times> bytes) option" where
  "scan_number s =
     (case scan_int (snd (scan_sign s)) of
        None \<Rightarrow> None
      | Some (i, s1) \<Rightarrow>
          (case scan_fraction s1 of
             None \<Rightarrow> None
           | Some (f, s2) \<Rightarrow>
               (case scan_exponent s2 of
                  None \<Rightarrow> None
                | Some (e, s3) \<Rightarrow> Some (fst (scan_sign s) @ i @ f @ e, s3))))"

section \<open>Values\<close>

text \<open>
  A parsed value. Numbers and strings keep their literal text (for a string, what stands between
  the quotes); elements and members carry the text they were read from.
\<close>

datatype jval =
    VNull
  | VBool bool
  | VNumber bytes
  | VString bytes
  | VArray "(bytes \<times> jval) list"
  | VObject "(bytes \<times> bytes \<times> jval) list"

definition maxNestingDepth :: nat where
  "maxNestingDepth = 10000"

definition literal :: "bytes \<Rightarrow> jval \<Rightarrow> bytes \<Rightarrow> (jval \<times> bytes) option" where
  "literal text v s = (if prefix text s then Some (v, drop (length text) s) else None)"

text \<open>The text a scan has consumed, computed without counting.\<close>

definition consumed :: "bytes \<Rightarrow> bytes \<Rightarrow> bytes" where
  "consumed s r = take (length s - length r) s"

fun take_like :: "'a list \<Rightarrow> 'b list \<Rightarrow> 'b list" where
  "take_like (_ # xs) (y # ys) = y # take_like xs ys"
| "take_like _ _ = []"

fun after :: "'a list \<Rightarrow> 'b list \<Rightarrow> 'a list" where
  "after (_ # xs) (_ # ys) = after xs ys"
| "after xs _ = xs"

lemma take_like_take: "take_like xs ys = take (length xs) ys"
  by (induction xs ys rule: take_like.induct) auto

lemma length_after: "length (after xs ys) = length xs - length ys"
  by (induction xs ys rule: after.induct) auto

lemma consumed_code [code]: "consumed s r = take_like (after s r) s"
  by (simp add: consumed_def take_like_take length_after)

text \<open>
  One value, given the number of enclosing arrays and objects and text that starts with no white
  space. The tests on the length of what is left always hold; they make the recursion visibly
  terminate.
\<close>

function (sequential)
  parse_value :: "nat \<Rightarrow> bytes \<Rightarrow> (jval \<times> bytes) option" and
  parse_elements :: "nat \<Rightarrow> bytes \<Rightarrow> ((bytes \<times> jval) list \<times> bytes) option" and
  parse_members :: "nat \<Rightarrow> bytes \<Rightarrow> ((bytes \<times> bytes \<times> jval) list \<times> bytes) option"
where
  "parse_value depth [] = None"
| "parse_value depth (c # cs) =
     (if c = CHR ''{'' then
        (if maxNestingDepth \<le> depth then None
         else case skip_space cs of
           [] \<Rightarrow> None
         | d # ds \<Rightarrow>
             if d = CHR ''}'' then Some (VObject [], ds)
             else map_option (\<lambda>(ms, r). (VObject ms, r)) (parse_members (Suc depth) (d # ds)))
      else if c = CHR ''['' then
        (if maxNestingDepth \<le> depth then None
         else case skip_space cs of
           [] \<Rightarrow> None
         | d # ds \<Rightarrow>
             if d = CHR '']'' then Some (VArray [], ds)
             else map_option (\<lambda>(es, r). (VArray es, r)) (parse_elements (Suc depth) (d # ds)))
      else if c = dquote then map_option (\<lambda>(t, r). (VString t, r)) (scan_string cs)
      else if c = CHR ''t'' then literal ''true'' (VBool True) (c # cs)
      else if c = CHR ''f'' then literal ''false'' (VBool False) (c # cs)
      else if c = CHR ''n'' then literal ''null'' VNull (c # cs)
      else map_option (\<lambda>(t, r). (VNumber t, r)) (scan_number (c # cs)))"
| "parse_elements depth s =
     (case parse_value depth s of
        None \<Rightarrow> None
      | Some (v, r) \<Rightarrow>
          (let raw = consumed s r in
           case skip_space r of
             [] \<Rightarrow> None
           | c # cs \<Rightarrow>
               if c = CHR '']'' then Some ([(raw, v)], cs)
               else if c = CHR '','' \<and> length cs < length s
               then map_option (\<lambda>(es, r'). ((raw, v) # es, r')) (parse_elements depth (skip_space cs))
               else None))"
| "parse_members depth s =
     (case s of
        [] \<Rightarrow> None
      | q # qs \<Rightarrow>
          if q \<noteq> dquote then None
          else case scan_string qs of
            None \<Rightarrow> None
          | Some (name, r) \<Rightarrow>
              (case skip_space r of
                 [] \<Rightarrow> None
               | c # cs \<Rightarrow>
                   if c \<noteq> CHR '':'' \<or> length cs \<ge> length s then None
                   else case parse_value depth (skip_space cs) of
                     None \<Rightarrow> None
                   | Some (v, r1) \<Rightarrow>
                       (let raw = consumed (skip_space cs) r1 in
                        case skip_space r1 of
                          [] \<Rightarrow> None
                        | d # ds \<Rightarrow>
                            if d = CHR ''}'' then Some ([(name, raw, v)], ds)
                            else if d = CHR '','' \<and> length ds < length s
                            then map_option (\<lambda>(ms, r'). ((name, raw, v) # ms, r'))
                                   (parse_members depth (skip_space ds))
                            else None)))"
  by pat_completeness auto
termination
  by (relation "measure (\<lambda>x. case x of Inl (d, s) \<Rightarrow> 2 * length s
                         | Inr (Inl (d, s)) \<Rightarrow> 2 * length s + 1
                         | Inr (Inr (d, s)) \<Rightarrow> 2 * length s + 1)")
     (auto dest!: skip_space_Cons intro!: skip_space_less skip_space_twice simp: not_le less_Suc_eq_le
        intro: le_trans [OF mult_le_mono2 [OF length_skip_space]])

declare parse_value.simps [simp del] parse_elements.simps [simp del] parse_members.simps [simp del]

text \<open>What is left after a value is shorter, so the tests may be left out when computing.\<close>

lemma push_Some: "push p x = Some (t, r) \<longleftrightarrow> (\<exists>t'. x = Some (t', r) \<and> t = p @ t')"
  by (auto simp: push_def split: option.splits)

lemma scan_string_shorter: "scan_string s = Some (t, r) \<Longrightarrow> length r < length s"
  by (induction s arbitrary: t rule: scan_string.induct)
     (fastforce simp: push_Some split: if_splits list.splits)+

lemma scan_digits_shorter:
  assumes "scan_digits s = Some (t, r)"
  shows "length r < length s"
proof -
  have "takeWhile is_digit s \<noteq> []" and r: "r = dropWhile is_digit s"
    using assms by (auto simp: scan_digits_def split: list.splits)
  then have "0 < length (takeWhile is_digit s)" by simp
  moreover have "length (takeWhile is_digit s) + length r = length s"
    unfolding r by (metis length_append takeWhile_dropWhile_id)
  ultimately show ?thesis by linarith
qed

lemma scan_number_shorter:
  assumes "scan_number s = Some (t, r)"
  shows "length r < length s"
proof -
  obtain i s1 fr s2 e where
    i: "scan_int (snd (scan_sign s)) = Some (i, s1)" and
    fr: "scan_fraction s1 = Some (fr, s2)" and e: "scan_exponent s2 = Some (e, r)"
    using assms by (auto simp: scan_number_def split: option.splits)
  have "length (snd (scan_sign s)) \<le> length s" by (simp add: scan_sign_def split: list.split)
  moreover have "length s1 < length (snd (scan_sign s))" using i scan_digits_shorter
    by (fastforce simp: scan_int_def split: list.splits if_splits)
  moreover have "length s2 \<le> length s1" using fr scan_digits_shorter
    by (fastforce simp: scan_fraction_def push_Some split: list.splits if_splits)
  moreover have "length r \<le> length s2" using e scan_digits_shorter
    by (fastforce simp: scan_exponent_def push_Some split: list.splits if_splits)
  ultimately show ?thesis by simp
qed

lemma literal_shorter: "literal t v s = Some (w, r) \<Longrightarrow> t \<noteq> [] \<Longrightarrow> length r < length s"
  by (auto simp: literal_def prefix_def split: if_splits)

lemma parse_shorter:
  "(parse_value depth s = Some (v, r) \<longrightarrow> length r < length s) \<and>
   (parse_elements depth s = Some (es, r) \<longrightarrow> length r < length s) \<and>
   (parse_members depth s = Some (ms, r) \<longrightarrow> length r < length s)"
proof (induction s arbitrary: depth v r es ms rule: measure_induct_rule [where f = length])
  case (less s)
  have val: "length r < length s" if "parse_value depth s = Some (v, r)" for depth v r
  proof (cases s)
    case (Cons c cs)
    have inner: "length r < length s" if "skip_space cs = d # ds"
      "parse_members k (d # ds) = Some (m, r) \<or> parse_elements k (d # ds) = Some (e, r)" for d ds k m e
      using less [of "d # ds"] that skip_space_Cons [OF that(1)] Cons by fastforce
    note shorter = skip_space_Cons [of cs] scan_string_shorter [of cs] literal_shorter [of _ _ s]
      scan_number_shorter [of s]
    show ?thesis
      using that inner shorter Cons
      by (auto simp: parse_value.simps split: if_splits list.splits)
  qed (use that in \<open>simp add: parse_value.simps\<close>)
  have tail: "length r < length s" if "length x < length s"
    "parse_elements k (skip_space x) = Some (e, r) \<or> parse_members k (skip_space x) = Some (m, r)" for x k e m r
    using less [OF skip_space_less [OF that(1)]] that(2) skip_space_less [OF that(1)] by (meson less_trans)
  have "length r < length s" if es: "parse_elements depth s = Some (es, r)" for depth es r
  proof -
    note es = es [unfolded parse_elements.simps [of depth s]]
    obtain v r1 where v: "parse_value depth s = Some (v, r1)"
      using es by (cases "parse_value depth s") auto
    obtain c cs where c: "skip_space r1 = c # cs" using es v by (cases "skip_space r1") auto
    have "r = cs \<or> (\<exists>e. parse_elements depth (skip_space cs) = Some (e, r))"
      using es by (auto simp: v c Let_def split: if_splits)
    with val [OF v] skip_space_Cons [OF c] tail [of cs depth] show ?thesis by fastforce
  qed
  moreover have "length r < length s" if ms: "parse_members depth s = Some (ms, r)" for depth ms r
  proof -
    note ms = ms [unfolded parse_members.simps [of depth s]]
    obtain qs where q: "s = dquote # qs" using ms by (cases s) (auto split: if_splits)
    obtain name r0 where n: "scan_string qs = Some (name, r0)"
      using ms by (cases "scan_string qs") (auto simp: q)
    obtain c cs where c: "skip_space r0 = c # cs" using ms by (cases "skip_space r0") (auto simp: q n)
    obtain v r1 where v: "parse_value depth (skip_space cs) = Some (v, r1)"
      using ms by (cases "parse_value depth (skip_space cs)") (auto simp: q n c split: if_splits)
    obtain d ds where d: "skip_space r1 = d # ds"
      using ms by (cases "skip_space r1") (auto simp: q n c v Let_def split: if_splits)
    have rest: "r = ds \<or> (\<exists>m. parse_members depth (skip_space ds) = Some (m, r))"
      using ms by (auto simp: q n c v d Let_def split: if_splits)
    have cs: "length cs < length s"
      using q scan_string_shorter [OF n] skip_space_Cons [OF c] by simp
    have "length r1 < length (skip_space cs)" using less [OF skip_space_less [OF cs]] v by blast
    then have "length ds < length s" using skip_space_Cons [OF d] skip_space_less [OF cs] by linarith
    with rest tail show ?thesis by blast
  qed
  ultimately show ?case using val by blast
qed

lemma parse_elements_code [code]:
  "parse_elements depth s =
     (case parse_value depth s of
        None \<Rightarrow> None
      | Some (v, r) \<Rightarrow>
          (let raw = consumed s r in
           case skip_space r of
             [] \<Rightarrow> None
           | c # cs \<Rightarrow>
               if c = CHR '']'' then Some ([(raw, v)], cs)
               else if c = CHR '',''
               then map_option (\<lambda>(es, r'). ((raw, v) # es, r')) (parse_elements depth (skip_space cs))
               else None))"
proof -
  have "length cs < length s" if "parse_value depth s = Some (v, r)" "skip_space r = c # cs" for v r c cs
    using parse_shorter that skip_space_Cons by (meson less_trans)
  then show ?thesis
    by (subst parse_elements.simps) (auto simp: Let_def split: option.split list.split)
qed

lemma parse_members_code [code]:
  "parse_members depth s =
     (case s of
        [] \<Rightarrow> None
      | q # qs \<Rightarrow>
          if q \<noteq> dquote then None
          else case scan_string qs of
            None \<Rightarrow> None
          | Some (name, r) \<Rightarrow>
              (case skip_space r of
                 [] \<Rightarrow> None
               | c # cs \<Rightarrow>
                   if c \<noteq> CHR '':'' then None
                   else let t = skip_space cs in
                     case parse_value depth t of
                       None \<Rightarrow> None
                     | Some (v, r1) \<Rightarrow>
                         (let raw = consumed t r1 in
                          case skip_space r1 of
                            [] \<Rightarrow> None
                          | d # ds \<Rightarrow>
                              if d = CHR ''}'' then Some ([(name, raw, v)], ds)
                              else if d = CHR '',''
                              then map_option (\<lambda>(ms, r'). ((name, raw, v) # ms, r'))
                                     (parse_members depth (skip_space ds))
                              else None)))"
proof -
  show ?thesis (is "_ = ?rhs")
  proof (cases "\<exists>qs name r c cs v r1 d ds. s = dquote # qs \<and> scan_string qs = Some (name, r) \<and>
      skip_space r = c # cs \<and> parse_value depth (skip_space cs) = Some (v, r1) \<and> skip_space r1 = d # ds")
    case True
    then obtain qs name r c cs v r1 d ds where
      e: "s = dquote # qs" "scan_string qs = Some (name, r)" "skip_space r = c # cs"
         "parse_value depth (skip_space cs) = Some (v, r1)" "skip_space r1 = d # ds" by blast
    have cs: "length cs < length s"
      using e(1) scan_string_shorter [OF e(2)] skip_space_Cons [OF e(3)] by simp
    have "length r1 < length (skip_space cs)" using parse_shorter e(4) by blast
    then have "length ds < length s" using skip_space_Cons [OF e(5)] skip_space_less [OF cs] by linarith
    with e cs show ?thesis by (subst parse_members.simps) (simp add: Let_def)
  next
    case False
    then have "?rhs = None" by (auto simp: Let_def split: list.split option.split)
    moreover have "parse_members depth s = None"
      using False by (subst parse_members.simps) (auto simp: Let_def split: list.split option.split)
    ultimately show ?thesis by simp
  qed
qed

definition Parse :: "bytes \<Rightarrow> (bytes \<times> jval \<times> bytes) option" where
  "Parse s =
     (let s0 = skip_space s in
      map_option (\<lambda>(v, r). (consumed s0 r, v, r)) (parse_value 0 s0))"

text \<open>\<open>json.Valid\<close>: one value and nothing after it but white space.\<close>

definition Valid :: "bytes \<Rightarrow> bool" where
  "Valid s = (case Parse s of None \<Rightarrow> False | Some (raw, v, r) \<Rightarrow> skip_space r = [])"

section \<open>What a literal denotes\<close>

definition unescaped :: "char \<Rightarrow> char" where
  "unescaped e =
     (if e = CHR ''b'' then CHR 8 else if e = CHR ''f'' then CHR 12 else if e = CHR ''n'' then CHR 10
      else if e = CHR ''r'' then CHR 13 else if e = CHR ''t'' then CHR 9 else e)"

definition high_surrogate :: "nat \<Rightarrow> bool" where
  "high_surrogate n \<longleftrightarrow> 55296 \<le> n \<and> n < 56320"

definition low_surrogate :: "nat \<Rightarrow> bool" where
  "low_surrogate n \<longleftrightarrow> 56320 \<le> n \<and> n < 57344"

text \<open>The second half of a surrogate pair, when the text goes on with one.\<close>

definition paired :: "nat \<Rightarrow> bytes \<Rightarrow> nat option" where
  "paired n s =
     (if high_surrogate n \<and> take 2 s = [backslash, CHR ''u'']
      then case hex4_value (drop 2 s) of
        Some m \<Rightarrow> if low_surrogate m then Some m else None
      | None \<Rightarrow> None
      else None)"

function unquote :: "bytes \<Rightarrow> bytes" where
  "unquote s =
     (case s of
        [] \<Rightarrow> []
      | c # cs \<Rightarrow>
          if c = backslash then
            (case cs of
               [] \<Rightarrow> []
             | e # es \<Rightarrow>
                 if e = CHR ''u'' then
                   (case hex4_value es of
                      None \<Rightarrow> []
                    | Some n \<Rightarrow>
                        (case paired n (drop 4 es) of
                           Some m \<Rightarrow> utf8_encode (65536 + (n - 55296) * 1024 + (m - 56320)) @ unquote (drop 10 es)
                         | None \<Rightarrow>
                             (if high_surrogate n \<or> low_surrogate n then replacement else utf8_encode n) @
                             unquote (drop 4 es)))
                 else unescaped e # unquote es)
          else if between 0 127 c then c # unquote cs
          else if utf8_size s = 0 then replacement @ unquote cs
          else take (utf8_size s) s @ unquote (drop (utf8_size s) s))"
  by pat_completeness auto
termination
  by (relation "measure length") auto

declare unquote.simps [simp del]

text \<open>\<open>strconv.ParseInt\<close> of a number literal: digits only, within 64 bits.\<close>

definition digits_value :: "bytes \<Rightarrow> int" where
  "digits_value ds = foldl (\<lambda>n d. 10 * n + (int (of_char d) - 48)) 0 ds"

definition ParseInt :: "bytes \<Rightarrow> int option" where
  "ParseInt t =
     (let (neg, ds) = (case t of c # cs \<Rightarrow> if c = CHR ''-'' then (True, cs) else (False, t) | [] \<Rightarrow> (False, t));
          n = (if neg then - digits_value ds else digits_value ds)
      in if ds \<noteq> [] \<and> list_all is_digit ds \<and> fits64 n then Some n else None)"

section \<open>Filling fields\<close>

text \<open>A decoder takes the text of a value, the value and what the field holds so far.\<close>

type_synonym 'a decoder = "bytes \<Rightarrow> jval \<Rightarrow> 'a \<Rightarrow> 'a option"

definition decode_string :: "string decoder" where
  "decode_string raw v old =
     (case v of VNull \<Rightarrow> Some old | VString t \<Rightarrow> Some (unquote t) | _ \<Rightarrow> None)"

definition decode_bool :: "bool decoder" where
  "decode_bool raw v old = (case v of VNull \<Rightarrow> Some old | VBool b \<Rightarrow> Some b | _ \<Rightarrow> None)"

definition decode_int :: "int decoder" where
  "decode_int raw v old = (case v of VNull \<Rightarrow> Some old | VNumber t \<Rightarrow> ParseInt t | _ \<Rightarrow> None)"

definition decode_raw :: "bytes decoder" where
  "decode_raw raw v old = Some raw"

fun decode_elements :: "'a decoder \<Rightarrow> 'a \<Rightarrow> (bytes \<times> jval) list \<Rightarrow> 'a list \<Rightarrow> 'a list option" where
  "decode_elements dec zero [] old = Some []"
| "decode_elements dec zero ((raw, v) # es) old =
     (case dec raw v (case old of [] \<Rightarrow> zero | x # _ \<Rightarrow> x) of
        None \<Rightarrow> None
      | Some x \<Rightarrow> map_option ((#) x) (decode_elements dec zero es (drop 1 old)))"

definition decode_list :: "'a decoder \<Rightarrow> 'a \<Rightarrow> 'a list decoder" where
  "decode_list dec zero raw v old =
     (case v of VNull \<Rightarrow> Some [] | VArray es \<Rightarrow> decode_elements dec zero es old | _ \<Rightarrow> None)"

text \<open>A slice that may be nil: \<open>null\<close> makes it nil, an empty array does not.\<close>

definition decode_slice :: "'a decoder \<Rightarrow> 'a \<Rightarrow> 'a slice decoder" where
  "decode_slice dec zero raw v old =
     (if v = VNull then Some None else map_option Some (decode_list dec zero raw v (elems old)))"

text \<open>A map: an entry read again replaces the former one.\<close>

fun decode_entries :: "'a decoder \<Rightarrow> 'a \<Rightarrow> (bytes \<times> bytes \<times> jval) list \<Rightarrow> (string \<times> 'a) list
    \<Rightarrow> (string \<times> 'a) list option" where
  "decode_entries dec zero [] m = Some m"
| "decode_entries dec zero ((name, raw, v) # ms) m =
     (case dec raw v zero of
        None \<Rightarrow> None
      | Some x \<Rightarrow> decode_entries dec zero ms (AList.update (unquote name) x m))"

definition decode_map :: "'a decoder \<Rightarrow> 'a \<Rightarrow> (string \<times> 'a) list decoder" where
  "decode_map dec zero raw v old =
     (case v of VNull \<Rightarrow> Some [] | VObject ms \<Rightarrow> decode_entries dec zero ms old | _ \<Rightarrow> None)"

text \<open>
  A struct: each member goes to the field of its name, others are skipped. Names are compared
  after simple case folding. Two characters beyond ASCII fold to ASCII letters, the long s and
  the Kelvin sign.
\<close>

fun fold_name :: "bytes \<Rightarrow> bytes" where
  "fold_name [] = []"
| "fold_name (c # cs) =
     (if prefix [CHR 197, CHR 191] (c # cs) then CHR ''s'' # fold_name (drop 1 cs)
      else if prefix [CHR 226, CHR 132, CHR 170] (c # cs) then CHR ''k'' # fold_name (drop 2 cs)
      else lower_char c # fold_name cs)"

declare fold_name.simps [simp del]

fun decode_members :: "(string \<times> 'r decoder) list \<Rightarrow> (bytes \<times> bytes \<times> jval) list \<Rightarrow> 'r \<Rightarrow> 'r option" where
  "decode_members fields [] r = Some r"
| "decode_members fields ((name, raw, v) # ms) r =
     (case map_of fields (fold_name (unquote name)) of
        None \<Rightarrow> decode_members fields ms r
      | Some dec \<Rightarrow> (case dec raw v r of None \<Rightarrow> None | Some r' \<Rightarrow> decode_members fields ms r'))"

definition decode_struct :: "(string \<times> 'r decoder) list \<Rightarrow> 'r decoder" where
  "decode_struct fields raw v old =
     (case v of VNull \<Rightarrow> Some old | VObject ms \<Rightarrow> decode_members fields ms old | _ \<Rightarrow> None)"

definition Unmarshal :: "'a decoder \<Rightarrow> 'a \<Rightarrow> bytes \<Rightarrow> 'a option" where
  "Unmarshal dec zero s =
     (case Parse s of
        None \<Rightarrow> None
      | Some (raw, v, r) \<Rightarrow> if skip_space r = [] then dec raw v zero else None)"

text \<open>\<open>Decoder.Decode\<close> reads one value and leaves what follows it alone.\<close>

definition Decode :: "'a decoder \<Rightarrow> 'a \<Rightarrow> bytes \<Rightarrow> 'a option" where
  "Decode dec zero s =
     (case Parse s of None \<Rightarrow> None | Some (raw, v, r) \<Rightarrow> dec raw v zero)"

end
