(* ===== verification/Sha256.thy ===== *)
theory Sha256
  imports Prelude "HOL-Library.Word"
begin

text \<open>
  SHA-256, which the program takes from Go's \<open>crypto/sha256\<close> for correlation identifiers,
  request hashes and manifest versions: the padding of FIPS 180-4, the message schedule and the
  64 rounds on 32-bit words.
\<close>

unbundle bit_operations_syntax

type_synonym w32 = "32 word"

definition rotr :: "nat \<Rightarrow> w32 \<Rightarrow> w32" where
  "rotr n w = (drop_bit n w OR push_bit (32 - n) w)"

text \<open>
  The constants of the standard are the first 32 fractional bits of roots of small primes: of the
  square roots for the initial hash value, of the cube roots for the rounds. \<open>root_from k n b r\<close>
  fixes the lowest \<open>b\<close> bits of the integer \<open>k\<close>-th root of \<open>n\<close>, above which \<open>r\<close> is right.
\<close>

primrec root_from :: "nat \<Rightarrow> nat \<Rightarrow> nat \<Rightarrow> nat \<Rightarrow> nat" where
  "root_from k n 0 r = r"
| "root_from k n (Suc b) r = root_from k n b (if (r + 2 ^ b) ^ k \<le> n then r + 2 ^ b else r)"

definition small_primes :: "nat list" where
  "small_primes =
     [2, 3, 5, 7, 11, 13, 17, 19, 23, 29, 31, 37, 41, 43, 47, 53, 59, 61, 67, 71, 73, 79, 83, 89, 97,
      101, 103, 107, 109, 113, 127, 131, 137, 139, 149, 151, 157, 163, 167, 173, 179, 181, 191, 193, 197, 199,
      211, 223, 227, 229, 233, 239, 241, 251, 257, 263, 269, 271, 277, 281, 283, 293, 307, 311]"

definition root_bits :: "nat \<Rightarrow> nat \<Rightarrow> w32" where
  "root_bits k p = of_nat (root_from k (p * 2 ^ (32 * k)) 37 0)"

definition round_constants :: "w32 list" where
  "round_constants = map (root_bits 3) small_primes"

definition initial_hash :: "w32 list" where
  "initial_hash = map (root_bits 2) (take 8 small_primes)"

lemma length_initial_hash: "length initial_hash = 8"
  by (simp add: initial_hash_def small_primes_def)

text \<open>A one bit, zeros up to 56 bytes modulo 64, and the length in bits as 64 bits.\<close>

definition pad_length :: "nat \<Rightarrow> bytes" where
  "pad_length n = map (\<lambda>i. char_of (8 * n div 256 ^ (7 - i) :: nat)) [0 ..< 8]"

definition pad :: "bytes \<Rightarrow> bytes" where
  "pad s = s @ [CHR 128] @ replicate ((119 - length s mod 64) mod 64) (CHR 0x00) @ pad_length (length s)"

lemma length_pad: "64 dvd length (pad s)"
proof -
  define q r where "q = length s div 64" and "r = length s mod 64"
  have len: "length s = 64 * q + r" "r < 64" by (simp_all add: q_def r_def)
  have "(119 - r) mod 64 = (if r \<le> 55 then 55 - r else 119 - r)"
    using len(2) by (auto simp: mod_if)
  then have "length (pad s) = 64 * (if r \<le> 55 then q + 1 else q + 2)"
    using len by (auto simp: pad_def pad_length_def r_def [symmetric])
  then show ?thesis by simp
qed

fun words_of :: "bytes \<Rightarrow> w32 list" where
  "words_of (a # b # c # d # rest) =
     of_nat (((of_char a * 256 + of_char b) * 256 + of_char c) * 256 + of_char d) # words_of rest"
| "words_of _ = []"

definition bytes_of_word :: "w32 \<Rightarrow> bytes" where
  "bytes_of_word w = map (\<lambda>i. char_of (unat w div 256 ^ (3 - i))) [0 ..< 4]"

text \<open>
  The message schedule, kept as the last sixteen words in reverse: the next word comes from the
  2nd, 7th, 15th and 16th word before it.
\<close>

definition next_word :: "w32 list \<Rightarrow> w32" where
  "next_word ws =
     (let w2 = ws ! 1; w7 = ws ! 6; w15 = ws ! 14; w16 = ws ! 15 in
      (rotr 17 w2 XOR rotr 19 w2 XOR drop_bit 10 w2) + w7 +
      (rotr 7 w15 XOR rotr 18 w15 XOR drop_bit 3 w15) + w16)"

fun schedule :: "nat \<Rightarrow> w32 list \<Rightarrow> w32 list" where
  "schedule 0 ws = []"
| "schedule (Suc n) ws = (let w = next_word ws in w # schedule n (w # take 15 ws))"

definition sha_round :: "w32 list \<Rightarrow> w32 \<times> w32 \<Rightarrow> w32 list" where
  "sha_round st kw =
     (case st of
        [a, b, c, d, e, f, g, h] \<Rightarrow>
          (let t1 = h + (rotr 6 e XOR rotr 11 e XOR rotr 25 e) +
                    ((e AND f) XOR (NOT e AND g)) + fst kw + snd kw;
               t2 = (rotr 2 a XOR rotr 13 a XOR rotr 22 a) + ((a AND b) XOR (a AND c) XOR (b AND c))
           in [t1 + t2, a, b, c, d + t1, e, f, g])
      | _ \<Rightarrow> st)"

definition sha_block :: "w32 list \<Rightarrow> w32 list \<Rightarrow> w32 list" where
  "sha_block hash ws =
     map2 (+) hash (foldl sha_round hash (zip round_constants (ws @ schedule 48 (rev ws))))"

function sha_blocks :: "w32 list \<Rightarrow> w32 list \<Rightarrow> w32 list" where
  "sha_blocks hash ws = (if ws = [] then hash else sha_blocks (sha_block hash (take 16 ws)) (drop 16 ws))"
  by pat_completeness auto
termination
  by (relation "measure (length \<circ> snd)") auto

declare sha_blocks.simps [simp del]

definition sha256 :: "bytes \<Rightarrow> bytes" where
  "sha256 s = concat (map bytes_of_word (sha_blocks initial_hash (words_of (pad s))))"

lemma length_sha_round: "length (sha_round st kw) = length st"
  by (simp add: sha_round_def Let_def split: list.split)

lemma length_sha_block: "length (sha_block hash ws) = length hash"
proof -
  have "length (foldl sha_round st kws) = length st" for st kws
    by (induction kws arbitrary: st) (simp_all add: length_sha_round)
  then show ?thesis by (simp add: sha_block_def)
qed

lemma length_sha256: "length (sha256 s) = 32"
proof -
  have blocks: "length (sha_blocks hash ws) = length hash" for hash ws
    by (induction hash ws rule: sha_blocks.induct) (subst sha_blocks.simps, simp add: length_sha_block)
  have "length (concat (map bytes_of_word ws)) = 4 * length ws" for ws
    by (induction ws) (simp_all add: bytes_of_word_def)
  then show ?thesis by (simp add: sha256_def blocks length_initial_hash)
qed

end
