(* ===== verification/Manifest.thy ===== *)
theory Manifest
  imports Json_Parse Sha256
begin

text \<open>
  The operation manifest (\<open>internal/manifest\<close>): the data types of \<open>manifest.go\<close>, the
  validation of one document, loading a directory of documents into a snapshot, and the store
  that a running process reloads (\<open>load.go\<close>). A map of operations is an association list with
  the decoder's keys; the messages of \<open>validate\<close> are the constructors of \<open>problem\<close>, each
  carrying the values the message prints.
\<close>

section \<open>Data\<close>

record status_range =
  sr_From :: int
  sr_To :: int

definition contains :: "status_range \<Rightarrow> int \<Rightarrow> bool" where
  "contains r status \<longleftrightarrow> status \<ge> sr_From r \<and> status \<le> sr_To r"

record error_classification =
  ec_Definitive :: "status_range list"
  ec_NotExecuted :: "status_range list"

definition declared :: "error_classification \<Rightarrow> bool" where
  "declared c \<longleftrightarrow> length (ec_Definitive c) > 0 \<or> length (ec_NotExecuted c) > 0"

definition IsDefinitive :: "error_classification \<Rightarrow> int \<Rightarrow> bool" where
  "IsDefinitive c status = list_ex (\<lambda>r. contains r status) (ec_Definitive c)"

definition IsNotExecuted :: "error_classification \<Rightarrow> int \<Rightarrow> bool" where
  "IsNotExecuted c status = list_ex (\<lambda>r. contains r status) (ec_NotExecuted c)"

definition ClassCreate :: string where "ClassCreate = ''create''"
definition ClassReplace :: string where "ClassReplace = ''replace''"
definition ClassMutate :: string where "ClassMutate = ''mutate''"
definition ClassAppend :: string where "ClassAppend = ''append''"
definition ClassDelete :: string where "ClassDelete = ''delete''"

lemmas class_names = ClassCreate_def ClassReplace_def ClassMutate_def ClassAppend_def ClassDelete_def

definition classes :: "string list" where
  "classes = [ClassCreate, ClassReplace, ClassMutate, ClassAppend, ClassDelete]"

record operation =
  op_Class :: string
  op_Scope :: "string slice"

record document =
  doc_ResourceType :: string
  doc_ConflictWindowMS :: int
  doc_Enforce :: bool
  doc_ProbePath :: string
  doc_Operations :: "(string \<times> operation) list"
  doc_Errors :: error_classification

record mdefinition =
  def_Type :: string
  def_ConflictWindow :: duration
  def_Enforce :: bool
  def_ProbePath :: string
  def_Operations :: "(string \<times> operation) list"
  def_Errors :: error_classification

text \<open>The multiplication by a millisecond is an \<open>int64\<close> product and wraps.\<close>

definition doc_definition :: "document \<Rightarrow> mdefinition" where
  "doc_definition d =
     \<lparr> def_Type = doc_ResourceType d,
       def_ConflictWindow = wrap64 (doc_ConflictWindowMS d * Millisecond),
       def_Enforce = doc_Enforce d,
       def_ProbePath = doc_ProbePath d,
       def_Operations = doc_Operations d,
       def_Errors = doc_Errors d \<rparr>"

section \<open>Validation of one document\<close>

datatype problem =
    ResourceTypeEmpty
  | ResourceTypeNotStem string
  | WindowNotPositive
  | ProbePathNotPath string
  | NoOperations
  | NoErrorClassification
  | NotAStatusRange int int
  | RangesOverlap int int int int
  | UnknownClass string string
  | ScopeWithoutMutate string string
  | NotAFieldPath string string
  | NotDecodable
  | DeclaredTwice string

definition resource_type_problems :: "document \<Rightarrow> string \<Rightarrow> problem list" where
  "resource_type_problems d stem =
     (if doc_ResourceType d = [] then [ResourceTypeEmpty]
      else if doc_ResourceType d \<noteq> stem then [ResourceTypeNotStem (doc_ResourceType d)]
      else [])"

definition range_problems :: "error_classification \<Rightarrow> problem list" where
  "range_problems e =
     concat (map (\<lambda>r. if sr_From r < 100 \<or> sr_To r > 599 \<or> sr_From r > sr_To r
                      then [NotAStatusRange (sr_From r) (sr_To r)] else [])
                 (ec_Definitive e @ ec_NotExecuted e))"

definition overlap_problems :: "error_classification \<Rightarrow> problem list" where
  "overlap_problems e =
     concat (map (\<lambda>d. concat (map (\<lambda>n.
         if sr_From d \<le> sr_To n \<and> sr_From n \<le> sr_To d
         then [RangesOverlap (sr_From d) (sr_To d) (sr_From n) (sr_To n)] else [])
       (ec_NotExecuted e))) (ec_Definitive e))"

definition field_path :: "string \<Rightarrow> bool" where
  "field_path path \<longleftrightarrow>
     \<not> (path = [] \<or> HasPrefix path ''.'' \<or> HasSuffix path ''.'' \<or> Contains path ''..'')"

definition operation_problems :: "string \<times> operation \<Rightarrow> problem list" where
  "operation_problems no =
     (let name = fst no; opn = snd no in
      (if op_Class opn \<notin> set classes then [UnknownClass name (op_Class opn)] else []) @
      (if length (elems (op_Scope opn)) > 0 \<and> op_Class opn \<noteq> ClassMutate
       then [ScopeWithoutMutate name (op_Class opn)] else []) @
      concat (map (\<lambda>path. if \<not> field_path path then [NotAFieldPath name path] else [])
                  (elems (op_Scope opn))))"

definition validate :: "document \<Rightarrow> string \<Rightarrow> (string \<times> problem) list" where
  "validate d stem =
     map (Pair stem)
      (resource_type_problems d stem @
       (if doc_ConflictWindowMS d \<le> 0 then [WindowNotPositive] else []) @
       (if \<not> HasPrefix (doc_ProbePath d) ''/'' then [ProbePathNotPath (doc_ProbePath d)] else []) @
       (if length (doc_Operations d) = 0 then [NoOperations] else []) @
       (if \<not> declared (doc_Errors d) then [NoErrorClassification] else []) @
       range_problems (doc_Errors d) @
       overlap_problems (doc_Errors d) @
       concat (map operation_problems (doc_Operations d)))"

section \<open>Snapshots\<close>

record snapshot =
  snap_version :: string
  snap_byType :: "(string \<times> mdefinition) list"

definition Version :: "snapshot \<Rightarrow> string" where
  "Version s = snap_version s"

definition Snapshot_Lookup :: "snapshot \<Rightarrow> string \<Rightarrow> mdefinition option" where
  "Snapshot_Lookup s resourceType = map_of (snap_byType s) resourceType"

definition Snapshot_Operation :: "snapshot \<Rightarrow> string \<Rightarrow> string \<Rightarrow> operation option" where
  "Snapshot_Operation s resourceType opn =
     (case map_of (snap_byType s) resourceType of
        None \<Rightarrow> None
      | Some d \<Rightarrow> map_of (def_Operations d) opn)"

definition Types :: "snapshot \<Rightarrow> string list" where
  "Types s = sort (map fst (snap_byType s))"

section \<open>Decoding one document\<close>

text \<open>The fields by their \<open>json\<close> tags.\<close>

definition decode_range :: "status_range decoder" where
  "decode_range = decode_struct
     [(''from'', \<lambda>raw v r. map_option (\<lambda>n. r\<lparr>sr_From := n\<rparr>) (decode_int raw v (sr_From r))),
      (''to'', \<lambda>raw v r. map_option (\<lambda>n. r\<lparr>sr_To := n\<rparr>) (decode_int raw v (sr_To r)))]"

definition decode_ranges :: "status_range list decoder" where
  "decode_ranges = decode_list decode_range \<lparr>sr_From = 0, sr_To = 0\<rparr>"

definition decode_errors :: "error_classification decoder" where
  "decode_errors = decode_struct
     [(''definitive'', \<lambda>raw v r.
         map_option (\<lambda>x. r\<lparr>ec_Definitive := x\<rparr>) (decode_ranges raw v (ec_Definitive r))),
      (''not_executed'', \<lambda>raw v r.
         map_option (\<lambda>x. r\<lparr>ec_NotExecuted := x\<rparr>) (decode_ranges raw v (ec_NotExecuted r)))]"

definition decode_operation :: "operation decoder" where
  "decode_operation = decode_struct
     [(''class'', \<lambda>raw v r. map_option (\<lambda>x. r\<lparr>op_Class := x\<rparr>) (decode_string raw v (op_Class r))),
      (''scope'', \<lambda>raw v r.
         map_option (\<lambda>x. r\<lparr>op_Scope := x\<rparr>) (decode_slice decode_string [] raw v (op_Scope r)))]"

definition zero_document :: document where
  "zero_document = \<lparr>doc_ResourceType = [], doc_ConflictWindowMS = 0, doc_Enforce = False, doc_ProbePath = [],
     doc_Operations = [], doc_Errors = \<lparr>ec_Definitive = [], ec_NotExecuted = []\<rparr>\<rparr>"

definition decode_document :: "bytes \<Rightarrow> document option" where
  "decode_document = Unmarshal (decode_struct
     [(''resource_type'', \<lambda>raw v r.
         map_option (\<lambda>x. r\<lparr>doc_ResourceType := x\<rparr>) (decode_string raw v (doc_ResourceType r))),
      (''conflict_window_ms'', \<lambda>raw v r.
         map_option (\<lambda>x. r\<lparr>doc_ConflictWindowMS := x\<rparr>) (decode_int raw v (doc_ConflictWindowMS r))),
      (''enforce'', \<lambda>raw v r.
         map_option (\<lambda>x. r\<lparr>doc_Enforce := x\<rparr>) (decode_bool raw v (doc_Enforce r))),
      (''probe_path'', \<lambda>raw v r.
         map_option (\<lambda>x. r\<lparr>doc_ProbePath := x\<rparr>) (decode_string raw v (doc_ProbePath r))),
      (''operations'', \<lambda>raw v r. map_option (\<lambda>x. r\<lparr>doc_Operations := x\<rparr>)
         (decode_map decode_operation \<lparr>op_Class = [], op_Scope = None\<rparr> raw v (doc_Operations r))),
      (''errors'', \<lambda>raw v r.
         map_option (\<lambda>x. r\<lparr>doc_Errors := x\<rparr>) (decode_errors raw v (doc_Errors r)))]) zero_document"

section \<open>Loading a directory\<close>

datatype load_error =
    GlobFailed
  | NoManifests
  | ReadFailed string
  | Invalid "(string \<times> problem) list"

text \<open>
  The state of the loop over the sorted paths: the hashed bytes so far, the definitions by type
  and the problems found.
\<close>

record loading =
  ld_sum :: bytes
  ld_byType :: "(string \<times> mdefinition) list"
  ld_problems :: "(string \<times> problem) list"

definition load_one ::
  "string \<Rightarrow> bytes \<Rightarrow> loading \<Rightarrow> loading" where
  "load_one stem raw l =
     (let l1 = l\<lparr>ld_sum := ld_sum l @ stem @ raw\<rparr> in
      case decode_document raw of
        None \<Rightarrow> l1\<lparr>ld_problems := ld_problems l1 @ [(stem, NotDecodable)]\<rparr>
      | Some doc \<Rightarrow>
          (let l2 = l1\<lparr>ld_problems := ld_problems l1 @ validate doc stem\<rparr> in
           if map_of (ld_byType l2) (doc_ResourceType doc) \<noteq> None
           then l2\<lparr>ld_problems := ld_problems l2 @ [(stem, DeclaredTwice (doc_ResourceType doc))]\<rparr>
           else l2\<lparr>ld_byType := ld_byType l2 @ [(doc_ResourceType doc, doc_definition doc)]\<rparr>))"

fun load_files ::
  "(string \<times> bytes option) list \<Rightarrow> loading \<Rightarrow> load_error + loading"
where
  "load_files [] l = Inr l"
| "load_files ((path, None) # rest) l = Inl (ReadFailed path)"
| "load_files ((path, Some raw) # rest) l =
     load_files rest (load_one (TrimSuffix path ''.json'') raw l)"

text \<open>
  \<open>files\<close> is what the directory holds: \<open>None\<close> when the glob fails, else the base names of
  the \<open>*.json\<close> files with their contents, or \<open>None\<close> for a file that cannot be read.
\<close>

definition Load ::
  "(string \<times> bytes option) list option
   \<Rightarrow> load_error + snapshot" where
  "Load files =
     (case files of
        None \<Rightarrow> Inl GlobFailed
      | Some fs \<Rightarrow>
          (if length fs = 0 then Inl NoManifests
           else case load_files (sort_key fst fs)
                       \<lparr>ld_sum = [], ld_byType = [], ld_problems = []\<rparr> of
                  Inl e \<Rightarrow> Inl e
                | Inr l \<Rightarrow>
                    (if length (ld_problems l) > 0 then Inl (Invalid (ld_problems l))
                     else Inr \<lparr>snap_version = take 16 (hex_encode (sha256 (ld_sum l))),
                               snap_byType = ld_byType l\<rparr>)))"

section \<open>The store and its reload\<close>

record store =
  store_current :: snapshot

definition NewStore ::
  "(string \<times> bytes option) list option
   \<Rightarrow> load_error + store" where
  "NewStore files =
     (case Load files of
        Inl e \<Rightarrow> Inl e
      | Inr snap \<Rightarrow> Inr \<lparr>store_current = snap\<rparr>)"

definition Current :: "store \<Rightarrow> snapshot" where
  "Current s = store_current s"

datatype reload_result = Unchanged | Reload_Failed load_error | Activated snapshot

definition reload ::
  "(string \<times> bytes option) list option
   \<Rightarrow> store \<Rightarrow> reload_result \<times> store" where
  "reload files s =
     (case Load files of
        Inl e \<Rightarrow> (Reload_Failed e, s)
      | Inr snap \<Rightarrow>
          (if Version snap = Version (Current s) then (Unchanged, s)
           else (Activated snap, s\<lparr>store_current := snap\<rparr>)))"

text \<open>
  \<open>Watch\<close> over the directory's contents at each tick: the store, the activations reported to
  \<open>onActivate\<close> in order, and the number of calls of \<open>onFailure\<close>.
\<close>

fun Watch ::
  "(string \<times> bytes option) list option list
   \<Rightarrow> store \<times> snapshot list \<times> nat \<Rightarrow> store \<times> snapshot list \<times> nat" where
  "Watch [] st = st"
| "Watch (files # ticks) (s, activated, failures) =
     (case reload files s of
        (Unchanged, s') \<Rightarrow> Watch ticks (s', activated, failures)
      | (Reload_Failed e, s') \<Rightarrow> Watch ticks (s', activated, Suc failures)
      | (Activated snap, s') \<Rightarrow> Watch ticks (s', activated @ [snap], failures))"

section \<open>What validation guarantees\<close>

text \<open>A classification that never calls one status both definitive and not executed.\<close>

definition exclusive :: "error_classification \<Rightarrow> bool" where
  "exclusive e \<longleftrightarrow> (\<forall>status. \<not> (IsDefinitive e status \<and> IsNotExecuted e status))"

definition http_range :: "status_range \<Rightarrow> bool" where
  "http_range r \<longleftrightarrow> 100 \<le> sr_From r \<and> sr_From r \<le> sr_To r \<and> sr_To r \<le> 599"

definition valid_operation :: "operation \<Rightarrow> bool" where
  "valid_operation opn \<longleftrightarrow>
     op_Class opn \<in> set classes \<and> (elems (op_Scope opn) \<noteq> [] \<longrightarrow> op_Class opn = ClassMutate) \<and>
     list_all field_path (elems (op_Scope opn))"

definition valid_document :: "document \<Rightarrow> string \<Rightarrow> bool" where
  "valid_document d stem \<longleftrightarrow>
     doc_ResourceType d = stem \<and> stem \<noteq> [] \<and> 0 < doc_ConflictWindowMS d \<and>
     HasPrefix (doc_ProbePath d) ''/'' \<and> doc_Operations d \<noteq> [] \<and> declared (doc_Errors d) \<and>
     list_all http_range (ec_Definitive (doc_Errors d) @ ec_NotExecuted (doc_Errors d)) \<and>
     exclusive (doc_Errors d) \<and> list_all (valid_operation \<circ> snd) (doc_Operations d)"

lemma overlap_problems_iff:
  "overlap_problems e = [] \<longleftrightarrow>
     (\<forall>d \<in> set (ec_Definitive e). \<forall>n \<in> set (ec_NotExecuted e).
        \<not> (sr_From d \<le> sr_To n \<and> sr_From n \<le> sr_To d))"
  by (auto simp: overlap_problems_def concat_map_nil if_nil simp del: concat_eq_Nil_conv)

lemma no_overlap_exclusive: "overlap_problems e = [] \<Longrightarrow> exclusive e"
  unfolding overlap_problems_iff exclusive_def IsDefinitive_def IsNotExecuted_def contains_def
    list_ex_iff
  by (meson order_trans)

text \<open>Over ranges of statuses the check is exact: an overlap is a status in both lists.\<close>

lemma exclusive_no_overlap:
  assumes "exclusive e"
    and "\<forall>r \<in> set (ec_Definitive e @ ec_NotExecuted e). sr_From r \<le> sr_To r"
  shows "overlap_problems e = []"
proof (unfold overlap_problems_iff, intro ballI notI)
  fix d n
  assume dn: "d \<in> set (ec_Definitive e)" "n \<in> set (ec_NotExecuted e)"
    and ov: "sr_From d \<le> sr_To n \<and> sr_From n \<le> sr_To d"
  let ?s = "max (sr_From d) (sr_From n)"
  have "contains d ?s" "contains n ?s"
    using dn ov assms(2) by (auto simp: contains_def)
  with dn have "IsDefinitive e ?s" "IsNotExecuted e ?s"
    by (auto simp: IsDefinitive_def IsNotExecuted_def list_ex_iff)
  with assms(1) show False by (auto simp: exclusive_def)
qed

lemma range_problems_iff:
  "range_problems e = [] \<longleftrightarrow>
     list_all http_range (ec_Definitive e @ ec_NotExecuted e)"
  unfolding range_problems_def concat_map_nil if_nil list_all_iff http_range_def
  by (meson not_le)

lemma operation_problems_iff:
  "operation_problems no = [] \<longleftrightarrow> valid_operation (snd no)"
  by (auto simp: operation_problems_def valid_operation_def list_all_iff Let_def concat_map_nil
      if_nil simp del: concat_eq_Nil_conv)

lemma operations_problems_iff:
  "concat (map operation_problems ops) = [] \<longleftrightarrow> list_all (valid_operation \<circ> snd) ops"
  by (induction ops) (auto simp: operation_problems_iff)

lemma ranges_exclusive_iff:
  "range_problems e = [] \<and> overlap_problems e = [] \<longleftrightarrow>
     list_all http_range (ec_Definitive e @ ec_NotExecuted e) \<and> exclusive e"
proof -
  have "list_all http_range (ec_Definitive e @ ec_NotExecuted e) \<Longrightarrow> exclusive e \<Longrightarrow>
    overlap_problems e = []"
    by (rule exclusive_no_overlap) (auto simp: list_all_iff http_range_def)
  then show ?thesis
    using no_overlap_exclusive [of e] range_problems_iff [of e] by blast
qed

lemma resource_type_problems_iff:
  "resource_type_problems d stem = [] \<longleftrightarrow> doc_ResourceType d = stem \<and> stem \<noteq> []"
  by (auto simp: resource_type_problems_def)

lemma validate_nil_iff: "validate d stem = [] \<longleftrightarrow> valid_document d stem"
  unfolding validate_def valid_document_def map_is_Nil_conv append_is_Nil_conv if_nil not_le not_not
    resource_type_problems_iff operations_problems_iff length_0_conv
  using ranges_exclusive_iff [of "doc_Errors d"] by blast

section \<open>What a load guarantees\<close>

lemma load_one_ok:
  assumes "ld_problems (load_one stem raw l) = []"
  shows "\<exists>doc. decode_document raw = Some doc \<and> valid_document doc stem \<and> stem \<notin> fst ` set (ld_byType l) \<and>
    ld_problems l = [] \<and> ld_byType (load_one stem raw l) = ld_byType l @ [(stem, doc_definition doc)]"
  using assms validate_nil_iff [of _ stem]
  by (auto simp: load_one_def Let_def map_of_eq_None_iff valid_document_def split: option.splits if_splits)

lemma load_files_problems:
  "load_files fs l = Inr l' \<Longrightarrow> ld_problems l' = [] \<Longrightarrow> ld_problems l = []"
proof (induction fs l rule: load_files.induct)
  case (3 path raw rest l)
  then have "ld_problems (load_one (TrimSuffix path ''.json'') raw l) = []" by simp
  then show ?case using load_one_ok by blast
qed simp_all

definition file_ok :: "string \<times> bytes option \<Rightarrow> document \<Rightarrow> bool" where
  "file_ok f doc \<longleftrightarrow>
     (\<exists>raw. snd f = Some raw \<and> decode_document raw = Some doc) \<and>
     valid_document doc (TrimSuffix (fst f) ''.json'')"

lemma load_files_ok:
  assumes "load_files fs l = Inr l'" and "ld_problems l' = []"
    and "distinct (map fst (ld_byType l))"
  shows "ld_problems l = [] \<and> distinct (map fst (ld_byType l')) \<and>
    (\<exists>docs. list_all2 (file_ok) fs docs \<and>
       ld_byType l' = ld_byType l @ map (\<lambda>d. (doc_ResourceType d, doc_definition d)) docs)"
  using assms
proof (induction fs l rule: load_files.induct)
  case (1 l)
  then show ?case by auto
next
  case (2 path rest l)
  then show ?case by simp
next
  case (3 path raw rest l)
  let ?stem = "TrimSuffix path ''.json''"
  let ?l1 = "load_one ?stem raw l"
  have pr: "ld_problems ?l1 = []"
    using "3.prems"(1,2) by (auto dest: load_files_problems)
  obtain doc where doc: "decode_document raw = Some doc" "valid_document doc ?stem" "ld_problems l = []"
      "?stem \<notin> fst ` set (ld_byType l)" "ld_byType ?l1 = ld_byType l @ [(?stem, doc_definition doc)]"
    using load_one_ok [OF pr] by blast
  have "distinct (map fst (ld_byType ?l1))"
    using doc "3.prems"(3) by simp
  then obtain docs where
    ih: "distinct (map fst (ld_byType l'))" "list_all2 (file_ok) rest docs"
      "ld_byType l' = ld_byType ?l1 @ map (\<lambda>d. (doc_ResourceType d, doc_definition d)) docs"
    using "3.IH" "3.prems"(1,2) unfolding load_files.simps by blast
  from doc have "doc_ResourceType doc = ?stem" by (simp add: valid_document_def)
  with doc ih have "list_all2 (file_ok) ((path, Some raw) # rest) (doc # docs)"
      "ld_byType l' = ld_byType l @ map (\<lambda>d. (doc_ResourceType d, doc_definition d)) (doc # docs)"
    by (auto simp: file_ok_def)
  with ih(1) doc(3) show ?case by blast
qed

lemma Load_ok:
  assumes "Load files = Inr snap"
  shows "\<exists>fs docs. files = Some fs \<and> list_all2 (file_ok) (sort_key fst fs) docs \<and>
    snap_byType snap = map (\<lambda>d. (doc_ResourceType d, doc_definition d)) docs \<and>
    distinct (map fst (snap_byType snap))"
proof -
  obtain fs l where "files = Some fs" and "ld_problems l = []" and "snap_byType snap = ld_byType l"
    and "load_files (sort_key fst fs) \<lparr>ld_sum = [], ld_byType = [], ld_problems = []\<rparr> = Inr l"
    using assms by (auto simp: Load_def split: option.splits sum.splits if_splits)
  with load_files_ok [of "sort_key fst fs" _ l] show ?thesis by fastforce
qed

lemma Lookup_docs:
  assumes "snap_byType snap = map (\<lambda>d. (doc_ResourceType d, doc_definition d)) docs"
    and "distinct (map fst (snap_byType snap))" and "doc \<in> set docs"
  shows "Snapshot_Lookup snap (doc_ResourceType doc) = Some (doc_definition doc)"
  using assms unfolding Snapshot_Lookup_def by (intro map_of_is_SomeI) auto

lemma Lookup_docsD:
  assumes "snap_byType snap = map (\<lambda>d. (doc_ResourceType d, doc_definition d)) docs"
    and "Snapshot_Lookup snap t = Some d"
  shows "\<exists>doc \<in> set docs. t = doc_ResourceType doc \<and> d = doc_definition doc"
  using map_of_SomeD [OF assms(2) [unfolded Snapshot_Lookup_def]] assms(1) by auto

lemma doc_definition_errors [simp]: "def_Errors (doc_definition d) = doc_Errors d"
  by (simp add: doc_definition_def)

text \<open>
  What the processes rely on after a load: a definition served for a type comes from a document
  that validated under that very type.
\<close>

lemma Load_lookup:
  assumes "Load files = Inr snap" and "Snapshot_Lookup snap t = Some d"
  shows "\<exists>doc. valid_document doc t \<and> d = doc_definition doc"
proof -
  obtain fs docs where ok: "list_all2 (file_ok) (sort_key fst fs) docs"
    "snap_byType snap = map (\<lambda>d. (doc_ResourceType d, doc_definition d)) docs"
    using Load_ok [OF assms(1)] by blast
  then obtain doc where doc: "doc \<in> set docs" "t = doc_ResourceType doc" "d = doc_definition doc"
    using Lookup_docsD assms(2) by blast
  from ok(1) doc(1) obtain f where "file_ok f doc"
    by (metis in_set_conv_nth list_all2_conv_all_nth)
  with doc show ?thesis by (auto simp: file_ok_def valid_document_def)
qed

section \<open>The manifests the repository ships\<close>

definition invoice_manifest :: document where
  "invoice_manifest =
     \<lparr> doc_ResourceType = ''invoice'', doc_ConflictWindowMS = 5000, doc_Enforce = False,
       doc_ProbePath = ''/probe'',
       doc_Operations =
         [(''create_charge'', \<lparr>op_Class = ''create'', op_Scope = None\<rparr>),
          (''add_line_item'', \<lparr>op_Class = ''append'', op_Scope = None\<rparr>),
          (''update_status'', \<lparr>op_Class = ''mutate'', op_Scope = Some [''status'']\<rparr>),
          (''update_billing_address'', \<lparr>op_Class = ''mutate'', op_Scope = Some [''billing_address'']\<rparr>)],
       doc_Errors = \<lparr> ec_Definitive = [\<lparr>sr_From = 200, sr_To = 299\<rparr>, \<lparr>sr_From = 400, sr_To = 499\<rparr>],
                      ec_NotExecuted = [] \<rparr> \<rparr>"

definition subscription_manifest :: document where
  "subscription_manifest =
     \<lparr> doc_ResourceType = ''subscription'', doc_ConflictWindowMS = 2000, doc_Enforce = False,
       doc_ProbePath = ''/probe/subscription'',
       doc_Operations =
         [(''create_subscription'', \<lparr>op_Class = ''create'', op_Scope = None\<rparr>),
          (''add_note'', \<lparr>op_Class = ''append'', op_Scope = None\<rparr>),
          (''pause'', \<lparr>op_Class = ''mutate'', op_Scope = Some [''state'']\<rparr>),
          (''change_plan'', \<lparr>op_Class = ''mutate'', op_Scope = Some [''plan'']\<rparr>)],
       doc_Errors = \<lparr> ec_Definitive = [\<lparr>sr_From = 200, sr_To = 299\<rparr>, \<lparr>sr_From = 400, sr_To = 428\<rparr>],
                      ec_NotExecuted = [\<lparr>sr_From = 429, sr_To = 429\<rparr>, \<lparr>sr_From = 503, sr_To = 503\<rparr>] \<rparr> \<rparr>"

text \<open>The text of the two files, without the white space between tokens.\<close>

definition invoice_text :: bytes where
  \<open>invoice_text =
     ''{"resource_type":"invoice","conflict_window_ms":5000,"enforce":false,"probe_pa'' @
     ''th":"/probe","operations":{"create_charge":{"class":"create"},"add_line_item":'' @
     ''{"class":"append"},"update_status":{"class":"mutate","scope":["status"]},"upda'' @
     ''te_billing_address":{"class":"mutate","scope":["billing_address"]}},"errors":{'' @
     ''"definitive":[{"from":200,"to":299},{"from":400,"to":499}]}}''\<close>

definition subscription_text :: bytes where
  \<open>subscription_text =
     ''{"resource_type":"subscription","conflict_window_ms":2000,"enforce":false,"pro'' @
     ''be_path":"/probe/subscription","operations":{"create_subscription":{"class":"c'' @
     ''reate"},"add_note":{"class":"append"},"pause":{"class":"mutate","scope":["stat'' @
     ''e"]},"change_plan":{"class":"mutate","scope":["plan"]}},"errors":{"definitive"'' @
     '':[{"from":200,"to":299},{"from":400,"to":428}],"not_executed":[{"from":429,"to'' @
     ''":429},{"from":503,"to":503}]}}''\<close>

lemma invoice_decodes: "decode_document invoice_text = Some invoice_manifest"
  by code_simp

lemma subscription_decodes: "decode_document subscription_text = Some subscription_manifest"
  by code_simp

definition shipped_files :: "(string \<times> bytes option) list" where
  "shipped_files = [(''invoice.json'', Some invoice_text), (''subscription.json'', Some subscription_text)]"

definition shipped_snapshot :: snapshot where
  "shipped_snapshot =
     \<lparr> snap_version = take 16 (hex_encode (sha256
         (''invoice'' @ invoice_text @ ''subscription'' @ subscription_text))),
       snap_byType = [(''invoice'', doc_definition invoice_manifest),
                      (''subscription'', doc_definition subscription_manifest)] \<rparr>"

lemma shipped_load: "Load (Some shipped_files) = Inr shipped_snapshot"
proof -
  have sorted: "sort_key fst shipped_files = shipped_files"
    by (simp add: shipped_files_def)
  have stems: "TrimSuffix ''invoice.json'' ''.json'' = ''invoice''"
    "TrimSuffix ''subscription.json'' ''.json'' = ''subscription''"
    by code_simp+
  have valid: "validate invoice_manifest ''invoice'' = []" "validate subscription_manifest ''subscription'' = []"
    by code_simp+
  have types: "doc_ResourceType invoice_manifest = ''invoice''" "doc_ResourceType subscription_manifest = ''subscription''"
    by (simp_all add: invoice_manifest_def subscription_manifest_def)
  have "load_files (sort_key fst shipped_files) \<lparr>ld_sum = [], ld_byType = [], ld_problems = []\<rparr> =
      Inr \<lparr>ld_sum = ''invoice'' @ invoice_text @ ''subscription'' @ subscription_text,
           ld_byType = snap_byType shipped_snapshot, ld_problems = []\<rparr>"
    unfolding sorted
    by (simp add: shipped_files_def load_one_def invoice_decodes subscription_decodes stems valid types
        shipped_snapshot_def)
  then show ?thesis by (simp add: Load_def shipped_files_def shipped_snapshot_def)
qed

section \<open>Properties\<close>

text \<open>
  C14: validation of a document is exact. It reports no problem precisely when the document names
  the type it is filed under, its window and probe path are present, every status range is a
  range of HTTP statuses, no status is both definitive and provably not executed, and every
  operation has a known class with well-formed field paths on mutates only.
\<close>

theorem validate_exact: "validate d stem = [] \<longleftrightarrow> valid_document d stem"
  by (rule validate_nil_iff)

text \<open>
  C15: a directory is loaded as a whole or not at all. When \<open>Load\<close> succeeds, every file of the
  directory was readable, decoded and valid and is served under its own file name, nothing else
  is served, and no served classification can call one status both definitive and not executed.
\<close>

theorem Load_whole_directory:
  assumes "Load (Some fs) = Inr snap"
  shows "(\<forall>f \<in> set fs. \<exists>doc. file_ok f doc \<and>
            Snapshot_Lookup snap (TrimSuffix (fst f) ''.json'') = Some (doc_definition doc)) \<and>
         (\<forall>t d. Snapshot_Lookup snap t = Some d \<longrightarrow>
            t \<in> (\<lambda>f. TrimSuffix (fst f) ''.json'') ` set fs \<and> exclusive (def_Errors d))"
proof -
  obtain docs where ok: "list_all2 (file_ok) (sort_key fst fs) docs"
    and bt: "snap_byType snap = map (\<lambda>d. (doc_ResourceType d, doc_definition d)) docs"
      "distinct (map fst (snap_byType snap))"
    using Load_ok [OF assms] by auto
  have "\<exists>doc. file_ok f doc \<and>
      Snapshot_Lookup snap (TrimSuffix (fst f) ''.json'') = Some (doc_definition doc)"
    if "f \<in> set fs" for f
  proof -
    from that have "f \<in> set (sort_key fst fs)" by simp
    with ok obtain doc where doc: "doc \<in> set docs" "file_ok f doc"
      by (metis in_set_conv_nth list_all2_conv_all_nth)
    then have "doc_ResourceType doc = TrimSuffix (fst f) ''.json''"
      by (auto simp: file_ok_def valid_document_def)
    with doc Lookup_docs [OF bt doc(1)] show ?thesis by auto
  qed
  moreover have "t \<in> (\<lambda>f. TrimSuffix (fst f) ''.json'') ` set fs \<and> exclusive (def_Errors d)"
    if lk: "Snapshot_Lookup snap t = Some d" for t d
  proof -
    obtain doc where doc: "doc \<in> set docs" "t = doc_ResourceType doc" "d = doc_definition doc"
      using Lookup_docsD [OF bt(1) lk] by blast
    with ok obtain f where f: "f \<in> set (sort_key fst fs)" "file_ok f doc"
      by (metis in_set_conv_nth list_all2_conv_all_nth)
    with doc show ?thesis by (auto simp: file_ok_def valid_document_def)
  qed
  ultimately show ?thesis by blast
qed

theorem Load_whole_directory_witness:
  "exclusive (doc_Errors subscription_manifest)"
proof -
  have "Snapshot_Lookup shipped_snapshot ''subscription'' = Some (doc_definition subscription_manifest)"
    by (simp add: Snapshot_Lookup_def shipped_snapshot_def)
  with Load_whole_directory [OF shipped_load] show ?thesis by fastforce
qed

text \<open>The snapshots of the ticks at which the directory loads.\<close>

fun loads :: "(string \<times> bytes option) list option list \<Rightarrow> snapshot list" where
  "loads [] = []"
| "loads (files # ticks) = (case Load files of Inl _ \<Rightarrow> loads ticks | Inr snap \<Rightarrow> snap # loads ticks)"

lemma Watch_run:
  "Watch ticks (s, act, n) = (s', act', n') \<Longrightarrow>
     \<exists>new. act' = act @ new \<and> Current s' = last (Current s # new) \<and> subseq new (loads ticks) \<and>
       map Version (Current s # new) = remdups_adj (map Version (Current s # loads ticks)) \<and>
       n' = n + length (filter (\<lambda>files. isl (Load files)) ticks)"
proof (induction ticks arbitrary: s act n)
  case (Cons files ticks)
  show ?case
  proof (cases "Load files")
    case (Inl e)
    then show ?thesis using Cons.prems Cons.IH [of s act "Suc n"] by (auto simp: reload_def)
  next
    case (Inr snap)
    show ?thesis
    proof (cases "Version snap = Version (Current s)")
      case True
      then have "Watch ticks (s, act, n) = (s', act', n')" using Cons.prems Inr by (simp add: reload_def)
      from Cons.IH [OF this] obtain new where "act' = act @ new" "Current s' = last (Current s # new)"
        "subseq new (loads ticks)" "n' = n + length (filter (\<lambda>files. isl (Load files)) ticks)"
        "map Version (Current s # new) = remdups_adj (map Version (Current s # loads ticks))" by blast
      then show ?thesis using Inr True by (intro exI [of _ new]) auto
    next
      case False
      let ?s = "s\<lparr>store_current := snap\<rparr>"
      have "Watch ticks (?s, act @ [snap], n) = (s', act', n')" using Cons.prems Inr False by (simp add: reload_def)
      from Cons.IH [OF this] obtain new where "act' = act @ snap # new" "Current s' = last (snap # new)"
        "subseq new (loads ticks)" "n' = n + length (filter (\<lambda>files. isl (Load files)) ticks)"
        "map Version (snap # new) = remdups_adj (map Version (snap # loads ticks))"
        by (auto simp: Current_def)
      then show ?thesis using Inr False by (intro exI [of _ "snap # new"]) auto
    qed
  qed
qed simp

text \<open>
  C16: a running process serves the last manifest that validated as a whole. Whatever the directory
  holds at each tick of \<open>Watch\<close>, the version served afterwards is that of the last tick at which the
  directory loaded, or the one the process booted with when none did. The activations reported are
  loads of the directory, in their order: exactly those whose version differs from the load before,
  so an unchanged directory is never activated again; the snapshot served is the last of them. Exactly
  the ticks whose load fails are counted as reload failures.
\<close>

theorem Watch_serves_last_valid:
  assumes "Watch ticks (s, [], 0) = (s', activated, failures)"
  shows "Version (Current s') = last (map Version (Current s # loads ticks)) \<and>
    Current s' = last (Current s # activated) \<and> subseq activated (loads ticks) \<and>
    map Version (Current s # activated) = remdups_adj (map Version (Current s # loads ticks)) \<and>
    failures = length (filter (\<lambda>files. isl (Load files)) ticks)"
proof -
  have run: "Current s' = last (Current s # activated)" "subseq activated (loads ticks)"
    "map Version (Current s # activated) = remdups_adj (map Version (Current s # loads ticks))"
    "failures = length (filter (\<lambda>files. isl (Load files)) ticks)"
    using Watch_run [OF assms] by auto
  have "Version (Current s') = last (map Version (Current s # activated))"
    unfolding run(1) by (simp only: last_map list.distinct not_False_eq_True)
  also have "\<dots> = last (map Version (Current s # loads ticks))" unfolding run(3) by (rule last_remdups_adj)
  finally show ?thesis using run by blast
qed

definition shipped_store :: store where
  "shipped_store = \<lparr>store_current = \<lparr>snap_version = ''v0'', snap_byType = []\<rparr>\<rparr>"

theorem Watch_serves_last_valid_witness:
  "Version (Current (fst (Watch [None, Some shipped_files, Some shipped_files, Some []] (shipped_store, [], 0)))) =
     Version shipped_snapshot \<and>
   snd (snd (Watch [None, Some shipped_files, Some shipped_files, Some []] (shipped_store, [], 0))) = 2"
proof -
  let ?ticks = "[None, Some shipped_files, Some shipped_files, Some []]"
  obtain s' act n where w: "Watch ?ticks (shipped_store, [], 0) = (s', act, n)" by (metis prod_cases3)
  have fail: "Load None = Inl GlobFailed" "Load (Some []) = Inl NoManifests" by (simp_all add: Load_def)
  have "Version (Current s') = last (map Version (Current shipped_store # loads ?ticks))"
    "n = length (filter (\<lambda>files. isl (Load files)) ?ticks)"
    using Watch_serves_last_valid [OF w] by blast+
  then show ?thesis unfolding w by (simp add: shipped_load fail)
qed

text \<open>
  C17: the conflict window of a validated manifest is its declared number of milliseconds, and
  so positive, only while the product with a millisecond fits an \<open>int64\<close>. Validation accepts
  larger values, and the window then wraps: the document below validates, declares a window of
  almost three hundred years, and is served with a negative one.
\<close>

theorem window_wraps:
  "(\<forall>d stem. validate d stem = [] \<and> doc_ConflictWindowMS d * Millisecond < 2 ^ 63 \<longrightarrow>
      def_ConflictWindow (doc_definition d) = doc_ConflictWindowMS d * Millisecond \<and>
      0 < def_ConflictWindow (doc_definition d)) \<and>
   (let d = invoice_manifest\<lparr>doc_ConflictWindowMS := 9223372036855\<rparr> in
      validate d ''invoice'' = [] \<and> def_ConflictWindow (doc_definition d) < 0)"
proof (intro conjI allI impI)
  fix d stem
  assume a: "validate d stem = [] \<and> doc_ConflictWindowMS d * Millisecond < 2 ^ 63"
  then have "fits64 (doc_ConflictWindowMS d * Millisecond)"
    unfolding validate_nil_iff by (simp add: valid_document_def fits64_def Millisecond_def)
  with a show "def_ConflictWindow (doc_definition d) = doc_ConflictWindowMS d * Millisecond"
    and "0 < def_ConflictWindow (doc_definition d)"
    by (simp_all add: doc_definition_def wrap64_id validate_nil_iff valid_document_def Millisecond_def)
next
  show "let d = invoice_manifest\<lparr>doc_ConflictWindowMS := 9223372036855\<rparr> in
      validate d ''invoice'' = [] \<and> def_ConflictWindow (doc_definition d) < 0"
    by code_simp
qed

theorem window_wraps_witness:
  "def_ConflictWindow (doc_definition invoice_manifest) = 5000 * Millisecond"
proof -
  have "validate invoice_manifest ''invoice'' = [] \<and>
      doc_ConflictWindowMS invoice_manifest * Millisecond < 2 ^ 63"
    by code_simp
  with window_wraps show ?thesis by (auto simp: invoice_manifest_def)
qed

end
