(* ===== verification/Conflict.thy ===== *)
theory Conflict
  imports Manifest
begin

text \<open>
  The compatibility matrix (\<open>internal/conflict/conflict.go\<close>). \<open>Compatible\<close> decides whether
  two operations may run on one resource inside a conflict window, \<open>ScopesDisjoint\<close> and
  \<open>overlaps\<close> compare the field paths two mutates write, \<open>Reason\<close> words the conflict. The
  lemmas give the string comparison its meaning: a path stands for the subtree of fields below
  it, and two scopes are disjoint exactly when no field lies under both.
\<close>

section \<open>The matrix\<close>

definition overlaps :: "string \<Rightarrow> string \<Rightarrow> bool" where
  "overlaps a b \<longleftrightarrow> a = b \<or> HasPrefix a (b @ ''.'') \<or> HasPrefix b (a @ ''.'')"

definition ScopesDisjoint :: "string list \<Rightarrow> string list \<Rightarrow> bool" where
  "ScopesDisjoint a b =
     (if length a = 0 \<or> length b = 0 then False
      else \<not> list_ex (\<lambda>left. list_ex (\<lambda>right. overlaps left right) b) a)"

definition Compatible :: "operation \<Rightarrow> operation \<Rightarrow> bool" where
  "Compatible a b =
     (if op_Class a = ClassAppend \<and> op_Class b = ClassAppend then True
      else if op_Class a = ClassAppend \<and> op_Class b = ClassMutate \<or>
              op_Class a = ClassMutate \<and> op_Class b = ClassAppend then True
      else if op_Class a = ClassMutate \<and> op_Class b = ClassMutate
           then ScopesDisjoint (elems (op_Scope a)) (elems (op_Scope b))
      else False)"

definition scopeText :: "string list \<Rightarrow> string" where
  "scopeText scope =
     (if length scope = 0 then ''(whole resource)'' else ''['' @ Join scope '' '' @ '']'')"

definition Reason :: "operation \<Rightarrow> operation \<Rightarrow> string" where
  "Reason incoming existing =
     (if op_Class incoming = ClassMutate \<and> op_Class existing = ClassMutate
      then ''mutate/mutate with overlapping scope '' @ scopeText (elems (op_Scope incoming)) @ '' and '' @
           scopeText (elems (op_Scope existing))
      else op_Class incoming @ ''/'' @ op_Class existing)"

section \<open>Field paths as lists of segments\<close>

text \<open>The segments of a dotted path: never empty, and joined by dots they give the path back.\<close>

fun segments :: "string \<Rightarrow> string list" where
  "segments [] = [[]]"
| "segments (c # cs) =
     (if c = CHR ''.'' then [] # segments cs
      else case segments cs of [] \<Rightarrow> [[c]] | s # ss \<Rightarrow> (c # s) # ss)"

lemma segments_not_Nil [simp]: "segments s \<noteq> []"
  by (induction s) (auto split: list.splits)

lemma segments_append_dot: "segments (a @ ''.'' @ b) = segments a @ segments b"
  by (induction a) (auto split: list.splits)

lemma Join_Cons_char: "ss \<noteq> [] \<Longrightarrow> Join ((c # s) # ss) sep = c # Join (s # ss) sep"
  by (cases ss) auto

lemma Join_segments: "Join (segments s) ''.'' = s"
proof (induction s)
  case Nil
  then show ?case by simp
next
  case (Cons c s)
  obtain x xs where x: "segments s = x # xs"
    by (cases "segments s") auto
  show ?case
  proof (cases xs)
    case Nil
    with Cons x show ?thesis by simp
  next
    case (Cons y ys)
    with \<open>Join (segments s) ''.'' = s\<close> x show ?thesis by simp
  qed
qed

lemma segments_inj: "segments a = segments b \<Longrightarrow> a = b"
  by (metis Join_segments)

lemma Join_append:
  "xs \<noteq> [] \<Longrightarrow> ys \<noteq> [] \<Longrightarrow> Join (xs @ ys) sep = Join xs sep @ sep @ Join ys sep"
proof (induction xs)
  case (Cons x xs)
  then show ?case by (cases xs; cases ys) auto
qed simp

lemma prefix_segments_iff:
  "prefix (segments a) (segments b) \<longleftrightarrow> a = b \<or> HasPrefix b (a @ ''.'')"
proof
  assume "prefix (segments a) (segments b)"
  then obtain ss where ss: "segments b = segments a @ ss" by (auto simp: prefix_def)
  show "a = b \<or> HasPrefix b (a @ ''.'')"
  proof (cases "ss = []")
    case True
    with ss segments_inj show ?thesis by auto
  next
    case False
    then have "b = a @ ''.'' @ Join ss ''.''"
      using Join_append [of "segments a" ss "''.''"] Join_segments [of a] Join_segments [of b] ss
      by simp
    then show ?thesis by (auto simp: prefix_def)
  qed
next
  assume "a = b \<or> HasPrefix b (a @ ''.'')"
  then show "prefix (segments a) (segments b)"
    using segments_append_dot [of a] by (auto simp: prefix_def)
qed

lemma overlaps_segments:
  "overlaps a b \<longleftrightarrow> prefix (segments a) (segments b) \<or> prefix (segments b) (segments a)"
  unfolding prefix_segments_iff overlaps_def by auto

text \<open>
  The fields a scope writes: every field whose path extends, segment by segment, one of the
  declared paths. The empty scope writes the whole resource.
\<close>

definition writes :: "string list \<Rightarrow> string list \<Rightarrow> bool" where
  "writes scope field \<longleftrightarrow> scope = [] \<or> (\<exists>path \<in> set scope. prefix (segments path) field)"

lemma overlaps_common_field:
  "overlaps a b \<longleftrightarrow> (\<exists>field. prefix (segments a) field \<and> prefix (segments b) field)"
  unfolding overlaps_segments by (meson prefix_order.order_refl prefix_same_cases)

lemma ScopesDisjoint_sym: "ScopesDisjoint a b = ScopesDisjoint b a"
  by (auto simp: ScopesDisjoint_def list_ex_iff overlaps_def)

lemma ScopesDisjoint_writes:
  "ScopesDisjoint a b \<longleftrightarrow> \<not> (\<exists>field. writes a field \<and> writes b field)"
proof (cases "a = [] \<or> b = []")
  case True
  then show ?thesis
    by (cases a; cases b) (auto simp: ScopesDisjoint_def writes_def)
next
  case False
  then have "ScopesDisjoint a b \<longleftrightarrow> \<not> (\<exists>l \<in> set a. \<exists>r \<in> set b. overlaps l r)"
    by (auto simp: ScopesDisjoint_def list_ex_iff)
  also have "\<dots> \<longleftrightarrow> \<not> (\<exists>field. writes a field \<and> writes b field)"
    unfolding overlaps_common_field writes_def using False by blast
  finally show ?thesis .
qed

lemma Compatible_sym: "Compatible a b = Compatible b a"
proof -
  have "ScopesDisjoint (elems (op_Scope a)) (elems (op_Scope b)) = ScopesDisjoint (elems (op_Scope b)) (elems (op_Scope a))"
    by (rule ScopesDisjoint_sym)
  then show ?thesis
    unfolding Compatible_def by argo
qed

section \<open>Properties\<close>

text \<open>
  C13: the matrix is symmetric, so the verdict on a pair of writes does not depend on which of
  them arrived first; an operation that is neither an append nor a mutate conflicts with
  everything; an append is compatible with every append and mutate; and two mutates are
  compatible exactly when no field of the resource is written by both. The comparison of dotted
  strings is comparison of whole path segments (\<open>billing\<close> and \<open>billing_address\<close> are
  disjoint, \<open>billing_address\<close> and \<open>billing_address.city\<close> are not), and a mutate that
  declares no scope writes every field.
\<close>

theorem Compatible_matrix:
  "Compatible a b = Compatible b a \<and>
   (Compatible a b \<longleftrightarrow>
      {op_Class a, op_Class b} \<subseteq> {ClassAppend, ClassMutate} \<and>
      (op_Class a = ClassMutate \<and> op_Class b = ClassMutate \<longrightarrow>
         \<not> (\<exists>field. writes (elems (op_Scope a)) field \<and> writes (elems (op_Scope b)) field)))"
proof -
  have "ClassAppend \<noteq> ClassMutate" by (simp add: class_names)
  then have "Compatible a b \<longleftrightarrow>
      {op_Class a, op_Class b} \<subseteq> {ClassAppend, ClassMutate} \<and>
      (op_Class a = ClassMutate \<and> op_Class b = ClassMutate \<longrightarrow>
         ScopesDisjoint (elems (op_Scope a)) (elems (op_Scope b)))"
    by (cases "op_Class a = ClassAppend"; cases "op_Class b = ClassAppend";
        cases "op_Class a = ClassMutate"; cases "op_Class b = ClassMutate")
       (simp_all add: Compatible_def)
  then show ?thesis
    unfolding ScopesDisjoint_writes using Compatible_sym by blast
qed

theorem Compatible_matrix_witness:
  "Compatible \<lparr>op_Class = ''mutate'', op_Scope = Some [''billing'']\<rparr>
     \<lparr>op_Class = ''mutate'', op_Scope = Some [''billing_address'']\<rparr> \<and>
   \<not> (\<exists>field. writes [''billing''] field \<and> writes [''billing_address''] field) \<and>
   \<not> Compatible \<lparr>op_Class = ''mutate'', op_Scope = Some [''billing_address'']\<rparr>
     \<lparr>op_Class = ''mutate'', op_Scope = Some [''billing_address.city'']\<rparr>"
proof -
  let ?a = "\<lparr>op_Class = ''mutate'', op_Scope = Some [''billing'']\<rparr>"
  let ?b = "\<lparr>op_Class = ''mutate'', op_Scope = Some [''billing_address'']\<rparr>"
  let ?c = "\<lparr>op_Class = ''mutate'', op_Scope = Some [''billing_address.city'']\<rparr>"
  have c: "Compatible ?a ?b" by code_simp
  moreover have "\<not> Compatible ?b ?c" by code_simp
  moreover have "\<not> (\<exists>field. writes (elems (op_Scope ?a)) field \<and> writes (elems (op_Scope ?b)) field)"
    using Compatible_matrix [of ?a ?b, THEN conjunct2, THEN iffD1, OF c] by (simp add: class_names)
  ultimately show ?thesis by simp
qed

end
