(* ===== verification/Database.thy ===== *)
theory Database
  imports Json
begin

text \<open>
  The Postgres tables the Go code reads and writes, as the statements in the source see them:
  one record per table row, a table as a list of rows in insertion order, and the four table
  operations the statements are built from (\<open>select_where\<close>, \<open>update_where\<close>,
  \<open>delete_where\<close> and appending a row). \<open>now()\<close> is the start time of the transaction and is
  an argument of every operation. What Postgres itself computes is a parameter of the record
  \<open>pg\<close>: \<open>uuidv7\<close> numbers the generated identifiers and \<open>jsonb\<close> is the cast of JSON text
  to the stored form, \<open>None\<close> where the cast raises. Where a query leaves the order of rows
  open (no \<open>ORDER BY\<close>, or equal keys), the model uses the table's order.
\<close>

datatype status = StatusPending | StatusDone | StatusFailed | StatusIndeterminate | StatusRejected

definition terminal :: "status \<Rightarrow> bool" where
  "terminal s \<longleftrightarrow> s \<noteq> StatusPending"

fun status_text :: "status \<Rightarrow> string" where
  "status_text StatusPending = ''pending''"
| "status_text StatusDone = ''done''"
| "status_text StatusFailed = ''failed''"
| "status_text StatusIndeterminate = ''indeterminate''"
| "status_text StatusRejected = ''rejected''"

datatype resolution = ResolutionSerialized | ResolutionRejected | ResolutionObserved

fun resolution_text :: "resolution \<Rightarrow> string" where
  "resolution_text ResolutionSerialized = ''serialized''"
| "resolution_text ResolutionRejected = ''rejected''"
| "resolution_text ResolutionObserved = ''observed''"

record key_row =
  k_agent_id :: string
  k_idempotency_key :: string
  k_request_hash :: string
  k_status :: status
  k_resource_type :: string
  k_resource_id :: string
  k_operation :: string
  k_result :: "bytes option"
  k_result_ref :: "string option"
  k_outcome_detail :: "string option"
  k_attempt_count :: int
  k_created_at :: time
  k_claimed_at :: time
  k_completed_at :: "time option"

record intent_row =
  w_intent_id :: string
  w_agent_id :: string
  w_idempotency_key :: string
  w_resource_type :: string
  w_resource_id :: string
  w_operation :: string
  w_operation_class :: string
  w_scope_selector :: "string slice"
  w_payload :: bytes
  w_emitted_at :: time
  w_published_at :: "time option"
  w_voided_at :: "time option"

record conflict_row =
  c_conflict_id :: string
  c_intent_id_a :: string
  c_intent_id_b :: string
  c_agent_id_a :: string
  c_agent_id_b :: string
  c_resource_type :: string
  c_resource_id :: string
  c_reason :: string
  c_resolution :: resolution
  c_manifest_version :: "string option"
  c_detected_at :: time

record activation_row =
  a_manifest_version :: string
  a_principal :: string
  a_resource_types :: "string list"
  a_activated_at :: time

record audit_row =
  au_audit_id :: string
  au_principal :: string
  au_caller_role :: string
  au_endpoint :: string
  au_query_params :: bytes
  au_record_count :: int
  au_intent_ids :: "string slice"
  au_stated_reason :: "string option"
  au_accessed_at :: time

record db =
  idempotency_keys :: "key_row list"
  write_intents :: "intent_row list"
  conflicts :: "conflict_row list"
  manifest_activations :: "activation_row list"
  payload_access_audit :: "audit_row list"
  uuids_used :: nat

record pg =
  uuidv7 :: "nat \<Rightarrow> string"
  jsonb :: "bytes \<Rightarrow> bytes option"

definition empty_db :: db where
  "empty_db = \<lparr>idempotency_keys = [], write_intents = [], conflicts = [],
               manifest_activations = [], payload_access_audit = [], uuids_used = 0\<rparr>"

section \<open>Table operations\<close>

definition update_where :: "('r \<Rightarrow> bool) \<Rightarrow> ('r \<Rightarrow> 'r) \<Rightarrow> 'r list \<Rightarrow> 'r list" where
  "update_where p f rows = map (\<lambda>r. if p r then f r else r) rows"

definition delete_where :: "('r \<Rightarrow> bool) \<Rightarrow> 'r list \<Rightarrow> 'r list" where
  "delete_where p rows = filter (\<lambda>r. \<not> p r) rows"

lemma update_where_Nil [simp]: "update_where p f [] = []"
  by (simp add: update_where_def)

lemma update_where_Cons [simp]:
  "update_where p f (r # rs) = (if p r then f r else r) # update_where p f rs"
  by (simp add: update_where_def)

lemma update_where_append [simp]:
  "update_where p f (xs @ ys) = update_where p f xs @ update_where p f ys"
  by (simp add: update_where_def)

lemma length_update_where [simp]: "length (update_where p f rows) = length rows"
  by (simp add: update_where_def)

lemma update_where_none [simp]: "\<forall>r \<in> set rows. \<not> p r \<Longrightarrow> update_where p f rows = rows"
  by (induction rows) auto

lemma set_update_where:
  "set (update_where p f rows) = f ` {r \<in> set rows. p r} \<union> {r \<in> set rows. \<not> p r}"
  by (induction rows) auto

lemma map_update_where: "(\<And>r. g (f r) = g r) \<Longrightarrow> map g (update_where p f rows) = map g rows"
  by (induction rows) auto

lemma find_update_where:
  assumes "\<And>r. q (f r) = q r"
  shows "List.find q (update_where p f rows) =
    map_option (\<lambda>r. if p r then f r else r) (List.find q rows)"
  using assms by (induction rows) auto

lemma filter_update_where_out:
  assumes "\<And>r. \<not> q (f r)"
  shows "filter q (update_where p f rows) = filter (\<lambda>r. \<not> p r) (filter q rows)"
  using assms by (induction rows) auto

section \<open>Key rows by primary key\<close>

definition key_is :: "string \<Rightarrow> string \<Rightarrow> key_row \<Rightarrow> bool" where
  "key_is agent key r \<longleftrightarrow> k_agent_id r = agent \<and> k_idempotency_key r = key"

definition key_row_of :: "db \<Rightarrow> string \<Rightarrow> string \<Rightarrow> key_row option" where
  "key_row_of d agent key = List.find (key_is agent key) (idempotency_keys d)"

definition status_of :: "db \<Rightarrow> string \<Rightarrow> string \<Rightarrow> status option" where
  "status_of d agent key = map_option k_status (key_row_of d agent key)"

definition pk :: "key_row \<Rightarrow> string \<times> string" where
  "pk r = (k_agent_id r, k_idempotency_key r)"

lemma key_is_pk: "key_is a k r \<longleftrightarrow> pk r = (a, k)"
  by (auto simp: key_is_def pk_def)

text \<open>
  The two table constraints of the schema, and the invariant every committed state has:
  the primary key is unique, every row satisfies the constraints, and the generated identifiers
  are those handed out so far.
\<close>

definition checks :: "key_row \<Rightarrow> bool" where
  "checks r \<longleftrightarrow>
     (k_result r = None \<or> k_result_ref r = None) \<and>
     (k_status r = StatusPending \<or> k_completed_at r \<noteq> None)"

definition live :: "intent_row \<Rightarrow> bool" where
  "live w \<longleftrightarrow> w_voided_at w = None"

definition live_of :: "db \<Rightarrow> string \<Rightarrow> string \<Rightarrow> intent_row list" where
  "live_of d agent key =
     filter (\<lambda>w. live w \<and> w_agent_id w = agent \<and> w_idempotency_key w = key) (write_intents d)"

definition wf_db :: "pg \<Rightarrow> db \<Rightarrow> bool" where
  "wf_db pgs d \<longleftrightarrow>
     distinct (map pk (idempotency_keys d)) \<and>
     (\<forall>r \<in> set (idempotency_keys d). checks r \<and> 1 \<le> k_attempt_count r) \<and>
     distinct (map w_intent_id (write_intents d)) \<and>
     (\<forall>w \<in> set (write_intents d). \<exists>n < uuids_used d. w_intent_id w = uuidv7 pgs n)"

text \<open>
  How the intent log agrees with the keys: a key has at most one live intent, and none once the
  write it records provably did not happen.
\<close>

definition intents_agree :: "db \<Rightarrow> bool" where
  "intents_agree d \<longleftrightarrow>
     (\<forall>agent key. length (live_of d agent key) \<le> 1 \<and>
        (status_of d agent key \<in> {None, Some StatusFailed, Some StatusRejected} \<longrightarrow>
           live_of d agent key = []))"

lemma wf_empty_db: "wf_db pgs empty_db" "intents_agree empty_db"
  by (simp_all add: wf_db_def intents_agree_def empty_db_def live_of_def)

lemma key_row_of_Some:
  "key_row_of d a k = Some r \<Longrightarrow> r \<in> set (idempotency_keys d) \<and> k_agent_id r = a \<and> k_idempotency_key r = k"
  by (auto simp: key_row_of_def key_is_def dest: find_Some_in)

lemma key_row_of_unique:
  assumes "distinct (map pk (idempotency_keys d))" and "r \<in> set (idempotency_keys d)"
  shows "key_row_of d (k_agent_id r) (k_idempotency_key r) = Some r"
  using find_distinct [OF assms, of "pk r"]
  unfolding key_row_of_def key_is_pk by (simp add: pk_def key_is_def)

lemma key_row_of_None:
  "key_row_of d a k = None \<longleftrightarrow> (a, k) \<notin> pk ` set (idempotency_keys d)"
  by (force simp: key_row_of_def find_None_all key_is_pk)

end
