(* ===== verification/Claim.thy ===== *)
theory Claim
  imports Conflict Database
begin

text \<open>
  The claim transaction and the completion of a key (\<open>internal/claim/claim.go\<close> and
  \<open>resolve.go\<close>). A transaction is a function from the database to a result and the database
  after it: an error and every path that does not reach \<open>Commit\<close> roll back. Whatever can fail
  outside the program is in the record \<open>faults\<close>: \<open>Begin\<close>, the wait for the advisory lock,
  each statement, and the commit, which may fail, or take effect without the caller seeing it.
  The advisory lock is held from the first statement to the end of the transaction, so claims on
  one resource run one after another; claims of one key on two resources meet at the unique
  index, where the later insert waits for the earlier transaction. A claim is therefore one
  atomic step of the model.
\<close>

section \<open>Data\<close>

datatype verdict =
    VerdictClaimed | VerdictExisting | VerdictMismatch | VerdictRejected | VerdictSerialize
  | VerdictLockTimeout | VerdictSerializeTimeout

record request =
  req_AgentID :: string
  req_Key :: string
  req_RequestHash :: string
  req_ResourceType :: string
  req_ResourceID :: string
  req_Operation :: string
  req_Declared :: operation
  req_Payload :: bytes
  req_Window :: duration
  req_Enforce :: bool
  req_ManifestVersion :: string
  req_LockTimeout :: duration

record key_record =
  rec_AgentID :: string
  rec_Key :: string
  rec_RequestHash :: string
  rec_Status :: status
  rec_Result :: bytes
  rec_ResultRef :: string
  rec_OutcomeDetail :: string
  rec_AttemptCount :: int

record blocking =
  blk_AgentID :: string
  blk_Key :: string

record claim_result =
  res_Verdict :: verdict
  res_Record :: key_record
  res_IntentID :: string
  res_Collided :: bool
  res_LockWait :: duration
  res_Blocking :: blocking
  res_Observed :: int

definition zero_record :: key_record where
  "zero_record = \<lparr>rec_AgentID = [], rec_Key = [], rec_RequestHash = [], rec_Status = StatusPending,
     rec_Result = [], rec_ResultRef = [], rec_OutcomeDetail = [], rec_AttemptCount = 0\<rparr>"

definition result_of :: "verdict \<Rightarrow> key_record \<Rightarrow> bool \<Rightarrow> claim_result" where
  "result_of v r collided = \<lparr>res_Verdict = v, res_Record = r, res_IntentID = [],
     res_Collided = collided, res_LockWait = 0, res_Blocking = \<lparr>blk_AgentID = [], blk_Key = []\<rparr>,
     res_Observed = 0\<rparr>"

record candidate =
  i_id :: string
  i_agentID :: string
  i_key :: string
  i_declared :: operation

section \<open>Faults\<close>

datatype stmt =
    InsertKey | SelectKey | ReclaimKey | InsertIntent | SelectWindow | SelectStatuses
  | InsertConflict | RejectKey | VoidIntent | CompleteKey | VoidLatestIntent

datatype lock_outcome = Locked | LockNotAvailable | LockFailed

datatype commit_outcome = Committed | CommitFailed | CommitUnseen

record faults =
  f_begin :: bool
  f_lock :: lock_outcome
  f_lock_wait :: duration
  f_stmt :: "stmt \<Rightarrow> bool"
  f_commit :: commit_outcome

definition no_faults :: faults where
  "no_faults = \<lparr>f_begin = False, f_lock = Locked, f_lock_wait = 0, f_stmt = (\<lambda>_. False),
                f_commit = Committed\<rparr>"

datatype claim_error = BeginFailed | LockError | StmtFailed stmt | NoRows | CommitError

definition run_stmt :: "faults \<Rightarrow> stmt \<Rightarrow> (claim_error + 'a) \<Rightarrow> claim_error + 'a" where
  "run_stmt f s x = (if f_stmt f s then Inl (StmtFailed s) else x)"

definition and_then :: "(claim_error + 'a) \<Rightarrow> ('a \<Rightarrow> claim_error + 'b) \<Rightarrow> claim_error + 'b" where
  "and_then x g = (case x of Inl e \<Rightarrow> Inl e | Inr a \<Rightarrow> g a)"

lemma and_then_Inr: "and_then x g = Inr b \<longleftrightarrow> (\<exists>a. x = Inr a \<and> g a = Inr b)"
  by (auto simp: and_then_def split: sum.splits)

lemma run_stmt_Inr: "run_stmt f s x = Inr b \<longleftrightarrow> \<not> f_stmt f s \<and> x = Inr b"
  by (simp add: run_stmt_def)

lemmas tx_simps = and_then_Inr run_stmt_Inr

section \<open>Claiming a key\<close>

definition insertClaim :: "faults \<Rightarrow> time \<Rightarrow> request \<Rightarrow> db \<Rightarrow> claim_error + bool \<times> db" where
  "insertClaim f now req d =
     run_stmt f InsertKey
      (if key_row_of d (req_AgentID req) (req_Key req) \<noteq> None then Inr (False, d)
       else Inr (True, d\<lparr>idempotency_keys := idempotency_keys d @
         [\<lparr>k_agent_id = req_AgentID req, k_idempotency_key = req_Key req,
           k_request_hash = req_RequestHash req, k_status = StatusPending,
           k_resource_type = req_ResourceType req, k_resource_id = req_ResourceID req,
           k_operation = req_Operation req, k_result = None, k_result_ref = None,
           k_outcome_detail = None, k_attempt_count = 1, k_created_at = now, k_claimed_at = now,
           k_completed_at = None\<rparr>]\<rparr>))"

definition record_of_row :: "key_row \<Rightarrow> key_record" where
  "record_of_row r =
     \<lparr>rec_AgentID = k_agent_id r, rec_Key = k_idempotency_key r, rec_RequestHash = k_request_hash r,
      rec_Status = k_status r, rec_Result = coalesce (k_result r),
      rec_ResultRef = coalesce (k_result_ref r), rec_OutcomeDetail = coalesce (k_outcome_detail r),
      rec_AttemptCount = k_attempt_count r\<rparr>"

definition readRecord :: "faults \<Rightarrow> db \<Rightarrow> string \<Rightarrow> string \<Rightarrow> claim_error + key_record" where
  "readRecord f d agentID key =
     run_stmt f SelectKey
      (case key_row_of d agentID key of
         None \<Rightarrow> Inl NoRows
       | Some r \<Rightarrow> Inr (record_of_row r))"

definition Lookup :: "faults \<Rightarrow> db \<Rightarrow> string \<Rightarrow> string \<Rightarrow> claim_error + key_record option" where
  "Lookup f d agentID key =
     (case readRecord f d agentID key of
        Inl NoRows \<Rightarrow> Inr None
      | Inl e \<Rightarrow> Inl e
      | Inr r \<Rightarrow> Inr (Some r))"

text \<open>The columns \<open>reclaimKey\<close> sets on a row.\<close>

definition reclaimed :: "time \<Rightarrow> key_row \<Rightarrow> key_row" where
  "reclaimed now r = r\<lparr>k_status := StatusPending, k_claimed_at := now, k_completed_at := None,
     k_attempt_count := k_attempt_count r + 1, k_result := None, k_result_ref := None,
     k_outcome_detail := None\<rparr>"

definition reclaim :: "faults \<Rightarrow> time \<Rightarrow> request \<Rightarrow> db \<Rightarrow> claim_error + int option \<times> db" where
  "reclaim f now req d =
     run_stmt f ReclaimKey
      (let p = (\<lambda>r. key_is (req_AgentID req) (req_Key req) r \<and> k_status r = StatusFailed) in
       case List.find p (idempotency_keys d) of
         None \<Rightarrow> Inr (None, d)
       | Some r \<Rightarrow> Inr (Some (k_attempt_count r + 1),
           d\<lparr>idempotency_keys := update_where p (reclaimed now) (idempotency_keys d)\<rparr>))"

definition claimKey :: "faults \<Rightarrow> time \<Rightarrow> request \<Rightarrow> db \<Rightarrow> claim_error + claim_result \<times> bool \<times> db" where
  "claimKey f now req d =
     and_then (insertClaim f now req d) (\<lambda>(won, d1).
       if won then
         Inr (result_of VerdictClaimed
                (zero_record\<lparr>rec_AgentID := req_AgentID req, rec_Key := req_Key req,
                   rec_RequestHash := req_RequestHash req, rec_Status := StatusPending,
                   rec_AttemptCount := 1\<rparr>) False, True, d1)
       else
         and_then (readRecord f d1 (req_AgentID req) (req_Key req)) (\<lambda>existing.
           if rec_RequestHash existing \<noteq> req_RequestHash req
           then Inr (result_of VerdictMismatch existing True, False, d1)
           else if rec_Status existing \<noteq> StatusFailed
           then Inr (result_of VerdictExisting existing True, False, d1)
           else
             and_then (reclaim f now req d1) (\<lambda>(attempt, d2).
               let existing' = existing\<lparr>rec_Status := StatusPending\<rparr> in
               case attempt of
                 None \<Rightarrow> Inr (result_of VerdictExisting existing' True, False, d2)
               | Some n \<Rightarrow>
                   Inr (result_of VerdictClaimed
                          (existing'\<lparr>rec_AttemptCount := n, rec_Result := [],
                             rec_OutcomeDetail := []\<rparr>) True, True, d2))))"

definition fresh_uuid :: "pg \<Rightarrow> db \<Rightarrow> string \<times> db" where
  "fresh_uuid pgs d = (uuidv7 pgs (uuids_used d), d\<lparr>uuids_used := Suc (uuids_used d)\<rparr>)"

text \<open>
  The insert casts the class to the enum \<open>operation_class\<close> and the payload to \<open>jsonb\<close>; either
  cast can raise.
\<close>

definition recordIntent ::
  "faults \<Rightarrow> pg \<Rightarrow> time \<Rightarrow> request \<Rightarrow> db \<Rightarrow> claim_error + string \<times> time \<times> db" where
  "recordIntent f pgs now req d =
     run_stmt f InsertIntent
      (if op_Class (req_Declared req) \<notin> set classes then Inl (StmtFailed InsertIntent)
       else case jsonb pgs (req_Payload req) of
         None \<Rightarrow> Inl (StmtFailed InsertIntent)
       | Some payload \<Rightarrow>
           (let (intentID, d1) = fresh_uuid pgs d in
            Inr (intentID, now, d1\<lparr>write_intents := write_intents d1 @
              [\<lparr>w_intent_id = intentID, w_agent_id = req_AgentID req,
                w_idempotency_key = req_Key req, w_resource_type = req_ResourceType req,
                w_resource_id = req_ResourceID req, w_operation = req_Operation req,
                w_operation_class = op_Class (req_Declared req),
                w_scope_selector = op_Scope (req_Declared req), w_payload = payload,
                w_emitted_at = now, w_published_at = None, w_voided_at = None\<rparr>]\<rparr>)))"

section \<open>Conflict detection\<close>

definition in_window :: "time \<Rightarrow> request \<Rightarrow> string \<Rightarrow> intent_row \<Rightarrow> bool" where
  "in_window now req exclude w \<longleftrightarrow>
     w_resource_type w = req_ResourceType req \<and> w_resource_id w = req_ResourceID req \<and>
     w_emitted_at w > now - req_Window req \<and> w_voided_at w = None \<and> w_intent_id w \<noteq> exclude"

definition candidate_of :: "intent_row \<Rightarrow> candidate" where
  "candidate_of w = \<lparr>i_id = w_intent_id w, i_agentID = w_agent_id w, i_key = w_idempotency_key w,
     i_declared = \<lparr>op_Class = w_operation_class w, op_Scope = w_scope_selector w\<rparr>\<rparr>"

definition conflictingIntents ::
  "faults \<Rightarrow> time \<Rightarrow> request \<Rightarrow> string \<Rightarrow> db \<Rightarrow> claim_error + candidate list" where
  "conflictingIntents f now req exclude d =
     run_stmt f SelectWindow
      (Inr (filter (\<lambda>c. \<not> Compatible (req_Declared req) (i_declared c))
             (map candidate_of
               (sort_key (\<lambda>w. - w_emitted_at w)
                 (filter (in_window now req exclude) (write_intents d))))))"

definition maxRecordedConflicts :: nat where
  "maxRecordedConflicts = 10"

fun insert_conflicts ::
  "faults \<Rightarrow> pg \<Rightarrow> time \<Rightarrow> request \<Rightarrow> string \<Rightarrow> resolution \<Rightarrow> candidate list \<Rightarrow> string \<Rightarrow> db
   \<Rightarrow> claim_error + string \<times> db" where
  "insert_conflicts f pgs now req intentID resn [] primary d = Inr (primary, d)"
| "insert_conflicts f pgs now req intentID resn (c # cs) primary d =
     run_stmt f InsertConflict
      (let (conflictID, d1) = fresh_uuid pgs d;
           d2 = d1\<lparr>conflicts := conflicts d1 @
             [\<lparr>c_conflict_id = conflictID, c_intent_id_a = intentID, c_intent_id_b = i_id c,
               c_agent_id_a = req_AgentID req, c_agent_id_b = i_agentID c,
               c_resource_type = req_ResourceType req, c_resource_id = req_ResourceID req,
               c_reason = Reason (req_Declared req) (i_declared c), c_resolution = resn,
               c_manifest_version = Some (req_ManifestVersion req), c_detected_at = now\<rparr>]\<rparr>
       in insert_conflicts f pgs now req intentID resn cs
            (if primary = [] then conflictID else primary) d2)"

definition recordConflicts ::
  "faults \<Rightarrow> pg \<Rightarrow> time \<Rightarrow> request \<Rightarrow> string \<Rightarrow> candidate list \<Rightarrow> resolution \<Rightarrow> db
   \<Rightarrow> claim_error + string \<times> db" where
  "recordConflicts f pgs now req intentID candidates resn d =
     insert_conflicts f pgs now req intentID resn (take maxRecordedConflicts candidates) [] d"

definition firstPending :: "faults \<Rightarrow> string \<Rightarrow> candidate list \<Rightarrow> db \<Rightarrow> claim_error + string" where
  "firstPending f agentID candidates d =
     run_stmt f SelectStatuses
      (let keys = map i_key candidates;
           rows = filter (\<lambda>r. k_agent_id r = agentID \<and> k_idempotency_key r \<in> set keys)
                    (idempotency_keys d)
       in Inr (foldl (\<lambda>pending r. if \<not> terminal (k_status r) \<and> pending = []
                                  then k_idempotency_key r else pending) [] rows))"

text \<open>The fields of \<open>Result\<close> that \<open>resolveConflicts\<close> fills in.\<close>

record outcome =
  o_Verdict :: verdict
  o_Observed :: int
  o_Blocking :: blocking
  o_Result :: bytes
  o_OutcomeDetail :: string

definition plain_outcome :: "verdict \<Rightarrow> outcome" where
  "plain_outcome v = \<lparr>o_Verdict = v, o_Observed = 0,
     o_Blocking = \<lparr>blk_AgentID = [], blk_Key = []\<rparr>, o_Result = [], o_OutcomeDetail = []\<rparr>"

definition rejection_detail :: "request \<Rightarrow> candidate \<Rightarrow> string" where
  "rejection_detail req primary =
     Reason (req_Declared req) (i_declared primary) @ '' on '' @ req_ResourceType req @ '':'' @
     req_ResourceID req"

definition rejection_body :: "request \<Rightarrow> string \<Rightarrow> candidate \<Rightarrow> string \<Rightarrow> json" where
  "rejection_body req detail primary conflictID =
     JObject [(''idempotency_key'', JString (req_Key req)),
              (''status'', JString (status_text StatusRejected)),
              (''reason'', JString ''conflicting_write''),
              (''detail'', JString detail),
              (''conflicting_intent_id'', JString (i_id primary)),
              (''conflict_id'', JString conflictID)]"

definition rejected_row :: "time \<Rightarrow> bytes \<Rightarrow> string \<Rightarrow> key_row \<Rightarrow> key_row" where
  "rejected_row now stored detail r = r\<lparr>k_status := StatusRejected, k_completed_at := Some now,
     k_result := Some stored, k_outcome_detail := Some detail\<rparr>"

definition reject ::
  "faults \<Rightarrow> pg \<Rightarrow> time \<Rightarrow> request \<Rightarrow> string \<Rightarrow> time \<Rightarrow> candidate list \<Rightarrow> candidate list \<Rightarrow> db
   \<Rightarrow> claim_error + outcome \<times> db" where
  "reject f pgs now req intentID emittedAt others all d =
     and_then (recordConflicts f pgs now req intentID all ResolutionRejected d)
       (\<lambda>(conflictID, d1).
         let primary = hd others;
             detail = rejection_detail req primary;
             mine = key_is (req_AgentID req) (req_Key req)
         in case jsonb pgs (marshal (rejection_body req detail primary conflictID)) of
              None \<Rightarrow> Inl (StmtFailed RejectKey)
            | Some stored \<Rightarrow>
                and_then
                 (run_stmt f RejectKey
                   (case List.find mine (idempotency_keys d1) of
                      None \<Rightarrow> Inl NoRows
                    | Some r \<Rightarrow>
                        (if checks (rejected_row now stored detail r)
                         then Inr (d1\<lparr>idempotency_keys :=
                                update_where mine (rejected_row now stored detail)
                                  (idempotency_keys d1)\<rparr>)
                         else Inl (StmtFailed RejectKey))))
                 (\<lambda>d2. run_stmt f VoidIntent
                   (Inr ((plain_outcome VerdictRejected)\<lparr>o_Result := stored, o_OutcomeDetail := detail\<rparr>,
                     d2\<lparr>write_intents := update_where
                          (\<lambda>w. w_intent_id w = intentID \<and> w_emitted_at w = emittedAt)
                          (\<lambda>w. w\<lparr>w_voided_at := Some now\<rparr>) (write_intents d2)\<rparr>))))"

definition resolveConflicts ::
  "faults \<Rightarrow> pg \<Rightarrow> time \<Rightarrow> request \<Rightarrow> string \<Rightarrow> time \<Rightarrow> db \<Rightarrow> claim_error + outcome \<times> db" where
  "resolveConflicts f pgs now req intentID emittedAt d =
     and_then (conflictingIntents f now req intentID d) (\<lambda>candidates.
       if length candidates = 0 then Inr (plain_outcome VerdictClaimed, d)
       else if \<not> req_Enforce req then
         and_then (recordConflicts f pgs now req intentID candidates ResolutionObserved d)
           (\<lambda>(_, d1). Inr ((plain_outcome VerdictClaimed)\<lparr>o_Observed := int (length candidates)\<rparr>, d1))
       else
         let same = filter (\<lambda>c. i_agentID c = req_AgentID req) candidates;
             others = filter (\<lambda>c. i_agentID c \<noteq> req_AgentID req) candidates
         in if length others > 0 then reject f pgs now req intentID emittedAt others candidates d
            else and_then (firstPending f (req_AgentID req) same d) (\<lambda>key.
              if key \<noteq> [] then
                Inr ((plain_outcome VerdictSerialize)
                       \<lparr>o_Blocking := \<lparr>blk_AgentID = req_AgentID req, blk_Key = key\<rparr>\<rparr>, d)
              else
                and_then (recordConflicts f pgs now req intentID same ResolutionSerialized d)
                  (\<lambda>(_, d1). Inr (plain_outcome VerdictClaimed, d1))))"

section \<open>The claim transaction\<close>

definition with_outcome :: "claim_result \<Rightarrow> string \<Rightarrow> outcome \<Rightarrow> claim_result" where
  "with_outcome result intentID out =
     (let r = result\<lparr>res_IntentID := intentID, res_Verdict := o_Verdict out,
                     res_Observed := o_Observed out, res_Blocking := o_Blocking out\<rparr>
      in if o_Verdict out = VerdictRejected
         then r\<lparr>res_Record := (res_Record r)\<lparr>rec_Status := StatusRejected,
                  rec_Result := o_Result out, rec_OutcomeDetail := o_OutcomeDetail out\<rparr>\<rparr>
         else r)"

definition Claim ::
  "faults \<Rightarrow> pg \<Rightarrow> time \<Rightarrow> request \<Rightarrow> db \<Rightarrow> (claim_error + claim_result) \<times> db" where
  "Claim f pgs now req d =
     (if f_begin f then (Inl BeginFailed, d)
      else case f_lock f of
        LockNotAvailable \<Rightarrow>
          (Inr ((result_of VerdictLockTimeout zero_record False)\<lparr>res_LockWait := f_lock_wait f\<rparr>), d)
      | LockFailed \<Rightarrow> (Inl LockError, d)
      | Locked \<Rightarrow>
          (case claimKey f now req d of
             Inl e \<Rightarrow> (Inl e, d)
           | Inr (result0, fresh, d1) \<Rightarrow>
               (let result = result0\<lparr>res_LockWait := f_lock_wait f\<rparr> in
                if \<not> fresh then (Inr result, d)
                else case recordIntent f pgs now req d1 of
                  Inl e \<Rightarrow> (Inl e, d)
                | Inr (intentID, emittedAt, d2) \<Rightarrow>
                    (case resolveConflicts f pgs now req intentID emittedAt d2 of
                       Inl e \<Rightarrow> (Inl e, d)
                     | Inr (out, d3) \<Rightarrow>
                         (let result' = with_outcome result intentID out in
                          if o_Verdict out = VerdictSerialize then (Inr result', d)
                          else case f_commit f of
                            Committed \<Rightarrow> (Inr result', d3)
                          | CommitFailed \<Rightarrow> (Inl CommitError, d)
                          | CommitUnseen \<Rightarrow> (Inl CommitError, d3))))))"

section \<open>Completing a key\<close>

definition completed_row ::
  "time \<Rightarrow> status \<Rightarrow> bytes option \<Rightarrow> string option \<Rightarrow> string option \<Rightarrow> key_row \<Rightarrow> key_row" where
  "completed_row now status result ref detail r = r\<lparr>k_status := status, k_result := result,
     k_result_ref := ref, k_outcome_detail := detail, k_completed_at := Some now\<rparr>"

definition nonempty :: "string \<Rightarrow> string option" where
  "nonempty s = (if s \<noteq> [] then Some s else None)"

text \<open>The row \<open>voidLatestIntent\<close> picks: the live intent of the key with the latest emission.\<close>

definition latest_live :: "db \<Rightarrow> string \<Rightarrow> string \<Rightarrow> intent_row option" where
  "latest_live d agentID key =
     (case sort_key (\<lambda>w. - w_emitted_at w)
             (filter (\<lambda>w. w_agent_id w = agentID \<and> w_idempotency_key w = key \<and> w_voided_at w = None)
               (write_intents d)) of
        [] \<Rightarrow> None
      | w # _ \<Rightarrow> Some w)"

definition void_latest :: "time \<Rightarrow> string \<Rightarrow> string \<Rightarrow> db \<Rightarrow> db" where
  "void_latest now agentID key d =
     (case latest_live d agentID key of
        None \<Rightarrow> d
      | Some l \<Rightarrow> d\<lparr>write_intents := update_where
          (\<lambda>w. w_intent_id w = w_intent_id l \<and> w_emitted_at w = w_emitted_at l)
          (\<lambda>w. w\<lparr>w_voided_at := Some now\<rparr>) (write_intents d)\<rparr>)"

definition Complete ::
  "faults \<Rightarrow> pg \<Rightarrow> time \<Rightarrow> string \<Rightarrow> string \<Rightarrow> status \<Rightarrow> bytes \<Rightarrow> string \<Rightarrow> string \<Rightarrow> db
   \<Rightarrow> (claim_error + bool) \<times> db" where
  "Complete f pgs now agentID key status result resultRef detail d =
     (let storedResult = nonempty result; storedRef = nonempty resultRef;
          storedDetail = nonempty detail;
          p = (\<lambda>r. key_is agentID key r \<and> k_status r = StatusPending)
      in if f_begin f then (Inl BeginFailed, d)
         else if f_stmt f CompleteKey \<or> (storedResult \<noteq> None \<and> jsonb pgs result = None)
         then (Inl (StmtFailed CompleteKey), d)
         else
           (let stored = (if storedResult = None then None else jsonb pgs result);
                f' = completed_row now status stored storedRef storedDetail
            in if length (filter p (idempotency_keys d)) \<noteq> 1 then (Inr False, d)
               else if \<not> list_all (\<lambda>r. p r \<longrightarrow> checks (f' r)) (idempotency_keys d)
               then (Inl (StmtFailed CompleteKey), d)
               else
                 (let d1 = d\<lparr>idempotency_keys := update_where p f' (idempotency_keys d)\<rparr> in
                  if status = StatusFailed \<and> f_stmt f VoidLatestIntent
                  then (Inl (StmtFailed VoidLatestIntent), d)
                  else
                    (let d2 = (if status = StatusFailed then void_latest now agentID key d1 else d1) in
                     case f_commit f of
                       Committed \<Rightarrow> (Inr True, d2)
                     | CommitFailed \<Rightarrow> (Inl CommitError, d)
                     | CommitUnseen \<Rightarrow> (Inl CommitError, d2)))))"

end
