(* ===== verification/Claim_Laws.thy ===== *)
theory Claim_Laws
  imports Claim
begin

text \<open>
  The lemma library of the claim transaction: what each statement leaves unchanged, what a
  committed claim or completion does to the row of its key, and that both keep the invariants
  \<open>wf_db\<close> and \<open>intents_agree\<close> of the tables. The components that use the claim path rest on the
  facts of this theory, never on the definitions themselves.
\<close>

section \<open>Rows under updates\<close>

lemma key_row_of_update_where:
  assumes "\<And>r. pk (g r) = pk r"
  shows "key_row_of (d\<lparr>idempotency_keys := update_where p g (idempotency_keys d)\<rparr>) a k =
    map_option (\<lambda>r. if p r then g r else r) (key_row_of d a k)"
  unfolding key_row_of_def using assms by (simp add: find_update_where key_is_pk)

lemma key_row_of_append:
  "key_row_of (d\<lparr>idempotency_keys := idempotency_keys d @ [row]\<rparr>) a k =
     (case key_row_of d a k of
        Some r \<Rightarrow> Some r | None \<Rightarrow> if pk row = (a, k) then Some row else None)"
  unfolding key_row_of_def by (auto simp: find_append key_is_pk split: option.splits)

lemma key_row_of_cong: "idempotency_keys d = idempotency_keys d' \<Longrightarrow> key_row_of d a k = key_row_of d' a k"
  by (simp add: key_row_of_def)

lemma pk_reclaimed [simp]: "pk (reclaimed now r) = pk r"
  by (simp add: reclaimed_def pk_def)

lemma pk_rejected [simp]: "pk (rejected_row now stored detail r) = pk r"
  by (simp add: rejected_row_def pk_def)

lemma pk_completed [simp]: "pk (completed_row now st res ref detail r) = pk r"
  by (simp add: completed_row_def pk_def)

lemma live_of_cong: "write_intents d = write_intents d' \<Longrightarrow> live_of d a k = live_of d' a k"
  by (simp add: live_of_def)

section \<open>Recording conflicts\<close>

text \<open>A row that records the incoming intent of a request against another one.\<close>

definition incoming_pair :: "request \<Rightarrow> string \<Rightarrow> resolution \<Rightarrow> conflict_row \<Rightarrow> bool" where
  "incoming_pair req intentID resn r \<longleftrightarrow>
     c_intent_id_a r = intentID \<and> c_agent_id_a r = req_AgentID req \<and> c_resolution r = resn \<and>
     c_manifest_version r = Some (req_ManifestVersion req) \<and>
     c_resource_type r = req_ResourceType req \<and> c_resource_id r = req_ResourceID req"

lemma insert_conflicts_frame:
  assumes "insert_conflicts f pgs now req intentID resn cs primary d = Inr (p, d')"
  shows "idempotency_keys d' = idempotency_keys d \<and> write_intents d' = write_intents d \<and>
    manifest_activations d' = manifest_activations d \<and>
    uuids_used d' = uuids_used d + length cs \<and>
    (\<exists>rows. conflicts d' = conflicts d @ rows \<and> map c_intent_id_b rows = map i_id cs \<and>
       map c_agent_id_b rows = map i_agentID cs \<and> list_all (incoming_pair req intentID resn) rows)"
  using assms
proof (induction cs arbitrary: primary d)
  case Nil
  then show ?case by simp
next
  case (Cons c cs)
  let ?row = "\<lparr>c_conflict_id = uuidv7 pgs (uuids_used d), c_intent_id_a = intentID, c_intent_id_b = i_id c,
               c_agent_id_a = req_AgentID req, c_agent_id_b = i_agentID c,
               c_resource_type = req_ResourceType req, c_resource_id = req_ResourceID req,
               c_reason = Reason (req_Declared req) (i_declared c), c_resolution = resn,
               c_manifest_version = Some (req_ManifestVersion req), c_detected_at = now\<rparr>"
  let ?d1 = "d\<lparr>uuids_used := Suc (uuids_used d), conflicts := conflicts d @ [?row]\<rparr>"
  let ?primary = "if primary = [] then uuidv7 pgs (uuids_used d) else primary"
  have "insert_conflicts f pgs now req intentID resn cs ?primary ?d1 = Inr (p, d')"
    using Cons.prems by (simp add: run_stmt_Inr Let_def fresh_uuid_def)
  from Cons.IH [OF this] obtain rows where
    ih: "idempotency_keys d' = idempotency_keys d" "write_intents d' = write_intents d"
      "manifest_activations d' = manifest_activations d" "uuids_used d' = uuids_used d + length (c # cs)"
      "conflicts d' = conflicts d @ ?row # rows" "map c_intent_id_b rows = map i_id cs"
      "map c_agent_id_b rows = map i_agentID cs" "list_all (incoming_pair req intentID resn) rows"
    by auto
  moreover have "incoming_pair req intentID resn ?row" by (simp add: incoming_pair_def)
  ultimately show ?case
    by (intro conjI exI [of _ "?row # rows"]) simp_all
qed

lemmas recordConflicts_frame =
  insert_conflicts_frame [where cs = "take maxRecordedConflicts cs" and primary = "[]" for cs,
    folded recordConflicts_def]

lemma recordConflicts_keys:
  assumes "recordConflicts f pgs now req intentID cs resn d = Inr (p, d')"
  shows "idempotency_keys d' = idempotency_keys d" "write_intents d' = write_intents d"
    "uuids_used d \<le> uuids_used d'"
  using recordConflicts_frame [OF assms] by auto

section \<open>Claiming the key\<close>

definition new_row :: "time \<Rightarrow> request \<Rightarrow> key_row" where
  "new_row now req =
     \<lparr>k_agent_id = req_AgentID req, k_idempotency_key = req_Key req,
      k_request_hash = req_RequestHash req, k_status = StatusPending,
      k_resource_type = req_ResourceType req, k_resource_id = req_ResourceID req,
      k_operation = req_Operation req, k_result = None, k_result_ref = None,
      k_outcome_detail = None, k_attempt_count = 1, k_created_at = now, k_claimed_at = now,
      k_completed_at = None\<rparr>"

abbreviation mine :: "request \<Rightarrow> key_row \<Rightarrow> bool" where
  "mine req \<equiv> key_is (req_AgentID req) (req_Key req)"

lemma find_mine_failed:
  assumes "distinct (map pk (idempotency_keys d))"
  shows "List.find (\<lambda>r. mine req r \<and> k_status r = StatusFailed) (idempotency_keys d) =
    (case key_row_of d (req_AgentID req) (req_Key req) of
       None \<Rightarrow> None | Some r \<Rightarrow> if k_status r = StatusFailed then Some r else None)"
  unfolding key_row_of_def key_is_pk by (rule find_conj_distinct [OF assms])

text \<open>The four ways \<open>claimKey\<close> ends, by the row it finds.\<close>

lemma claimKey_cases:
  assumes "claimKey f now req d = Inr (result, fresh, d1)"
    and "distinct (map pk (idempotency_keys d))"
  shows "case key_row_of d (req_AgentID req) (req_Key req) of
      None \<Rightarrow> fresh \<and> res_Verdict result = VerdictClaimed \<and> \<not> res_Collided result \<and>
        rec_AttemptCount (res_Record result) = 1 \<and>
        d1 = d\<lparr>idempotency_keys := idempotency_keys d @ [new_row now req]\<rparr>
    | Some r \<Rightarrow>
        if k_request_hash r \<noteq> req_RequestHash req
        then result = result_of VerdictMismatch (record_of_row r) True \<and> \<not> fresh \<and> d1 = d
        else if k_status r \<noteq> StatusFailed
        then result = result_of VerdictExisting (record_of_row r) True \<and> \<not> fresh \<and> d1 = d
        else fresh \<and> res_Verdict result = VerdictClaimed \<and> res_Collided result \<and>
          rec_AttemptCount (res_Record result) = k_attempt_count r + 1 \<and>
          d1 = d\<lparr>idempotency_keys := update_where (\<lambda>r. mine req r \<and> k_status r = StatusFailed)
            (reclaimed now) (idempotency_keys d)\<rparr>"
  using assms find_mine_failed [OF assms(2), of req]
  by (auto simp: claimKey_def insertClaim_def readRecord_def reclaim_def tx_simps new_row_def
      result_of_def record_of_row_def Let_def split: option.splits if_splits)

section \<open>The conflict verdict\<close>

text \<open>
  The rivals of a request: the live intents of its window, most recent first, that the matrix
  calls incompatible with it.
\<close>

definition rivals :: "time \<Rightarrow> request \<Rightarrow> string \<Rightarrow> db \<Rightarrow> candidate list" where
  "rivals now req exclude d =
     filter (\<lambda>c. \<not> Compatible (req_Declared req) (i_declared c))
       (map candidate_of
         (sort_key (\<lambda>w. - w_emitted_at w) (filter (in_window now req exclude) (write_intents d))))"

lemma conflictingIntents_rivals:
  "conflictingIntents f now req exclude d = Inr cs \<longleftrightarrow>
     \<not> f_stmt f SelectWindow \<and> cs = rivals now req exclude d"
  by (auto simp: conflictingIntents_def rivals_def run_stmt_def)

lemma set_rivals:
  "set (rivals now req exclude d) =
     candidate_of ` {w \<in> set (write_intents d). in_window now req exclude w \<and>
       \<not> Compatible (req_Declared req) \<lparr>op_Class = w_operation_class w, op_Scope = w_scope_selector w\<rparr>}"
  by (auto simp: rivals_def candidate_of_def)

lemma rivals_cong: "write_intents d = write_intents d' \<Longrightarrow> rivals now req ex d = rivals now req ex d'"
  by (simp add: rivals_def)

lemma foldl_first:
  "foldl (\<lambda>p r. if Q r \<and> p = [] then g r else p) p0 rows =
     (if p0 \<noteq> [] then p0
      else case List.find (\<lambda>r. Q r \<and> g r \<noteq> []) rows of None \<Rightarrow> [] | Some r \<Rightarrow> g r)"
  by (induction rows arbitrary: p0) auto

definition in_flight :: "string \<Rightarrow> string \<Rightarrow> db \<Rightarrow> bool" where
  "in_flight agent key d \<longleftrightarrow>
     (\<exists>r \<in> set (idempotency_keys d). key_is agent key r \<and> k_status r = StatusPending)"

lemma firstPending_Inr:
  assumes "firstPending f agent cs d = Inr key"
  shows "if key \<noteq> [] then key \<in> i_key ` set cs \<and> in_flight agent key d
    else \<forall>c \<in> set cs. i_key c \<noteq> [] \<longrightarrow> \<not> in_flight agent (i_key c) d"
  using assms
  by (auto simp: firstPending_def run_stmt_Inr foldl_first terminal_def in_flight_def key_is_def
      find_None_all split: option.splits if_splits dest!: find_Some_in)

text \<open>What a rejection writes.\<close>

definition rejects :: "time \<Rightarrow> request \<Rightarrow> string \<Rightarrow> time \<Rightarrow> bytes \<Rightarrow> string \<Rightarrow> db \<Rightarrow> db \<Rightarrow> bool" where
  "rejects now req intentID emittedAt stored detail d d' \<longleftrightarrow>
     idempotency_keys d' = update_where (mine req) (rejected_row now stored detail) (idempotency_keys d) \<and>
     write_intents d' = update_where (\<lambda>w. w_intent_id w = intentID \<and> w_emitted_at w = emittedAt)
       (\<lambda>w. w\<lparr>w_voided_at := Some now\<rparr>) (write_intents d) \<and>
     (\<exists>r. key_row_of d (req_AgentID req) (req_Key req) = Some r \<and> checks (rejected_row now stored detail r)) \<and>
     uuids_used d \<le> uuids_used d'"

lemma reject_Inr:
  assumes "reject f pgs now req intentID emittedAt others all d = Inr (out, d')"
  shows "o_Verdict out = VerdictRejected \<and>
    (\<exists>conflictID d1. recordConflicts f pgs now req intentID all ResolutionRejected d = Inr (conflictID, d1) \<and>
       conflicts d' = conflicts d1 \<and>
       o_OutcomeDetail out = rejection_detail req (hd others) \<and>
       jsonb pgs (marshal (rejection_body req (o_OutcomeDetail out) (hd others) conflictID)) = Some (o_Result out)) \<and>
    rejects now req intentID emittedAt (o_Result out) (o_OutcomeDetail out) d d'"
  using assms
  by (fastforce simp: reject_def tx_simps Let_def plain_outcome_def rejects_def key_row_of_def
      dest: recordConflicts_keys split: option.splits if_splits)

abbreviation foreign :: "request \<Rightarrow> candidate \<Rightarrow> bool" where
  "foreign req c \<equiv> i_agentID c \<noteq> req_AgentID req"

lemma resolveConflicts_cases:
  assumes "resolveConflicts f pgs now req intentID emittedAt d = Inr (out, d')"
  obtains
    (clear) "rivals now req intentID d = []" "out = plain_outcome VerdictClaimed" "d' = d"
  | (observed) p where "rivals now req intentID d \<noteq> []" "\<not> req_Enforce req"
      "recordConflicts f pgs now req intentID (rivals now req intentID d) ResolutionObserved d = Inr (p, d')"
      "out = (plain_outcome VerdictClaimed)\<lparr>o_Observed := int (length (rivals now req intentID d))\<rparr>"
  | (rejected) "req_Enforce req" "filter (foreign req) (rivals now req intentID d) \<noteq> []"
      "reject f pgs now req intentID emittedAt (filter (foreign req) (rivals now req intentID d))
         (rivals now req intentID d) d = Inr (out, d')"
  | (serialize) key where "req_Enforce req" "\<forall>c \<in> set (rivals now req intentID d). i_agentID c = req_AgentID req"
      "key \<in> i_key ` set (rivals now req intentID d)" "in_flight (req_AgentID req) key d" "d' = d"
      "out = (plain_outcome VerdictSerialize)\<lparr>o_Blocking := \<lparr>blk_AgentID = req_AgentID req, blk_Key = key\<rparr>\<rparr>"
  | (serialized) p where "req_Enforce req" "rivals now req intentID d \<noteq> []"
      "\<forall>c \<in> set (rivals now req intentID d). i_agentID c = req_AgentID req \<and>
         (i_key c \<noteq> [] \<longrightarrow> \<not> in_flight (req_AgentID req) (i_key c) d)"
      "recordConflicts f pgs now req intentID (rivals now req intentID d) ResolutionSerialized d = Inr (p, d')"
      "out = plain_outcome VerdictClaimed"
proof -
  let ?cs = "rivals now req intentID d"
  let ?same = "filter (\<lambda>c. i_agentID c = req_AgentID req) ?cs"
  consider "?cs = []" | "?cs \<noteq> []" "\<not> req_Enforce req"
    | "req_Enforce req" "filter (foreign req) ?cs \<noteq> []"
    | "req_Enforce req" "?cs \<noteq> []" "filter (foreign req) ?cs = []" by blast
  then show thesis
  proof cases
    case 1
    with assms show thesis
      by (intro clear) (auto simp: resolveConflicts_def tx_simps conflictingIntents_rivals)
  next
    case 2
    with assms show thesis
      by (auto simp: resolveConflicts_def tx_simps conflictingIntents_rivals intro: observed)
  next
    case 3
    then have "?cs \<noteq> []" by auto
    with 3 assms show thesis
      by (intro rejected) (auto simp: resolveConflicts_def tx_simps conflictingIntents_rivals Let_def)
  next
    case 4
    then have all: "\<forall>c \<in> set ?cs. i_agentID c = req_AgentID req" and same: "?same = ?cs"
      by (auto simp: filter_empty_conv)
    from 4 same assms obtain key where key: "firstPending f (req_AgentID req) ?cs d = Inr key"
      and rest: "if key \<noteq> [] then d' = d \<and> out = (plain_outcome VerdictSerialize)
            \<lparr>o_Blocking := \<lparr>blk_AgentID = req_AgentID req, blk_Key = key\<rparr>\<rparr>
        else \<exists>p. recordConflicts f pgs now req intentID ?cs ResolutionSerialized d = Inr (p, d') \<and>
          out = plain_outcome VerdictClaimed"
      by (auto simp: resolveConflicts_def tx_simps conflictingIntents_rivals Let_def split: if_splits)
    show thesis
    proof (cases "key = []")
      case True
      with firstPending_Inr [OF key] rest all 4 show thesis by (auto intro: serialized)
    next
      case False
      with firstPending_Inr [OF key] rest all 4 show thesis by (auto intro!: serialize [of key])
    qed
  qed
qed

lemma resolveConflicts_frame:
  assumes "resolveConflicts f pgs now req intentID emittedAt d = Inr (out, d')"
  shows "uuids_used d \<le> uuids_used d' \<and>
    (if o_Verdict out = VerdictRejected
     then rejects now req intentID emittedAt (o_Result out) (o_OutcomeDetail out) d d'
     else o_Verdict out \<in> {VerdictClaimed, VerdictSerialize} \<and>
       idempotency_keys d' = idempotency_keys d \<and> write_intents d' = write_intents d)"
  using assms
proof (cases rule: resolveConflicts_cases)
  case rejected
  then show ?thesis using reject_Inr by (fastforce simp: rejects_def)
qed (auto simp: plain_outcome_def dest: recordConflicts_keys)

section \<open>The transaction as a whole\<close>

text \<open>The row of the intent log a request adds, and the key table once the key is claimed.\<close>

definition new_intent :: "string \<Rightarrow> time \<Rightarrow> request \<Rightarrow> bytes \<Rightarrow> intent_row" where
  "new_intent intentID now req payload =
     \<lparr>w_intent_id = intentID, w_agent_id = req_AgentID req, w_idempotency_key = req_Key req,
      w_resource_type = req_ResourceType req, w_resource_id = req_ResourceID req,
      w_operation = req_Operation req, w_operation_class = op_Class (req_Declared req),
      w_scope_selector = op_Scope (req_Declared req), w_payload = payload,
      w_emitted_at = now, w_published_at = None, w_voided_at = None\<rparr>"

definition claimed_keys :: "time \<Rightarrow> request \<Rightarrow> db \<Rightarrow> key_row list" where
  "claimed_keys now req d =
     (if key_row_of d (req_AgentID req) (req_Key req) = None
      then idempotency_keys d @ [new_row now req]
      else update_where (\<lambda>r. mine req r \<and> k_status r = StatusFailed) (reclaimed now) (idempotency_keys d))"

definition claimable :: "request \<Rightarrow> db \<Rightarrow> bool" where
  "claimable req d \<longleftrightarrow>
     (case key_row_of d (req_AgentID req) (req_Key req) of
        None \<Rightarrow> True
      | Some r \<Rightarrow> k_request_hash r = req_RequestHash req \<and> k_status r = StatusFailed)"

text \<open>The state in which the conflict check of a fresh claim runs.\<close>

definition with_intent :: "pg \<Rightarrow> time \<Rightarrow> request \<Rightarrow> bytes \<Rightarrow> db \<Rightarrow> db" where
  "with_intent pgs now req payload d =
     d\<lparr>idempotency_keys := claimed_keys now req d, uuids_used := Suc (uuids_used d),
       write_intents := write_intents d @ [new_intent (uuidv7 pgs (uuids_used d)) now req payload]\<rparr>"

lemma recordIntent_Inr:
  assumes "recordIntent f pgs now req d = Inr (intentID, emittedAt, d')"
  shows "intentID = uuidv7 pgs (uuids_used d) \<and> emittedAt = now \<and>
    op_Class (req_Declared req) \<in> set classes \<and>
    (\<exists>payload. jsonb pgs (req_Payload req) = Some payload \<and>
       d' = d\<lparr>uuids_used := Suc (uuids_used d),
              write_intents := write_intents d @ [new_intent intentID now req payload]\<rparr>)"
  using assms
  by (auto simp: recordIntent_def run_stmt_Inr fresh_uuid_def Let_def new_intent_def
      split: option.splits if_splits)

lemma claimKey_fresh:
  assumes "claimKey f now req d = Inr (result, True, d1)" and "distinct (map pk (idempotency_keys d))"
  shows "claimable req d \<and> d1 = d\<lparr>idempotency_keys := claimed_keys now req d\<rparr> \<and>
    res_Verdict result = VerdictClaimed"
  using claimKey_cases [OF assms]
  by (auto simp: claimable_def claimed_keys_def split: option.splits if_splits)

lemma claimKey_stale:
  assumes "claimKey f now req d = Inr (result, False, d1)" and "distinct (map pk (idempotency_keys d))"
  shows "\<exists>r. key_row_of d (req_AgentID req) (req_Key req) = Some r \<and>
    (if k_request_hash r \<noteq> req_RequestHash req
     then result = result_of VerdictMismatch (record_of_row r) True
     else k_status r \<noteq> StatusFailed \<and> result = result_of VerdictExisting (record_of_row r) True)"
  using claimKey_cases [OF assms] by (auto split: option.splits if_splits)

text \<open>A claim that got past the lock and won its key.\<close>

lemma Claim_won_cases:
  assumes "Claim f pgs now req d = (r, d')" and "distinct (map pk (idempotency_keys d))"
    and "\<not> f_begin f" "f_lock f = Locked" and ck: "claimKey f now req d = Inr (result0, True, d1)"
  obtains
    (failed) e where "r = Inl e" "d' = d"
  | (resolved) payload out d3 result where
      "jsonb pgs (req_Payload req) = Some payload"
      "resolveConflicts f pgs now req (uuidv7 pgs (uuids_used d)) now (with_intent pgs now req payload d) = Inr (out, d3)"
      "result = with_outcome (result0\<lparr>res_LockWait := f_lock_wait f\<rparr>) (uuidv7 pgs (uuids_used d)) out"
      "(r, d') = (if o_Verdict out = VerdictSerialize then (Inr result, d)
         else case f_commit f of Committed \<Rightarrow> (Inr result, d3) | CommitFailed \<Rightarrow> (Inl CommitError, d)
              | CommitUnseen \<Rightarrow> (Inl CommitError, d3))"
proof (cases "recordIntent f pgs now req d1")
  case (Inl e)
  with assms that show thesis by (auto simp: Claim_def)
next
  case (Inr b)
  then obtain iid em d2 where ri: "recordIntent f pgs now req d1 = Inr (iid, em, d2)"
    by (cases b) auto
  from recordIntent_Inr [OF ri] claimKey_fresh [OF ck assms(2)] obtain payload where
    pl: "jsonb pgs (req_Payload req) = Some payload" "iid = uuidv7 pgs (uuids_used d)" "em = now"
      "d2 = with_intent pgs now req payload d"
    by (auto simp: with_intent_def)
  show thesis
  proof (cases "resolveConflicts f pgs now req iid em d2")
    case (Inl e)
    with ri assms that show thesis by (auto simp: Claim_def)
  next
    case (Inr c)
    then obtain out d3 where "resolveConflicts f pgs now req iid em d2 = Inr (out, d3)"
      by (cases c) auto
    with ri pl assms show thesis by (intro resolved) (auto simp: Claim_def Let_def)
  qed
qed

lemma claimKey_result:
  fixes x :: "claim_error + claim_result \<times> bool \<times> db"
  obtains (error) e where "x = Inl e"
  | (stale) result d1 where "x = Inr (result, False, d1)"
  | (fresh) result d1 where "x = Inr (result, True, d1)"
proof (cases x)
  case (Inr b)
  obtain result fresh d1 where "b = (result, fresh, d1)" by (cases b)
  with Inr stale fresh show thesis by (cases fresh) auto
qed (rule error)

lemma Claim_cases:
  assumes "Claim f pgs now req d = (r, d')" and "distinct (map pk (idempotency_keys d))"
  obtains
    (failed) e where "r = Inl e" "d' = d"
  | (lock_timeout) result where "r = Inr result" "res_Verdict result = VerdictLockTimeout" "d' = d"
      "f_lock f = LockNotAvailable"
  | (existing) row result where "r = Inr result" "d' = d"
      "key_row_of d (req_AgentID req) (req_Key req) = Some row"
      "res_Record result = record_of_row row"
      "res_Verdict result = (if k_request_hash row \<noteq> req_RequestHash req then VerdictMismatch else VerdictExisting)"
      "k_request_hash row \<noteq> req_RequestHash req \<or> k_status row \<noteq> StatusFailed"
  | (serialize) payload out result d3 where "claimable req d" "d' = d" "r = Inr result"
      "res_Verdict result = VerdictSerialize" "res_Blocking result = o_Blocking out"
      "resolveConflicts f pgs now req (uuidv7 pgs (uuids_used d)) now (with_intent pgs now req payload d) = Inr (out, d3)"
      "o_Verdict out = VerdictSerialize"
  | (committed) payload out result0 where "claimable req d"
      "jsonb pgs (req_Payload req) = Some payload"
      "resolveConflicts f pgs now req (uuidv7 pgs (uuids_used d)) now (with_intent pgs now req payload d) = Inr (out, d')"
      "o_Verdict out \<in> {VerdictClaimed, VerdictRejected}"
      "r = Inl CommitError \<or> r = Inr (with_outcome result0 (uuidv7 pgs (uuids_used d)) out)"
proof -
  consider "f_begin f \<or> f_lock f \<noteq> Locked"
    | e where "\<not> f_begin f" "f_lock f = Locked" "claimKey f now req d = Inl e"
    | res0 d1 where "\<not> f_begin f" "f_lock f = Locked" "claimKey f now req d = Inr (res0, False, d1)"
    | res0 d1 where "\<not> f_begin f" "f_lock f = Locked" "claimKey f now req d = Inr (res0, True, d1)"
    by (cases "claimKey f now req d" rule: claimKey_result) blast+
  then show thesis
  proof cases
    case 1
    with assms(1) show thesis
      by (cases "f_lock f")
         (auto simp: Claim_def result_of_def split: if_splits intro: failed lock_timeout)
  next
    case 2
    with assms(1) show thesis by (auto simp: Claim_def intro: failed)
  next
    case (3 res0 d1)
    with assms(1) have "r = Inr (res0\<lparr>res_LockWait := f_lock_wait f\<rparr>)" "d' = d"
      by (auto simp: Claim_def Let_def)
    moreover obtain row where "key_row_of d (req_AgentID req) (req_Key req) = Some row"
      "if k_request_hash row \<noteq> req_RequestHash req
       then res0 = result_of VerdictMismatch (record_of_row row) True
       else k_status row \<noteq> StatusFailed \<and> res0 = result_of VerdictExisting (record_of_row row) True"
      using claimKey_stale [OF 3(3) assms(2)] by blast
    ultimately show thesis
      by (intro existing [of _ row]) (auto simp: result_of_def split: if_splits)
  next
    case (4 res0 d1)
    note fresh = claimKey_fresh [OF 4(3) assms(2)]
    from assms 4 show thesis
    proof (cases rule: Claim_won_cases)
      case (resolved payload out d3 result)
      show thesis
      proof (cases "o_Verdict out = VerdictSerialize")
        case True
        with resolved fresh show thesis
          by (intro serialize [OF _ _ _ _ _ resolved(2)]) (auto simp: with_outcome_def Let_def)
      next
        case False
        with resolveConflicts_frame [OF resolved(2)]
        have "o_Verdict out \<in> {VerdictClaimed, VerdictRejected}" by (auto split: if_splits)
        with False resolved fresh show thesis
          by (cases "f_commit f") (auto intro: failed committed)
      qed
    qed (rule failed)
  qed
qed

section \<open>What a claim does to the tables\<close>

text \<open>The row of its key once a claim has it.\<close>

definition claimed_row :: "time \<Rightarrow> request \<Rightarrow> db \<Rightarrow> key_row" where
  "claimed_row now req d =
     (case key_row_of d (req_AgentID req) (req_Key req) of
        None \<Rightarrow> new_row now req | Some r \<Rightarrow> reclaimed now r)"

abbreviation own :: "request \<Rightarrow> string \<times> string" where
  "own req \<equiv> (req_AgentID req, req_Key req)"

lemma pk_new_row [simp]: "pk (new_row now req) = own req"
  by (simp add: new_row_def pk_def)

lemma key_row_of_with_intent:
  assumes "claimable req d"
  shows "key_row_of (with_intent pgs now req payload d) a k =
    (if (a, k) = own req then Some (claimed_row now req d) else key_row_of d a k)"
proof (cases "key_row_of d (req_AgentID req) (req_Key req)")
  case None
  have "key_row_of (with_intent pgs now req payload d) a k =
      key_row_of (d\<lparr>idempotency_keys := idempotency_keys d @ [new_row now req]\<rparr>) a k"
    by (rule key_row_of_cong) (simp add: with_intent_def claimed_keys_def None)
  with None show ?thesis
    by (auto simp: key_row_of_append claimed_row_def split: option.splits)
next
  case (Some r)
  have "key_row_of (with_intent pgs now req payload d) a k =
      key_row_of (d\<lparr>idempotency_keys := update_where (\<lambda>r. mine req r \<and> k_status r = StatusFailed)
        (reclaimed now) (idempotency_keys d)\<rparr>) a k"
    by (rule key_row_of_cong) (simp add: with_intent_def claimed_keys_def Some)
  with Some assms show ?thesis
    by (cases "key_row_of d a k")
       (auto simp: key_row_of_update_where claimed_row_def claimable_def key_is_def
          dest: key_row_of_Some split: option.splits)
qed

lemma claimed_row_pending:
  "k_status (claimed_row now req d) = StatusPending" "k_claimed_at (claimed_row now req d) = now"
  "k_result (claimed_row now req d) = None" "k_result_ref (claimed_row now req d) = None"
  "k_outcome_detail (claimed_row now req d) = None"
  by (simp_all add: claimed_row_def new_row_def reclaimed_def split: option.split)

lemma claimed_row_hash:
  "claimable req d \<Longrightarrow> k_request_hash (claimed_row now req d) = req_RequestHash req"
  by (auto simp: claimed_row_def claimable_def new_row_def reclaimed_def split: option.splits)

lemma live_of_with_intent:
  "live_of (with_intent pgs now req payload d) a k = live_of d a k @
     (if (a, k) = own req then [new_intent (uuidv7 pgs (uuids_used d)) now req payload] else [])"
  by (auto simp: live_of_def with_intent_def new_intent_def live_def)

lemma wf_with_intent:
  assumes "wf_db pgs d" "claimable req d" "inj (uuidv7 pgs)"
  shows "wf_db pgs (with_intent pgs now req payload d)"
proof -
  let ?d' = "with_intent pgs now req payload d"
  have keys: "distinct (map pk (idempotency_keys ?d'))"
    using assms(1,2) key_row_of_None [of d "req_AgentID req" "req_Key req"]
    by (auto simp: wf_db_def with_intent_def claimed_keys_def map_update_where)
  have rows: "checks r \<and> 1 \<le> k_attempt_count r" if "r \<in> set (idempotency_keys ?d')" for r
    using that assms(1)
    by (auto simp: wf_db_def with_intent_def claimed_keys_def set_update_where checks_def
        reclaimed_def new_row_def split: if_splits)
  have fresh: "\<forall>w \<in> set (write_intents d). w_intent_id w \<noteq> uuidv7 pgs (uuids_used d)"
    using assms(1,3) by (fastforce simp: wf_db_def dest: injD)
  then have ids: "distinct (map w_intent_id (write_intents ?d'))"
    using assms(1) by (auto simp: wf_db_def with_intent_def new_intent_def)
  have "\<exists>n < uuids_used ?d'. w_intent_id w = uuidv7 pgs n" if "w \<in> set (write_intents ?d')" for w
    using that assms(1) by (fastforce simp: wf_db_def with_intent_def new_intent_def less_Suc_eq)
  with keys rows ids show ?thesis unfolding wf_db_def by blast
qed

lemma intents_agree_with_intent:
  assumes "intents_agree d" "claimable req d"
  shows "intents_agree (with_intent pgs now req payload d)"
  unfolding intents_agree_def
proof (intro allI)
  fix a k
  let ?d' = "with_intent pgs now req payload d"
  have "live_of d (req_AgentID req) (req_Key req) = []"
    using assms by (auto simp: intents_agree_def claimable_def status_of_def split: option.splits)
  with assms show "length (live_of ?d' a k) \<le> 1 \<and>
      (status_of ?d' a k \<in> {None, Some StatusFailed, Some StatusRejected} \<longrightarrow> live_of ?d' a k = [])"
    by (cases "(a, k) = own req")
       (auto simp: live_of_with_intent status_of_def key_row_of_with_intent claimed_row_pending
          intents_agree_def)
qed

text \<open>The state a committed claim leaves, by the verdict of the conflict check.\<close>

lemma rejects_key_row:
  assumes "rejects now req iid em stored detail d d'"
  shows "key_row_of d' a k =
    (if (a, k) = own req then map_option (rejected_row now stored detail) (key_row_of d a k)
     else key_row_of d a k)"
proof -
  have "key_row_of d' a k = key_row_of (d\<lparr>idempotency_keys := idempotency_keys d'\<rparr>) a k"
    by (rule key_row_of_cong) simp
  then show ?thesis using assms
    by (cases "key_row_of d a k")
       (auto simp: rejects_def key_row_of_update_where key_is_def dest: key_row_of_Some)
qed

lemma rejects_wf:
  assumes "rejects now req iid em stored detail d d'" "wf_db pgs d"
  shows "wf_db pgs d'"
proof -
  obtain r0 where r0: "key_row_of d (req_AgentID req) (req_Key req) = Some r0"
    "checks (rejected_row now stored detail r0)"
    using assms(1) by (auto simp: rejects_def)
  have own_row: "r = r0" if "r \<in> set (idempotency_keys d)" "mine req r" for r
    using key_row_of_unique [of d r] that r0 assms(2) by (auto simp: wf_db_def key_is_def)
  have rows: "checks r \<and> 1 \<le> k_attempt_count r" if "r \<in> set (idempotency_keys d')" for r
    using that assms own_row r0(2)
    by (auto simp: rejects_def wf_db_def set_update_where) (auto simp: rejected_row_def)
  have ids: "map w_intent_id (write_intents d') = map w_intent_id (write_intents d)"
    using assms(1) by (simp add: rejects_def map_update_where)
  have used: "uuids_used d \<le> uuids_used d'" using assms(1) by (simp add: rejects_def)
  have "\<exists>n < uuids_used d'. w_intent_id w = uuidv7 pgs n" if "w \<in> set (write_intents d')" for w
  proof -
    from that have "w_intent_id w \<in> set (map w_intent_id (write_intents d'))" by simp
    then obtain w0 where "w0 \<in> set (write_intents d)" "w_intent_id w = w_intent_id w0"
      unfolding ids by auto
    with assms(2) used show ?thesis unfolding wf_db_def by (metis less_le_trans)
  qed
  moreover have "map pk (idempotency_keys d') = map pk (idempotency_keys d)"
    using assms(1) by (simp add: rejects_def map_update_where)
  ultimately show ?thesis using assms(2) rows ids unfolding wf_db_def by simp
qed

lemma rejects_live_of:
  assumes "rejects now req iid em stored detail d d'"
  shows "live_of d' a k = filter (\<lambda>w. \<not> (w_intent_id w = iid \<and> w_emitted_at w = em)) (live_of d a k)"
  using assms by (simp add: rejects_def live_of_def filter_update_where_out live_def)

text \<open>The two states a transaction that reached its commit can leave.\<close>

lemma Claim_effect:
  assumes "Claim f pgs now req d = (r, d')" and "distinct (map pk (idempotency_keys d))"
  obtains
    (unchanged) "d' = d" "\<And>result. r = Inr result \<Longrightarrow> res_Verdict result \<notin> {VerdictClaimed, VerdictRejected}"
  | (claimed) payload where "claimable req d" "jsonb pgs (req_Payload req) = Some payload"
      "idempotency_keys d' = idempotency_keys (with_intent pgs now req payload d)"
      "write_intents d' = write_intents (with_intent pgs now req payload d)"
      "uuids_used (with_intent pgs now req payload d) \<le> uuids_used d'"
      "\<And>result. r = Inr result \<Longrightarrow> res_Verdict result = VerdictClaimed"
      "\<And>e. r = Inl e \<Longrightarrow> e = CommitError"
  | (rejected) payload stored detail where "claimable req d"
      "jsonb pgs (req_Payload req) = Some payload"
      "rejects now req (uuidv7 pgs (uuids_used d)) now stored detail (with_intent pgs now req payload d) d'"
      "\<And>result. r = Inr result \<Longrightarrow> res_Verdict result = VerdictRejected \<and>
         rec_Status (res_Record result) = StatusRejected \<and>
         rec_Result (res_Record result) = stored \<and> rec_OutcomeDetail (res_Record result) = detail"
      "\<And>e. r = Inl e \<Longrightarrow> e = CommitError"
  using assms
proof (cases rule: Claim_cases)
  case (committed payload out result0)
  note frame = resolveConflicts_frame [OF committed(3)]
  show thesis
  proof (cases "o_Verdict out = VerdictRejected")
    case True
    with committed frame show thesis
      by (intro rejected [of payload "o_Result out" "o_OutcomeDetail out"])
         (auto simp: with_outcome_def Let_def)
  next
    case False
    with committed frame show thesis
      by (intro claimed [of payload]) (auto simp: with_outcome_def Let_def)
  qed
qed (auto intro: unchanged split: if_splits)

lemma wf_db_mono:
  assumes "wf_db pgs d" "idempotency_keys d' = idempotency_keys d" "write_intents d' = write_intents d"
    "uuids_used d \<le> uuids_used d'"
  shows "wf_db pgs d'"
  using assms less_le_trans unfolding wf_db_def by metis

lemma intents_agree_cong:
  assumes "idempotency_keys d' = idempotency_keys d" "write_intents d' = write_intents d"
  shows "intents_agree d' = intents_agree d"
  using assms by (simp add: intents_agree_def status_of_def key_row_of_def live_of_def)

lemma rejects_live_of_fresh:
  assumes "rejects now req (uuidv7 pgs (uuids_used d)) now stored detail (with_intent pgs now req payload d) d'"
    and "wf_db pgs d" "inj (uuidv7 pgs)"
  shows "live_of d' a k = live_of d a k"
proof -
  have "w_intent_id w \<noteq> uuidv7 pgs (uuids_used d)" if "w \<in> set (live_of d a k)" for w
    using that assms(2,3) by (fastforce simp: wf_db_def live_of_def dest: injD)
  then have "filter (\<lambda>w. \<not> (w_intent_id w = uuidv7 pgs (uuids_used d) \<and> w_emitted_at w = now)) (live_of d a k) =
      live_of d a k"
    by (simp add: filter_id_conv)
  then show ?thesis
    by (simp add: rejects_live_of [OF assms(1)] live_of_with_intent new_intent_def)
qed

lemma Claim_keeps:
  assumes "Claim f pgs now req d = (r, d')" "wf_db pgs d" "intents_agree d" "inj (uuidv7 pgs)"
  shows "wf_db pgs d' \<and> intents_agree d'"
proof -
  from assms(2) have "distinct (map pk (idempotency_keys d))" by (simp add: wf_db_def)
  with assms(1) show ?thesis
  proof (cases rule: Claim_effect)
    case unchanged
    with assms show ?thesis by simp
  next
    case (claimed payload)
    then show ?thesis
      using wf_db_mono [OF wf_with_intent] intents_agree_cong intents_agree_with_intent assms by metis
  next
    case (rejected payload stored detail)
    have "intents_agree d'"
      unfolding intents_agree_def status_of_def
      using rejected(1) assms(3)
      by (auto simp: rejects_live_of_fresh [OF rejected(3) assms(2,4)] rejects_key_row [OF rejected(3)]
          key_row_of_with_intent intents_agree_def status_of_def claimable_def split: option.splits)
    with rejects_wf [OF rejected(3) wf_with_intent] rejected(1) assms show ?thesis by blast
  qed
qed

section \<open>What a completion does to the tables\<close>

lemma pending_key_count:
  assumes "distinct (map pk (idempotency_keys d))"
  shows "length (filter (\<lambda>r. key_is a k r \<and> k_status r = StatusPending) (idempotency_keys d)) =
    (if status_of d a k = Some StatusPending then 1 else 0)"
  unfolding status_of_def key_row_of_def key_is_pk length_filter_distinct [OF assms]
  by (simp split: option.split)

text \<open>The tables a recorded outcome leaves: the row of the key, and the intent voided on failure.\<close>

definition completes ::
  "time \<Rightarrow> string \<Rightarrow> string \<Rightarrow> status \<Rightarrow> bytes option \<Rightarrow> string option \<Rightarrow> string option \<Rightarrow> db \<Rightarrow> db" where
  "completes now a k st stored ref detail d =
     (let d1 = d\<lparr>idempotency_keys := update_where (\<lambda>r. key_is a k r \<and> k_status r = StatusPending)
                   (completed_row now st stored ref detail) (idempotency_keys d)\<rparr>
      in if st = StatusFailed then void_latest now a k d1 else d1)"

lemma Complete_effect:
  assumes "Complete f pgs now a k st result ref detail d = (r, d')"
    and "distinct (map pk (idempotency_keys d))"
  obtains
    (unchanged) "d' = d" "r = Inr False \<Longrightarrow> status_of d a k \<noteq> Some StatusPending" "r \<noteq> Inr True"
  | (recorded) row stored where "key_row_of d a k = Some row" "k_status row = StatusPending"
      "stored = (if result = [] then None else jsonb pgs result)"
      "result \<noteq> [] \<Longrightarrow> jsonb pgs result \<noteq> None"
      "d' = completes now a k st stored (nonempty ref) (nonempty detail) d"
      "checks (completed_row now st stored (nonempty ref) (nonempty detail) row)"
      "r = Inr True \<or> r = Inl CommitError"
proof (cases "d' = d \<and> (r = Inr False \<longrightarrow> status_of d a k \<noteq> Some StatusPending) \<and> r \<noteq> Inr True")
  case True
  with unchanged show thesis by blast
next
  case False
  define stored where "stored = (if result = [] then None else jsonb pgs result)"
  let ?f = "completed_row now st stored (nonempty ref) (nonempty detail)"
  have "\<not> f_begin f" "\<not> f_stmt f CompleteKey" "result \<noteq> [] \<longrightarrow> jsonb pgs result \<noteq> None"
    using assms(1) False by (auto simp: Complete_def Let_def nonempty_def split: if_splits)
  with assms(1) False have
    st: "status_of d a k = Some StatusPending" and
    ck: "list_all (\<lambda>r. key_is a k r \<and> k_status r = StatusPending \<longrightarrow> checks (?f r)) (idempotency_keys d)" and
    d': "d' = completes now a k st stored (nonempty ref) (nonempty detail) d" and
    r: "r = Inr True \<or> r = Inl CommitError"
    unfolding Complete_def Let_def pending_key_count [OF assms(2)] completes_def stored_def
    by (auto simp: nonempty_def split: if_splits commit_outcome.splits)
  from st obtain row where row: "key_row_of d a k = Some row" "k_status row = StatusPending"
    by (auto simp: status_of_def)
  with ck have "checks (?f row)"
    by (auto simp: list_all_iff key_is_def dest: key_row_of_Some)
  with \<open>result \<noteq> [] \<longrightarrow> _\<close> row d' r show thesis by (intro recorded [of row stored]) (auto simp: stored_def)
qed

text \<open>Voiding the latest live intent of a key empties its live intents and touches no other key.\<close>

lemma latest_live_in:
  "latest_live d a k = (case live_of d a k of [] \<Rightarrow> None | _ \<Rightarrow>
     Some (hd (sort_key (\<lambda>w. - w_emitted_at w) (live_of d a k))))"
proof -
  have "filter (\<lambda>w. w_agent_id w = a \<and> w_idempotency_key w = k \<and> w_voided_at w = None) (write_intents d) =
      live_of d a k"
    unfolding live_of_def live_def by (rule filter_cong) auto
  then show ?thesis
    unfolding latest_live_def
    by (metis (no_types, lifting) length_0_conv length_sort list.case_eq_if)
qed

lemma void_latest_keys [simp]:
  "idempotency_keys (void_latest now a k d) = idempotency_keys d"
  "uuids_used (void_latest now a k d) = uuids_used d"
  "conflicts (void_latest now a k d) = conflicts d"
  by (simp_all add: void_latest_def split: option.split)

lemma live_of_void_latest:
  assumes "length (live_of d a k) \<le> 1" "distinct (map w_intent_id (write_intents d))"
  shows "live_of (void_latest now a k d) a' k' = (if (a', k') = (a, k) then [] else live_of d a' k')"
proof (cases "live_of d a k")
  case Nil
  then show ?thesis by (simp add: void_latest_def latest_live_in)
next
  case (Cons l ls)
  with assms(1) have l: "live_of d a k = [l]" by simp
  then have mem: "l \<in> set (write_intents d)" "w_agent_id l = a" "w_idempotency_key l = k"
    by (auto simp: live_of_def filter_eq_Cons_iff)
  have same: "w = l" if "w \<in> set (write_intents d)" "w_intent_id w = w_intent_id l" for w
    using that mem(1) assms(2) distinct_map_unique by metis
  have "void_latest now a k d = d\<lparr>write_intents := update_where
      (\<lambda>w. w_intent_id w = w_intent_id l \<and> w_emitted_at w = w_emitted_at l)
      (\<lambda>w. w\<lparr>w_voided_at := Some now\<rparr>) (write_intents d)\<rparr>"
    by (simp add: void_latest_def latest_live_in l)
  then have "live_of (void_latest now a k d) a' k' =
      filter (\<lambda>w. \<not> (w_intent_id w = w_intent_id l \<and> w_emitted_at w = w_emitted_at l)) (live_of d a' k')"
    by (simp add: live_of_def filter_update_where_out live_def)
  also have "\<dots> = filter (\<lambda>w. w \<noteq> l) (live_of d a' k')"
    by (rule filter_cong) (auto simp: live_of_def dest: same)
  finally have eq: "live_of (void_latest now a k d) a' k' = filter (\<lambda>w. w \<noteq> l) (live_of d a' k')" .
  show ?thesis
  proof (cases "(a', k') = (a, k)")
    case False
    with mem have "\<forall>w \<in> set (live_of d a' k'). w \<noteq> l" by (auto simp: live_of_def)
    then have "filter (\<lambda>w. w \<noteq> l) (live_of d a' k') = live_of d a' k'" by (simp add: filter_id_conv)
    with eq False show ?thesis by (simp only: if_False)
  qed (use eq l in simp)
qed

lemma void_latest_intents:
  "map w_intent_id (write_intents (void_latest now a k d)) = map w_intent_id (write_intents d)"
  by (simp add: void_latest_def map_update_where split: option.split)

lemma key_row_of_completes:
  assumes "key_row_of d a k = Some row" "k_status row = StatusPending"
  shows "key_row_of (completes now a k st stored ref detail d) a' k' =
    (if (a', k') = (a, k) then Some (completed_row now st stored ref detail row) else key_row_of d a' k')"
proof -
  have "key_row_of (completes now a k st stored ref detail d) a' k' =
      key_row_of (d\<lparr>idempotency_keys := update_where (\<lambda>r. key_is a k r \<and> k_status r = StatusPending)
                   (completed_row now st stored ref detail) (idempotency_keys d)\<rparr>) a' k'"
    by (rule key_row_of_cong) (simp add: completes_def Let_def)
  then show ?thesis using assms
    by (cases "key_row_of d a' k'")
       (auto simp: key_row_of_update_where key_is_def dest: key_row_of_Some)
qed

lemma live_of_completes:
  assumes "intents_agree d" "distinct (map w_intent_id (write_intents d))"
  shows "live_of (completes now a k st stored ref detail d) a' k' =
    (if (a', k') = (a, k) \<and> st = StatusFailed then [] else live_of d a' k')"
proof -
  define d1 where "d1 = d\<lparr>idempotency_keys := update_where (\<lambda>r. key_is a k r \<and> k_status r = StatusPending)
               (completed_row now st stored ref detail) (idempotency_keys d)\<rparr>"
  have live: "live_of d1 b c = live_of d b c" for b c by (rule live_of_cong) (simp add: d1_def)
  have "length (live_of d1 a k) \<le> 1" "distinct (map w_intent_id (write_intents d1))"
    using assms live by (simp_all add: intents_agree_def d1_def)
  note void = live_of_void_latest [OF this]
  have "completes now a k st stored ref detail d = (if st = StatusFailed then void_latest now a k d1 else d1)"
    unfolding completes_def d1_def Let_def ..
  then show ?thesis by (simp add: void live)
qed

lemma completes_wf:
  assumes "wf_db pgs d" "key_row_of d a k = Some row"
    and "checks (completed_row now st stored ref detail row)"
  shows "wf_db pgs (completes now a k st stored ref detail d)"
proof -
  let ?d' = "completes now a k st stored ref detail d"
  have keys: "idempotency_keys ?d' = update_where (\<lambda>r. key_is a k r \<and> k_status r = StatusPending)
      (completed_row now st stored ref detail) (idempotency_keys d)"
    by (simp add: completes_def Let_def)
  have own_row: "r = row" if "r \<in> set (idempotency_keys d)" "key_is a k r" for r
    using key_row_of_unique [of d r] that assms(1,2) by (auto simp: wf_db_def key_is_def)
  have rows: "checks r \<and> 1 \<le> k_attempt_count r" if "r \<in> set (idempotency_keys ?d')" for r
    using that assms own_row unfolding keys
    by (auto simp: wf_db_def set_update_where) (auto simp: completed_row_def)
  have ids: "map w_intent_id (write_intents ?d') = map w_intent_id (write_intents d)"
    by (simp add: completes_def Let_def void_latest_intents)
  have "\<exists>n < uuids_used ?d'. w_intent_id w = uuidv7 pgs n" if "w \<in> set (write_intents ?d')" for w
  proof -
    from that have "w_intent_id w \<in> set (map w_intent_id (write_intents ?d'))" by simp
    then obtain w0 where "w0 \<in> set (write_intents d)" "w_intent_id w = w_intent_id w0"
      unfolding ids by auto
    moreover have "uuids_used ?d' = uuids_used d" by (simp add: completes_def Let_def)
    ultimately show ?thesis using assms(1) unfolding wf_db_def by metis
  qed
  moreover have "map pk (idempotency_keys ?d') = map pk (idempotency_keys d)"
    unfolding keys by (simp add: map_update_where)
  ultimately show ?thesis using assms(1) rows ids unfolding wf_db_def by simp
qed

text \<open>The outcomes the program records.\<close>

definition recordable :: "status \<Rightarrow> bool" where
  "recordable st \<longleftrightarrow> st \<in> {StatusDone, StatusFailed, StatusIndeterminate}"

lemma Complete_keeps:
  assumes "Complete f pgs now a k st result ref detail d = (r, d')"
    and "wf_db pgs d" "intents_agree d" "recordable st"
  shows "wf_db pgs d' \<and> intents_agree d'"
proof -
  from assms(2) have dist: "distinct (map pk (idempotency_keys d))" "distinct (map w_intent_id (write_intents d))"
    by (simp_all add: wf_db_def)
  from assms(1) dist(1) show ?thesis
  proof (cases rule: Complete_effect)
    case unchanged
    with assms show ?thesis by simp
  next
    case (recorded row stored)
    have "intents_agree d'"
      unfolding intents_agree_def recorded(5) status_of_def
      using assms(3,4) recorded(1,2)
      by (auto simp: live_of_completes [OF assms(3) dist(2)] key_row_of_completes completed_row_def
          recordable_def intents_agree_def status_of_def)
    with completes_wf [OF assms(2) recorded(1,6)] recorded(5) show ?thesis by blast
  qed
qed

end
