(* ===== verification/Claim_Spec.thy ===== *)
theory Claim_Spec
  imports Claim_Laws
begin

text \<open>
  What the claim transaction promises. A key is a small state machine (\<open>key_step\<close>); the locale
  \<open>key_store\<close> is the contract of a table of keys whose every step moves its keys along that
  machine, with the facts its clients rely on, and the interpretation \<open>keys\<close> discharges it for
  \<open>Claim\<close> and \<open>Complete\<close>. The verdict of a claim is a function of the committed state
  (\<open>spec_verdict\<close>), and in enforcing mode the live intents of a resource never contain an
  incompatible pair inside the conflict window, except the serialized writes of one agent.
\<close>

section \<open>The life of a key\<close>

definition settled :: "status \<Rightarrow> bool" where
  "settled st \<longleftrightarrow> st \<in> {StatusDone, StatusIndeterminate, StatusRejected}"

definition same_key :: "key_row \<Rightarrow> key_row \<Rightarrow> bool" where
  "same_key r r' \<longleftrightarrow> pk r = pk r' \<and> k_request_hash r = k_request_hash r' \<and>
     k_created_at r = k_created_at r' \<and> k_operation r = k_operation r' \<and>
     k_resource_type r = k_resource_type r' \<and> k_resource_id r = k_resource_id r'"

text \<open>
  A key is inserted as pending or rejected, a pending one is completed, and a failed one is
  claimed again with the next attempt number, as pending or rejected.
\<close>

inductive key_step :: "key_row option \<Rightarrow> key_row option \<Rightarrow> bool" where
  stay: "key_step r r"
| insert: "k_status r \<in> {StatusPending, StatusRejected} \<Longrightarrow> k_attempt_count r = 1 \<Longrightarrow>
    key_step None (Some r)"
| complete: "k_status r = StatusPending \<Longrightarrow> recordable (k_status r') \<Longrightarrow> same_key r r' \<Longrightarrow>
    k_attempt_count r' = k_attempt_count r \<Longrightarrow> key_step (Some r) (Some r')"
| reclaim: "k_status r = StatusFailed \<Longrightarrow> k_status r' \<in> {StatusPending, StatusRejected} \<Longrightarrow>
    same_key r r' \<Longrightarrow> k_attempt_count r' = k_attempt_count r + 1 \<Longrightarrow> key_step (Some r) (Some r')"

inductive_cases key_step_SomeE: "key_step (Some r) x"

lemma key_step_settled: "key_step (Some r) x \<Longrightarrow> settled (k_status r) \<Longrightarrow> x = Some r"
  by (erule key_step_SomeE) (auto simp: settled_def)

lemma key_step_Some:
  "key_step (Some r) x \<Longrightarrow> \<exists>r'. x = Some r' \<and> same_key r r' \<and> k_attempt_count r \<le> k_attempt_count r'"
  by (erule key_step_SomeE) (auto simp: same_key_def)

lemma same_key_trans: "same_key r1 r2 \<Longrightarrow> same_key r2 r3 \<Longrightarrow> same_key r1 r3"
  by (simp add: same_key_def)

locale key_store =
  fixes row :: "'d \<Rightarrow> string \<Rightarrow> string \<Rightarrow> key_row option"
    and inv :: "'d \<Rightarrow> bool"
    and step :: "'d \<Rightarrow> 'd \<Rightarrow> bool"
  assumes inv_step: "inv d \<Longrightarrow> step d d' \<Longrightarrow> inv d'"
    and row_step: "inv d \<Longrightarrow> step d d' \<Longrightarrow> key_step (row d a k) (row d' a k)"
begin

lemma inv_steps: "step\<^sup>*\<^sup>* d d' \<Longrightarrow> inv d \<Longrightarrow> inv d'"
  by (induction rule: rtranclp_induct) (auto intro: inv_step)

lemma settled_steps:
  assumes "step\<^sup>*\<^sup>* d d'" "inv d" "row d a k = Some r" "settled (k_status r)"
  shows "row d' a k = Some r"
  using assms
proof (induction rule: rtranclp_induct)
  case (step y z)
  then have "inv y" using inv_steps by blast
  from row_step [OF this step(2)] step show ?case by (metis key_step_settled)
qed simp

lemma row_steps:
  assumes "step\<^sup>*\<^sup>* d d'" "inv d" "row d a k = Some r"
  shows "\<exists>r'. row d' a k = Some r' \<and> same_key r r' \<and> k_attempt_count r \<le> k_attempt_count r'"
  using assms
proof (induction rule: rtranclp_induct)
  case base
  then show ?case by (simp add: same_key_def)
next
  case (step y z)
  then obtain r1 where r1: "row y a k = Some r1" "same_key r r1" "k_attempt_count r \<le> k_attempt_count r1"
    by blast
  have "inv y" using inv_steps step by blast
  from key_step_Some [of r1] row_step [OF this step(2), of a k] r1(1) obtain r2 where
    "row z a k = Some r2" "same_key r1 r2" "k_attempt_count r1 \<le> k_attempt_count r2" by auto
  with r1 show ?case using same_key_trans by fastforce
qed

end

section \<open>The table of keys\<close>

inductive store_step :: "pg \<Rightarrow> db \<Rightarrow> db \<Rightarrow> bool" for pgs where
  claim: "Claim f pgs now req d = (r, d') \<Longrightarrow> store_step pgs d d'"
| complete: "Complete f pgs now a k st result ref detail d = (r, d') \<Longrightarrow> recordable st \<Longrightarrow>
    store_step pgs d d'"

definition db_inv :: "pg \<Rightarrow> db \<Rightarrow> bool" where
  "db_inv pgs d \<longleftrightarrow> wf_db pgs d \<and> intents_agree d \<and> inj (uuidv7 pgs)"

lemma db_inv_distinct: "db_inv pgs d \<Longrightarrow> distinct (map pk (idempotency_keys d))"
  by (simp add: db_inv_def wf_db_def)

lemma store_step_inv: "db_inv pgs d \<Longrightarrow> store_step pgs d d' \<Longrightarrow> db_inv pgs d'"
  by (erule store_step.cases) (auto simp: db_inv_def dest: Claim_keeps Complete_keeps)

lemma Claim_key_step:
  assumes "Claim f pgs now req d = (r, d')" "db_inv pgs d"
  shows "key_step (key_row_of d a k) (key_row_of d' a k)"
  using assms(1) db_inv_distinct [OF assms(2)]
proof (cases rule: Claim_effect)
  case unchanged
  then show ?thesis by (simp add: key_step.stay)
next
  case (claimed payload)
  then show ?thesis
    using key_row_of_cong [OF claimed(3)] key_row_of_with_intent [OF claimed(1)]
    by (auto simp: claimed_row_def claimable_def new_row_def reclaimed_def same_key_def pk_def
        intro!: key_step.intros split: option.splits)
next
  case (rejected payload stored detail)
  then show ?thesis
    using rejects_key_row [OF rejected(3)] key_row_of_with_intent [OF rejected(1)]
    by (auto simp: claimed_row_def claimable_def new_row_def reclaimed_def rejected_row_def
        same_key_def pk_def intro!: key_step.intros split: option.splits)
qed

lemma Complete_key_step:
  assumes "Complete f pgs now a k st result ref detail d = (r, d')" "db_inv pgs d" "recordable st"
  shows "key_step (key_row_of d b c) (key_row_of d' b c)"
  using assms(1) db_inv_distinct [OF assms(2)]
proof (cases rule: Complete_effect)
  case unchanged
  then show ?thesis by (simp add: key_step.stay)
next
  case (recorded row stored)
  with assms(3) show ?thesis
    by (auto simp: key_row_of_completes completed_row_def same_key_def pk_def
        intro: key_step.stay intro!: key_step.complete)
qed

lemma store_step_key_step:
  assumes "db_inv pgs d" "store_step pgs d d'"
  shows "key_step (key_row_of d a k) (key_row_of d' a k)"
  using assms(2)
proof cases
  case claim
  then show ?thesis using assms(1) by (rule Claim_key_step)
next
  case complete
  then show ?thesis using assms(1) by (metis Complete_key_step)
qed

interpretation keys: key_store key_row_of "db_inv pgs" "store_step pgs" for pgs
  by unfold_locales (auto intro: store_step_inv store_step_key_step)

section \<open>Properties of keys\<close>

definition pg0 :: pg where
  "pg0 = \<lparr>uuidv7 = (\<lambda>n. replicate n CHR ''0''), jsonb = Some\<rparr>"

definition req0 :: request where
  "req0 = \<lparr>req_AgentID = ''billing-agent'', req_Key = ''k1'', req_RequestHash = ''h1'',
     req_ResourceType = ''invoice'', req_ResourceID = ''inv-1'', req_Operation = ''set_memo'',
     req_Declared = \<lparr>op_Class = ''replace'', op_Scope = Some [''/memo'']\<rparr>, req_Payload = ''{}'',
     req_Window = 60, req_Enforce = True, req_ManifestVersion = ''v1'', req_LockTimeout = 5\<rparr>"

definition req1 :: request where
  "req1 = req0\<lparr>req_Key := ''k2'', req_RequestHash := ''h2''\<rparr>"

definition db1 :: db where
  "db1 = snd (Claim no_faults pg0 100 req0 empty_db)"

definition db2 :: db where
  "db2 = snd (Complete no_faults pg0 110 ''billing-agent'' ''k1'' StatusDone ''{}'' [] [] db1)"

lemma pg0_inv: "db_inv pg0 empty_db"
  by (simp add: db_inv_def wf_empty_db pg0_def inj_def)

lemma db1_step: "store_step pg0 empty_db db1"
  unfolding db1_def by (rule store_step.claim [OF prod.collapse [symmetric]])

lemma db2_step: "store_step pg0 db1 db2"
  unfolding db2_def
  by (rule store_step.complete [OF prod.collapse [symmetric]]) (simp add: recordable_def)

lemma example_inv: "db_inv pg0 db1" "db_inv pg0 db2"
  using keys.inv_step [OF pg0_inv db1_step] keys.inv_step [OF _ db2_step] by auto

text \<open>C8: The claim transaction keeps the invariant of the tables whatever fails in it: keys stay
  unique and satisfy the check constraints, intent identifiers stay unique, and a key has at most
  one live intent, none when its write is absent, failed or rejected. Every key moves at most one
  step of its life cycle.\<close>

theorem Claim_invariant:
  assumes "db_inv pgs d"
  shows "db_inv pgs (snd (Claim f pgs now req d)) \<and>
    key_step (key_row_of d a k) (key_row_of (snd (Claim f pgs now req d)) a k)"
proof -
  obtain r d' where c: "Claim f pgs now req d = (r, d')" by fastforce
  then have "store_step pgs d d'" by (rule store_step.claim)
  with assms c show ?thesis by (simp add: keys.inv_step keys.row_step)
qed

theorem Claim_invariant_witness:
  "db_inv pg0 db1 \<and> db_inv pg0 (snd (Claim no_faults pg0 120 req1 db1)) \<and>
   key_step (key_row_of db1 ''billing-agent'' ''k1'')
     (key_row_of (snd (Claim no_faults pg0 120 req1 db1)) ''billing-agent'' ''k1'')"
  using example_inv(1) Claim_invariant [OF example_inv(1)] by blast

text \<open>C7: Once a key is done, indeterminate or rejected, no sequence of claims and completions, of
  any key and with any faults, changes anything in its row: the status, the result, the result
  reference and the detail a retry is answered with are those first recorded.\<close>

theorem outcome_immutable:
  assumes "db_inv pgs d" "key_row_of d a k = Some r" "settled (k_status r)"
    and "(store_step pgs)\<^sup>*\<^sup>* d d'"
  shows "key_row_of d' a k = Some r"
  using keys.settled_steps [OF assms(4,1,2,3)] .

definition row2 :: key_row where
  "row2 = \<lparr>k_agent_id = ''billing-agent'', k_idempotency_key = ''k1'', k_request_hash = ''h1'',
     k_status = StatusDone, k_resource_type = ''invoice'', k_resource_id = ''inv-1'',
     k_operation = ''set_memo'', k_result = Some ''{}'', k_result_ref = None, k_outcome_detail = None,
     k_attempt_count = 1, k_created_at = 100, k_claimed_at = 100, k_completed_at = Some 110\<rparr>"

lemma db2_row: "key_row_of db2 ''billing-agent'' ''k1'' = Some row2"
  by code_simp

theorem outcome_immutable_witness:
  "key_row_of (snd (Claim no_faults pg0 120 req0 db2)) ''billing-agent'' ''k1'' = Some row2"
proof (rule outcome_immutable [OF example_inv(2) db2_row])
  show "settled (k_status row2)" by (simp add: settled_def row2_def)
  show "(store_step pg0)\<^sup>*\<^sup>* db2 (snd (Claim no_faults pg0 120 req0 db2))"
    by (intro r_into_rtranclp store_step.claim [OF prod.collapse [symmetric]])
qed

text \<open>C12: A transaction that fails before its commit, and one whose verdict is existing, mismatch,
  serialize or lock timeout, leaves every table as it was.\<close>

theorem Claim_rolls_back:
  assumes "db_inv pgs d" and "Claim f pgs now req d = (r, d')"
    and "case r of Inl e \<Rightarrow> e \<noteq> CommitError
         | Inr result \<Rightarrow> res_Verdict result \<notin> {VerdictClaimed, VerdictRejected}"
  shows "d' = d"
  using assms(2) db_inv_distinct [OF assms(1)]
proof (cases rule: Claim_effect)
  case unchanged
  then show ?thesis by blast
next
  case claimed
  from claimed(6,7) assms(3) show ?thesis by (cases r) auto
next
  case rejected
  from rejected(4,5) assms(3) show ?thesis by (cases r) auto
qed

theorem Claim_rolls_back_witness:
  "snd (Claim no_faults pg0 120 req1 db1) = db1"
proof (rule Claim_rolls_back [OF example_inv(1) prod.collapse [symmetric]])
  show "case fst (Claim no_faults pg0 120 req1 db1) of Inl e \<Rightarrow> e \<noteq> CommitError
    | Inr result \<Rightarrow> res_Verdict result \<notin> {VerdictClaimed, VerdictRejected}"
    by code_simp
qed

section \<open>The verdict as a function of the committed state\<close>

text \<open>The intents a request meets: live, on its resource, inside its window, incompatible.\<close>

definition meets :: "time \<Rightarrow> request \<Rightarrow> db \<Rightarrow> intent_row set" where
  "meets now req d = {w \<in> set (write_intents d). live w \<and>
     w_resource_type w = req_ResourceType req \<and> w_resource_id w = req_ResourceID req \<and>
     w_emitted_at w > now - req_Window req \<and>
     \<not> Compatible (req_Declared req) \<lparr>op_Class = w_operation_class w, op_Scope = w_scope_selector w\<rparr>}"

definition fresh_verdict :: "time \<Rightarrow> request \<Rightarrow> db \<Rightarrow> verdict" where
  "fresh_verdict now req d =
     (if \<not> req_Enforce req \<or> meets now req d = {} then VerdictClaimed
      else if \<exists>w \<in> meets now req d. w_agent_id w \<noteq> req_AgentID req then VerdictRejected
      else if \<exists>w \<in> meets now req d. status_of d (req_AgentID req) (w_idempotency_key w) = Some StatusPending
      then VerdictSerialize
      else VerdictClaimed)"

definition spec_verdict :: "time \<Rightarrow> request \<Rightarrow> db \<Rightarrow> verdict" where
  "spec_verdict now req d =
     (case key_row_of d (req_AgentID req) (req_Key req) of
        None \<Rightarrow> fresh_verdict now req d
      | Some r \<Rightarrow>
          if k_request_hash r \<noteq> req_RequestHash req then VerdictMismatch
          else if k_status r \<noteq> StatusFailed then VerdictExisting
          else fresh_verdict now req d)"

text \<open>Keys are never empty: the write handler refuses a request without one.\<close>

definition keyed :: "db \<Rightarrow> bool" where
  "keyed d \<longleftrightarrow> (\<forall>w \<in> set (write_intents d). w_idempotency_key w \<noteq> [])"

lemma rivals_meets:
  assumes "db_inv pgs d"
  shows "set (rivals now req (uuidv7 pgs (uuids_used d)) (with_intent pgs now req payload d)) =
    candidate_of ` meets now req d"
proof -
  have fresh: "w_intent_id w \<noteq> uuidv7 pgs (uuids_used d)" if "w \<in> set (write_intents d)" for w
    using that assms by (fastforce simp: db_inv_def wf_db_def dest: injD)
  have "{w \<in> set (write_intents (with_intent pgs now req payload d)).
      in_window now req (uuidv7 pgs (uuids_used d)) w \<and>
      \<not> Compatible (req_Declared req) \<lparr>op_Class = w_operation_class w, op_Scope = w_scope_selector w\<rparr>} =
    meets now req d"
    using fresh by (auto simp: meets_def in_window_def live_def with_intent_def new_intent_def)
  then show ?thesis by (simp only: set_rivals)
qed

lemma candidate_of_sel [simp]:
  "i_id (candidate_of w) = w_intent_id w" "i_agentID (candidate_of w) = w_agent_id w"
  "i_key (candidate_of w) = w_idempotency_key w"
  by (simp_all add: candidate_of_def)

lemma in_flight_status:
  assumes "distinct (map pk (idempotency_keys d))"
  shows "in_flight a k d \<longleftrightarrow> status_of d a k = Some StatusPending"
proof
  assume "in_flight a k d"
  then obtain r where "r \<in> set (idempotency_keys d)" "key_is a k r" "k_status r = StatusPending"
    by (auto simp: in_flight_def)
  with key_row_of_unique [OF assms] show "status_of d a k = Some StatusPending"
    by (fastforce simp: status_of_def key_is_def)
next
  assume "status_of d a k = Some StatusPending"
  then show "in_flight a k d"
    by (fastforce simp: status_of_def in_flight_def key_is_def dest: key_row_of_Some)
qed

text \<open>A live intent belongs to another key, whose row the claim does not touch.\<close>

lemma live_other_key:
  assumes "db_inv pgs d" "claimable req d" "w \<in> set (write_intents d)" "live w"
  shows "(w_agent_id w, w_idempotency_key w) \<noteq> own req"
proof
  assume "(w_agent_id w, w_idempotency_key w) = own req"
  with assms(3,4) have "w \<in> set (live_of d (req_AgentID req) (req_Key req))"
    by (simp add: live_of_def)
  moreover have "status_of d (req_AgentID req) (req_Key req) \<in> {None, Some StatusFailed}"
    using assms(2) by (auto simp: claimable_def status_of_def split: option.splits)
  then have "live_of d (req_AgentID req) (req_Key req) = []"
    using assms(1) unfolding db_inv_def intents_agree_def by blast
  ultimately show False by simp
qed

lemma meets_other_key:
  assumes "db_inv pgs d" "claimable req d" "w \<in> meets now req d" "w_agent_id w = req_AgentID req"
  shows "w_idempotency_key w \<noteq> req_Key req \<and>
    in_flight (req_AgentID req) (w_idempotency_key w) (with_intent pgs now req payload d) =
      (status_of d (req_AgentID req) (w_idempotency_key w) = Some StatusPending)"
proof -
  have other: "w_idempotency_key w \<noteq> req_Key req"
    using live_other_key [OF assms(1,2), of w] assms(3,4) by (simp add: meets_def)
  have "wf_db pgs (with_intent pgs now req payload d)"
    using assms(1,2) by (intro wf_with_intent) (simp_all add: db_inv_def)
  then have "distinct (map pk (idempotency_keys (with_intent pgs now req payload d)))"
    unfolding wf_db_def by blast
  then have "in_flight (req_AgentID req) (w_idempotency_key w) (with_intent pgs now req payload d) =
      (status_of (with_intent pgs now req payload d) (req_AgentID req) (w_idempotency_key w) = Some StatusPending)"
    by (rule in_flight_status)
  with other show ?thesis by (simp add: status_of_def key_row_of_with_intent [OF assms(2)])
qed

lemma resolveConflicts_verdict:
  assumes "db_inv pgs d" "claimable req d" "keyed d"
    and "resolveConflicts f pgs now req (uuidv7 pgs (uuids_used d)) now (with_intent pgs now req payload d) = Inr (out, d')"
  shows "o_Verdict out = fresh_verdict now req d"
proof -
  let ?d1 = "with_intent pgs now req payload d"
  let ?cs = "rivals now req (uuidv7 pgs (uuids_used d)) ?d1"
  have cs: "set ?cs = candidate_of ` meets now req d" by (rule rivals_meets [OF assms(1)])
  have nil: "?cs = [] \<longleftrightarrow> meets now req d = {}" using cs by (metis image_is_empty set_empty)
  have agents: "(\<forall>c \<in> set ?cs. i_agentID c = req_AgentID req) \<longleftrightarrow>
      (\<forall>w \<in> meets now req d. w_agent_id w = req_AgentID req)"
    by (simp add: cs)
  have others: "filter (foreign req) ?cs \<noteq> [] \<longleftrightarrow> (\<exists>w \<in> meets now req d. w_agent_id w \<noteq> req_AgentID req)"
    by (simp add: filter_empty_conv cs)
  note flight = meets_other_key [OF assms(1,2)]
  from assms(4) show ?thesis
  proof (cases rule: resolveConflicts_cases)
    case (serialize key)
    then obtain w where w: "w \<in> meets now req d" "key = w_idempotency_key w" "w_agent_id w = req_AgentID req"
      using cs agents by auto
    with flight [OF w(1)] serialize have "status_of d (req_AgentID req) (w_idempotency_key w) = Some StatusPending"
      by simp
    with serialize w agents nil show ?thesis by (auto simp: fresh_verdict_def plain_outcome_def)
  next
    case (serialized p)
    have "status_of d (req_AgentID req) (w_idempotency_key w) \<noteq> Some StatusPending"
      if "w \<in> meets now req d" for w
      using serialized(3) that flight [OF that] assms(3) by (auto simp: cs keyed_def meets_def)
    with serialized agents nil show ?thesis by (auto simp: fresh_verdict_def plain_outcome_def)
  next
    case rejected
    with reject_Inr [OF rejected(3)] others show ?thesis by (auto simp: fresh_verdict_def)
  qed (use nil in \<open>simp_all add: fresh_verdict_def plain_outcome_def\<close>)
qed

lemma claimable_verdict: "claimable req d \<Longrightarrow> spec_verdict now req d = fresh_verdict now req d"
  by (auto simp: claimable_def spec_verdict_def split: option.splits)

lemma Claim_spec_verdict:
  assumes "db_inv pgs d" "keyed d" "f_lock f = Locked"
    and "Claim f pgs now req d = (Inr result, d')"
  shows "res_Verdict result = spec_verdict now req d"
  using assms(4) db_inv_distinct [OF assms(1)]
proof (cases rule: Claim_cases)
  case (serialize payload out result' d3)
  with resolveConflicts_verdict [OF assms(1) serialize(1) assms(2) serialize(6)]
  show ?thesis by (auto simp: claimable_verdict)
next
  case (committed payload out result0)
  with resolveConflicts_verdict [OF assms(1) committed(1) assms(2) committed(3)]
  show ?thesis by (auto simp: with_outcome_def Let_def claimable_verdict)
qed (use assms(3) in \<open>auto simp: spec_verdict_def\<close>)

text \<open>C6: Whenever a claim that holds the advisory lock returns a verdict, it is the one the
  committed state determines: mismatch for a key used with another payload, existing for a key
  not failed, and for a fresh or failed key: claimed when no live intent of the window is
  incompatible or the resource type only observes; rejected when another agent has such an
  intent; serialize when one of the agent's own is still pending; claimed otherwise. A claim
  never waits for its own key.\<close>

theorem Claim_verdict:
  assumes "db_inv pgs d" "keyed d" "f_lock f = Locked"
    and "Claim f pgs now req d = (Inr result, d')"
  shows "res_Verdict result = spec_verdict now req d \<and>
    (res_Verdict result = VerdictSerialize \<longrightarrow>
       blk_AgentID (res_Blocking result) = req_AgentID req \<and>
       blk_Key (res_Blocking result) \<noteq> req_Key req \<and>
       status_of d (req_AgentID req) (blk_Key (res_Blocking result)) = Some StatusPending)"
proof (rule conjI [OF Claim_spec_verdict [OF assms]], rule impI)
  assume ser: "res_Verdict result = VerdictSerialize"
  show "blk_AgentID (res_Blocking result) = req_AgentID req \<and>
    blk_Key (res_Blocking result) \<noteq> req_Key req \<and>
    status_of d (req_AgentID req) (blk_Key (res_Blocking result)) = Some StatusPending"
    using assms(4) db_inv_distinct [OF assms(1)]
  proof (cases rule: Claim_cases)
    case (serialize payload out result' d3)
    from serialize(6) obtain key where key:
      "\<forall>c \<in> set (rivals now req (uuidv7 pgs (uuids_used d)) (with_intent pgs now req payload d)). i_agentID c = req_AgentID req"
      "key \<in> i_key ` set (rivals now req (uuidv7 pgs (uuids_used d)) (with_intent pgs now req payload d))"
      "in_flight (req_AgentID req) key (with_intent pgs now req payload d)"
      "o_Blocking out = \<lparr>blk_AgentID = req_AgentID req, blk_Key = key\<rparr>"
      by (cases rule: resolveConflicts_cases) (use serialize(7) reject_Inr in \<open>fastforce simp: plain_outcome_def\<close>)+
    then obtain w where "w \<in> meets now req d" "key = w_idempotency_key w" "w_agent_id w = req_AgentID req"
      by (auto simp: rivals_meets [OF assms(1)])
    with meets_other_key [OF assms(1) serialize(1)] key(3,4) serialize
    show ?thesis by auto
  qed (use ser in \<open>auto simp: with_outcome_def Let_def split: if_splits\<close>)
qed

theorem Claim_verdict_witness:
  "\<exists>result d'. Claim no_faults pg0 120 req1 db1 = (Inr result, d') \<and>
     res_Verdict result = VerdictSerialize \<and> spec_verdict 120 req1 db1 = VerdictSerialize \<and>
     blk_Key (res_Blocking result) = ''k1''"
proof -
  have run: "Claim no_faults pg0 120 req1 db1 =
      (Inr (projr (fst (Claim no_faults pg0 120 req1 db1))), db1)"
    by code_simp
  have ser: "res_Verdict (projr (fst (Claim no_faults pg0 120 req1 db1))) = VerdictSerialize \<and>
      blk_Key (res_Blocking (projr (fst (Claim no_faults pg0 120 req1 db1)))) = ''k1''"
    by code_simp
  have "keyed db1" "f_lock no_faults = Locked" by code_simp+
  from Claim_verdict [OF example_inv(1) this run] run ser show ?thesis by metis
qed

section \<open>Claims return\<close>

definition healthy :: "faults \<Rightarrow> bool" where
  "healthy f \<longleftrightarrow> \<not> f_begin f \<and> f_lock f = Locked \<and> (\<forall>s. \<not> f_stmt f s) \<and> f_commit f = Committed"

lemma healthy_stmt: "healthy f \<Longrightarrow> run_stmt f s x = x"
  by (simp add: healthy_def run_stmt_def)

lemma recordConflicts_returns:
  assumes "healthy f"
  shows "\<exists>p d'. recordConflicts f pgs now req iid cs resn d = Inr (p, d')"
proof -
  have "\<exists>p d'. insert_conflicts f pgs now req iid resn xs q d = Inr (p, d')" for xs q d
    by (induction xs arbitrary: q d) (simp_all add: healthy_stmt [OF assms] fresh_uuid_def Let_def)
  then show ?thesis by (simp add: recordConflicts_def)
qed

lemma insert_conflicts_primary:
  assumes "insert_conflicts f pgs now req iid resn cs q d = Inr (p, d')" "cs \<noteq> [] \<and> q = [] \<or> q \<in> range (uuidv7 pgs)"
  shows "p \<in> range (uuidv7 pgs)"
  using assms
  by (induction cs arbitrary: q d)
     (auto simp: run_stmt_def fresh_uuid_def Let_def split: if_splits)

lemma recordConflicts_primary:
  assumes "recordConflicts f pgs now req iid cs resn d = Inr (p, d')" "cs \<noteq> []"
  obtains n where "p = uuidv7 pgs n"
  using insert_conflicts_primary [OF assms(1) [unfolded recordConflicts_def]] assms(2)
  by (auto simp: maxRecordedConflicts_def)

text \<open>
  A claim stores one document besides the payload: the body of a refusal, which names an intent of the
  window, the operations and the resource, and an identifier Postgres generates. \<open>jsonb\<close> refuses a
  document with an escaped NUL, so what is asked of Postgres is that it takes the bodies this claim may
  have to store.
\<close>

definition refusal_body :: "request \<Rightarrow> candidate \<Rightarrow> string \<Rightarrow> bytes" where
  "refusal_body req c conflictID = marshal (rejection_body req (rejection_detail req c) c conflictID)"

definition takes_refusals :: "pg \<Rightarrow> time \<Rightarrow> request \<Rightarrow> db \<Rightarrow> bool" where
  "takes_refusals pgs now req d \<longleftrightarrow>
     (\<forall>w \<in> meets now req d. \<forall>n. w_agent_id w \<noteq> req_AgentID req \<longrightarrow>
        jsonb pgs (refusal_body req (candidate_of w) (uuidv7 pgs n)) \<noteq> None)"

lemma reject_returns:
  assumes "healthy f" "\<And>n. jsonb pgs (refusal_body req (hd others) (uuidv7 pgs n)) \<noteq> None" "all \<noteq> []"
    and "key_row_of d (req_AgentID req) (req_Key req) = Some r" "k_result_ref r = None"
  shows "\<exists>x. reject f pgs now req iid em others all d = Inr x"
proof -
  obtain p d1 where rc: "recordConflicts f pgs now req iid all ResolutionRejected d = Inr (p, d1)"
    using recordConflicts_returns [OF assms(1)] by blast
  then have row: "List.find (mine req) (idempotency_keys d1) = Some r"
    using recordConflicts_keys [OF rc] assms(4) by (simp add: key_row_of_def)
  obtain stored where "jsonb pgs (marshal (rejection_body req (rejection_detail req (hd others)) (hd others) p)) = Some stored"
    using recordConflicts_primary [OF rc assms(3)] assms(2) unfolding refusal_body_def by (metis option.exhaust)
  moreover have "checks (rejected_row now stored detail r)" for detail
    using assms(5) by (simp add: checks_def rejected_row_def)
  ultimately show ?thesis
    by (simp add: reject_def and_then_def rc row healthy_stmt [OF assms(1)] Let_def)
qed

lemma resolveConflicts_returns:
  assumes "healthy f" "\<And>c n. c \<in> set (rivals now req iid d) \<Longrightarrow> foreign req c \<Longrightarrow>
      jsonb pgs (refusal_body req c (uuidv7 pgs n)) \<noteq> None"
    and "key_row_of d (req_AgentID req) (req_Key req) = Some r" "k_result_ref r = None"
  shows "\<exists>out d'. resolveConflicts f pgs now req iid em d = Inr (out, d')"
proof -
  let ?cs = "rivals now req iid d"
  have cs: "conflictingIntents f now req iid d = Inr ?cs"
    using assms(1) by (simp add: conflictingIntents_rivals healthy_def)
  obtain key where key: "firstPending f (req_AgentID req) (filter (\<lambda>c. i_agentID c = req_AgentID req) ?cs) d = Inr key"
    by (simp add: firstPending_def healthy_stmt [OF assms(1)] Let_def)
  note recorded = recordConflicts_returns [OF assms(1), of pgs now req iid _ _ d]
  obtain p1 d1 p2 d2 where
    "recordConflicts f pgs now req iid ?cs ResolutionObserved d = Inr (p1, d1)"
    "recordConflicts f pgs now req iid (filter (\<lambda>c. i_agentID c = req_AgentID req) ?cs) ResolutionSerialized d = Inr (p2, d2)"
    using recorded by metis
  moreover have "\<exists>x. reject f pgs now req iid em (filter (foreign req) ?cs) ?cs d = Inr x" if "filter (foreign req) ?cs \<noteq> []"
  proof -
    have "hd (filter (foreign req) ?cs) \<in> set ?cs" "foreign req (hd (filter (foreign req) ?cs))"
      using hd_in_set [OF that] by auto
    with reject_returns [OF assms(1) _ _ assms(3,4)] assms(2) that show ?thesis by (metis filter.simps(1))
  qed
  ultimately show ?thesis
    using key by (auto simp: resolveConflicts_def and_then_def cs Let_def)
qed

lemma Claim_returns:
  assumes "db_inv pgs d" "healthy f" "op_Class (req_Declared req) \<in> set classes"
    and "jsonb pgs (req_Payload req) \<noteq> None" "takes_refusals pgs now req d"
  shows "\<exists>result d'. Claim f pgs now req d = (Inr result, d')"
proof (cases "claimKey f now req d")
  case (Inl e)
  with assms(2) show ?thesis
    by (auto simp: claimKey_def insertClaim_def readRecord_def reclaim_def and_then_def healthy_stmt Let_def
        split: option.splits if_splits)
next
  case (Inr x)
  then obtain res0 fresh d1 where ck: "claimKey f now req d = Inr (res0, fresh, d1)" by (cases x) auto
  show ?thesis
  proof (cases fresh)
    case False
    with ck assms(2) show ?thesis by (simp add: Claim_def healthy_def)
  next
    case True
    with ck claimKey_fresh db_inv_distinct [OF assms(1)] have
      c: "claimable req d" and d1: "d1 = d\<lparr>idempotency_keys := claimed_keys now req d\<rparr>" by auto
    obtain payload where pl: "jsonb pgs (req_Payload req) = Some payload" using assms(4) by blast
    have ri: "recordIntent f pgs now req d1 =
        Inr (uuidv7 pgs (uuids_used d), now, with_intent pgs now req payload d)"
      using assms(2,3) pl
      by (simp add: recordIntent_def healthy_stmt d1 with_intent_def new_intent_def fresh_uuid_def)
    have row: "key_row_of (with_intent pgs now req payload d) (req_AgentID req) (req_Key req) =
        Some (claimed_row now req d)"
      by (simp add: key_row_of_with_intent [OF c])
    have "jsonb pgs (refusal_body req x (uuidv7 pgs n)) \<noteq> None"
      if "x \<in> set (rivals now req (uuidv7 pgs (uuids_used d)) (with_intent pgs now req payload d))" "foreign req x" for x n
      using that assms(5) unfolding rivals_meets [OF assms(1)] takes_refusals_def by auto
    from resolveConflicts_returns [OF assms(2) this row claimed_row_pending(4)] obtain out d3 where
      "resolveConflicts f pgs now req (uuidv7 pgs (uuids_used d)) now (with_intent pgs now req payload d) = Inr (out, d3)"
      by blast
    with ck True ri assms(2) show ?thesis by (auto simp: Claim_def healthy_def Let_def)
  qed
qed

text \<open>C9: A claim of a declared operation class returns, in every state of the tables, and its verdict is
  the specified one, when Postgres is reachable and takes as JSON the payload of the request and the bodies
  this claim may have to store: those of a refusal in favour of an intent of another agent in the window
  (\<open>takes_refusals\<close>). In the witness a Postgres that refuses every document with an escape in it takes
  them, and the claim is refused.\<close>

theorem Claim_decides:
  assumes "db_inv pgs d" "keyed d" "healthy f" "op_Class (req_Declared req) \<in> set classes"
    and "jsonb pgs (req_Payload req) \<noteq> None" "takes_refusals pgs now req d"
  shows "\<exists>result d'. Claim f pgs now req d = (Inr result, d') \<and> res_Verdict result = spec_verdict now req d"
proof -
  obtain result d' where run: "Claim f pgs now req d = (Inr result, d')"
    using Claim_returns [OF assms(1,3-6)] by blast
  with Claim_spec_verdict [OF assms(1,2) _ run] assms(3) show ?thesis by (auto simp: healthy_def)
qed

definition strict_pg :: pg where
  "strict_pg = pg0\<lparr>jsonb := \<lambda>doc. if list_ex (\<lambda>c. c = backslash) doc then None else Some doc\<rparr>"

definition req2 :: request where
  "req2 = req0\<lparr>req_AgentID := ''support-agent'', req_Key := ''k3'', req_RequestHash := ''h3''\<rparr>"

lemma escape_zeros: "escape (replicate n CHR ''0'') = replicate n CHR ''0''"
proof (induction n)
  case (Suc n)
  have "escape_char CHR ''0'' = [CHR ''0'']" "between 0 127 CHR ''0''" by code_simp+
  with Suc show ?case by (simp add: escape.simps [of "CHR ''0'' # replicate n CHR ''0''"])
qed code_simp

definition plain :: "string \<Rightarrow> bool" where
  "plain s \<longleftrightarrow> \<not> list_ex (\<lambda>c. c = backslash) s"

lemma plain_simps: "plain []" "plain (c # s) \<longleftrightarrow> c \<noteq> backslash \<and> plain s" "plain (s @ t) \<longleftrightarrow> plain s \<and> plain t"
  by (simp_all add: plain_def)

lemma plain_Join: "plain sep \<Longrightarrow> list_all plain xs \<Longrightarrow> plain (Join xs sep)"
  by (induction xs sep rule: Join.induct) (auto simp: plain_simps)

lemma plain_object:
  "list_all (\<lambda>(k, v). plain (quote_json k) \<and> plain (marshal v)) fs \<Longrightarrow> plain (marshal (JObject fs))"
proof -
  assume "list_all (\<lambda>(k, v). plain (quote_json k) \<and> plain (marshal v)) fs"
  then have "list_all plain (map (\<lambda>(k, v). quote_json k @ '':'' @ v) (sort_key fst (map (\<lambda>(k, v). (k, marshal v)) fs)))"
    by (fastforce simp: list_all_iff plain_simps)
  then show ?thesis by (simp add: plain_simps plain_Join)
qed

definition strict_db :: db where
  "strict_db = snd (Claim no_faults strict_pg 100 req0 empty_db)"

lemma strict_db_inv: "db_inv strict_pg strict_db"
proof -
  have "db_inv strict_pg empty_db" by (simp add: db_inv_def wf_empty_db strict_pg_def pg0_def inj_def)
  then show ?thesis unfolding strict_db_def by (rule store_step_inv) (rule store_step.claim [OF prod.collapse [symmetric]])
qed

lemma strict_takes: "takes_refusals strict_pg 120 req2 strict_db"
proof -
  have "plain (refusal_body req2 (candidate_of w) (uuidv7 strict_pg n))" if "w \<in> set (write_intents strict_db)" for w n
  proof -
    have "list_all (\<lambda>w. plain (escape (rejection_detail req2 (candidate_of w))) \<and> plain (escape (w_intent_id w))) (write_intents strict_db)"
      by code_simp
    with that have "plain (escape (rejection_detail req2 (candidate_of w)))" "plain (escape (w_intent_id w))"
      by (auto simp: list_all_iff)
    moreover have "plain (escape (uuidv7 strict_pg n))"
      by (simp add: strict_pg_def pg0_def escape_zeros plain_def list_ex_iff)
    moreover have "list_all plain (map quote_json [''idempotency_key'', ''status'', ''reason'', ''detail'', ''conflicting_intent_id'',
        ''conflict_id'', req_Key req2, status_text StatusRejected, ''conflicting_write''])" "plain [dquote]" by code_simp+
    ultimately show ?thesis
      unfolding refusal_body_def rejection_body_def by (intro plain_object) (simp add: quote_json_def plain_simps)
  qed
  then show ?thesis by (auto simp: takes_refusals_def meets_def strict_pg_def plain_def)
qed

theorem Claim_decides_witness:
  "\<exists>result d'. Claim no_faults strict_pg 120 req2 strict_db = (Inr result, d') \<and> res_Verdict result = VerdictRejected"
proof -
  have "keyed strict_db" "op_Class (req_Declared req2) \<in> set classes" "jsonb strict_pg (req_Payload req2) \<noteq> None" by code_simp+
  moreover have "healthy no_faults" by (simp add: healthy_def no_faults_def)
  moreover have "key_row_of strict_db (req_AgentID req2) (req_Key req2) = None" "req_Enforce req2" by code_simp+
  moreover have "\<exists>w \<in> set (write_intents strict_db). live w \<and>
      w_resource_type w = req_ResourceType req2 \<and> w_resource_id w = req_ResourceID req2 \<and>
      w_emitted_at w > 120 - req_Window req2 \<and> w_agent_id w \<noteq> req_AgentID req2 \<and>
      \<not> Compatible (req_Declared req2) \<lparr>op_Class = w_operation_class w, op_Scope = w_scope_selector w\<rparr>"
    by code_simp
  ultimately have "spec_verdict 120 req2 strict_db = VerdictRejected"
    by (auto simp: spec_verdict_def fresh_verdict_def meets_def)
  with Claim_decides [OF strict_db_inv \<open>keyed strict_db\<close> \<open>healthy no_faults\<close> _ _ strict_takes] \<open>op_Class _ \<in> _\<close> \<open>jsonb _ _ \<noteq> None\<close>
  show ?thesis by metis
qed

section \<open>Mutual exclusion inside the window\<close>

text \<open>
  The states of an enforcing deployment: every claim enforces, with a key, and takes the window of
  its resource type from one table \<open>W\<close>; completions record outcomes. Any operation may fail.
\<close>

inductive enforced :: "pg \<Rightarrow> (string \<Rightarrow> duration) \<Rightarrow> db \<Rightarrow> bool" for pgs W where
  start: "enforced pgs W empty_db"
| claim: "enforced pgs W d \<Longrightarrow> Claim f pgs now req d = (r, d') \<Longrightarrow> req_Enforce req \<Longrightarrow>
    req_Window req = W (req_ResourceType req) \<Longrightarrow> req_Key req \<noteq> [] \<Longrightarrow> enforced pgs W d'"
| complete: "enforced pgs W d \<Longrightarrow> Complete f pgs now a k st result ref detail d = (r, d') \<Longrightarrow>
    recordable st \<Longrightarrow> enforced pgs W d'"

definition declared_op :: "intent_row \<Rightarrow> operation" where
  "declared_op w = \<lparr>op_Class = w_operation_class w, op_Scope = w_scope_selector w\<rparr>"

text \<open>Two intents that must not both take effect in one window.\<close>

definition clash :: "(string \<Rightarrow> duration) \<Rightarrow> intent_row \<Rightarrow> intent_row \<Rightarrow> bool" where
  "clash W v w \<longleftrightarrow>
     w_resource_type v = w_resource_type w \<and> w_resource_id v = w_resource_id w \<and>
     \<bar>w_emitted_at v - w_emitted_at w\<bar> < W (w_resource_type w) \<and>
     \<not> Compatible (declared_op v) (declared_op w)"

lemma clash_sym: "clash W v w \<longleftrightarrow> clash W w v"
  using Compatible_sym by (auto simp: clash_def abs_minus_commute)

definition pending_intent :: "db \<Rightarrow> intent_row \<Rightarrow> bool" where
  "pending_intent d w \<longleftrightarrow> status_of d (w_agent_id w) (w_idempotency_key w) = Some StatusPending"

definition exclusive_pair :: "(string \<Rightarrow> duration) \<Rightarrow> db \<Rightarrow> intent_row \<Rightarrow> intent_row \<Rightarrow> bool" where
  "exclusive_pair W d v w \<longleftrightarrow> (live v \<and> live w \<and> w_intent_id v \<noteq> w_intent_id w \<and> clash W v w \<longrightarrow>
     w_agent_id v = w_agent_id w \<and> \<not> (pending_intent d v \<and> pending_intent d w))"

lemma exclusive_pair_sym: "exclusive_pair W d v w \<longleftrightarrow> exclusive_pair W d w v"
  using clash_sym by (auto simp: exclusive_pair_def)

definition excluded :: "(string \<Rightarrow> duration) \<Rightarrow> db \<Rightarrow> bool" where
  "excluded W d \<longleftrightarrow> (\<forall>v \<in> set (write_intents d). \<forall>w \<in> set (write_intents d). exclusive_pair W d v w)"

text \<open>A state whose intents are old ones, live only if they were, and pending only if they were.\<close>

lemma excluded_weaken:
  assumes "excluded W d"
    and "\<And>w. w \<in> set (write_intents d') \<Longrightarrow> live w \<Longrightarrow> w \<in> set (write_intents d) \<and> (pending_intent d' w \<longrightarrow> pending_intent d w)"
  shows "excluded W d'"
  using assms unfolding excluded_def exclusive_pair_def by metis

lemma excluded_new_intent:
  assumes "db_inv pgs d" "excluded W d" "claimable req d" "fresh_verdict now req d = VerdictClaimed"
    and "req_Enforce req" "req_Window req = W (req_ResourceType req)"
    and "idempotency_keys d' = idempotency_keys (with_intent pgs now req payload d)"
    and "write_intents d' = write_intents (with_intent pgs now req payload d)"
  shows "excluded W d'"
proof -
  let ?new = "new_intent (uuidv7 pgs (uuids_used d)) now req payload"
  have pend: "pending_intent d' w = pending_intent d w" if "w \<in> set (write_intents d)" "live w" for w
    using live_other_key [OF assms(1,3) that] key_row_of_cong [OF assms(7)]
    by (auto simp: pending_intent_def status_of_def key_row_of_with_intent [OF assms(3)])
  have old: "exclusive_pair W d' v w" if "v \<in> set (write_intents d)" "w \<in> set (write_intents d)" for v w
    using assms(2) that pend unfolding excluded_def exclusive_pair_def by metis
  have new: "exclusive_pair W d' w ?new" if "w \<in> set (write_intents d)" for w
    unfolding exclusive_pair_def
  proof
    assume c: "live w \<and> live ?new \<and> w_intent_id w \<noteq> w_intent_id ?new \<and> clash W w ?new"
    have "declared_op ?new = req_Declared req" by (simp add: declared_op_def new_intent_def)
    with c have "\<not> Compatible (req_Declared req) (declared_op w)"
      using Compatible_sym unfolding clash_def by metis
    with c have "w \<in> meets now req d"
      using that assms(6) by (auto simp: meets_def clash_def new_intent_def declared_op_def)
    with assms(4,5) have "w_agent_id w = req_AgentID req" "\<not> pending_intent d w"
      by (auto simp: fresh_verdict_def pending_intent_def split: if_splits)
    with pend [OF that] c show "w_agent_id w = w_agent_id ?new \<and> \<not> (pending_intent d' w \<and> pending_intent d' ?new)"
      by (simp add: new_intent_def)
  qed
  have "exclusive_pair W d' ?new ?new" by (simp add: exclusive_pair_def)
  with old new exclusive_pair_sym show ?thesis
    by (auto simp: excluded_def assms(8) with_intent_def)
qed

lemma excluded_rejected:
  assumes "db_inv pgs d" "excluded W d" "claimable req d"
    and "rejects now req (uuidv7 pgs (uuids_used d)) now stored detail (with_intent pgs now req payload d) d'"
  shows "excluded W d'"
  using assms(2)
proof (rule excluded_weaken)
  fix w
  assume w: "w \<in> set (write_intents d')" "live w"
  with assms(4) have old: "w \<in> set (write_intents d)"
    by (auto simp: rejects_def set_update_where with_intent_def new_intent_def live_def)
  with live_other_key [OF assms(1,3) this w(2)] rejects_key_row [OF assms(4)] show
    "w \<in> set (write_intents d) \<and> (pending_intent d' w \<longrightarrow> pending_intent d w)"
    by (auto simp: pending_intent_def status_of_def key_row_of_with_intent [OF assms(3)])
qed

lemma excluded_Claim:
  assumes "db_inv pgs d" "keyed d" "excluded W d" "Claim f pgs now req d = (r, d')"
    and "req_Enforce req" "req_Window req = W (req_ResourceType req)"
  shows "excluded W d'"
  using assms(4) db_inv_distinct [OF assms(1)]
proof (cases rule: Claim_cases)
  case (committed payload out result0)
  note frame = resolveConflicts_frame [OF committed(3)]
  show ?thesis
  proof (cases "o_Verdict out = VerdictRejected")
    case True
    with frame excluded_rejected [OF assms(1,3) committed(1)] show ?thesis by auto
  next
    case False
    with committed(4) frame excluded_new_intent [OF assms(1,3) committed(1) _ assms(5,6)]
      resolveConflicts_verdict [OF assms(1) committed(1) assms(2) committed(3)]
    show ?thesis by auto
  qed
qed (use assms(3) in simp_all)

lemma excluded_Complete:
  assumes "db_inv pgs d" "excluded W d" "Complete f pgs now a k st result ref detail d = (r, d')"
    and "recordable st"
  shows "excluded W d'"
  using assms(3) db_inv_distinct [OF assms(1)]
proof (cases rule: Complete_effect)
  case (recorded row stored)
  from assms(2) show ?thesis
  proof (rule excluded_weaken)
    fix w
    assume w: "w \<in> set (write_intents d')" "live w"
    then have "w \<in> set (write_intents d)"
      by (auto simp: recorded(5) completes_def Let_def void_latest_def set_update_where live_def
          split: if_splits option.splits)
    moreover have "pending_intent d' w \<longrightarrow> pending_intent d w"
      using assms(4) recorded(1,2,5)
      by (auto simp: pending_intent_def status_of_def key_row_of_completes completed_row_def recordable_def
          split: if_splits)
    ultimately show "w \<in> set (write_intents d) \<and> (pending_intent d' w \<longrightarrow> pending_intent d w)" by blast
  qed
qed (use assms(2) in simp)

lemma keyed_intents:
  assumes "keyed d" "w_idempotency_key ` set (write_intents d') \<subseteq> insert k (w_idempotency_key ` set (write_intents d))"
    and "k \<noteq> []"
  shows "keyed d'"
  using assms unfolding keyed_def by fastforce

lemma keyed_Claim:
  assumes "keyed d" "Claim f pgs now req d = (r, d')" "req_Key req \<noteq> []" "db_inv pgs d"
  shows "keyed d'"
  using assms(2) db_inv_distinct [OF assms(4)]
proof (cases rule: Claim_effect)
  case (rejected payload stored detail)
  then have "w_idempotency_key ` set (write_intents d') =
      w_idempotency_key ` set (write_intents (with_intent pgs now req payload d))"
    unfolding rejects_def by (metis (no_types, lifting) map_update_where list.set_map
        intent_row.select_convs(3) intent_row.surjective intent_row.update_convs(12))
  with keyed_intents [OF assms(1) _ assms(3)] show ?thesis
    by (simp add: with_intent_def new_intent_def)
qed (use assms in \<open>auto simp: keyed_def with_intent_def new_intent_def\<close>)

lemma keyed_Complete:
  assumes "keyed d" "Complete f pgs now a k st result ref detail d = (r, d')" "db_inv pgs d"
  shows "keyed d'"
  using assms(2) db_inv_distinct [OF assms(3)]
proof (cases rule: Complete_effect)
  case (recorded row stored)
  with assms(1) show ?thesis
    by (auto simp: keyed_def completes_def Let_def void_latest_def set_update_where split: option.splits)
qed (use assms in simp)

lemma enforced_inv:
  assumes "enforced pgs W d" "inj (uuidv7 pgs)"
  shows "db_inv pgs d \<and> keyed d \<and> excluded W d"
  using assms(1)
proof induction
  case start
  show ?case using assms(2) by (simp add: db_inv_def wf_empty_db keyed_def excluded_def) (simp add: empty_db_def)
next
  case (claim d f now req r d')
  then show ?case
    using store_step_inv [OF _ store_step.claim] excluded_Claim keyed_Claim by metis
next
  case (complete d f now a k st result ref detail r d')
  then show ?case
    using store_step_inv [OF _ store_step.complete] excluded_Complete keyed_Complete by metis
qed

text \<open>C2: In an enforcing deployment no two live intents of one resource that the matrix calls
  incompatible lie within one conflict window of each other unless both belong to one agent, and
  then their writes are never pending together. This holds in every state reachable by claims and
  completions with any faults, and for emission times in any order: a transaction that waited for
  the lock may carry an earlier time than one that committed before it.\<close>

theorem enforced_exclusion:
  assumes "enforced pgs W d" "inj (uuidv7 pgs)"
    and "v \<in> set (write_intents d)" "w \<in> set (write_intents d)" "v \<noteq> w" "live v" "live w" "clash W v w"
  shows "w_agent_id v = w_agent_id w \<and> \<not> (pending_intent d v \<and> pending_intent d w)"
proof -
  have inv: "db_inv pgs d" "excluded W d" using enforced_inv [OF assms(1,2)] by auto
  then have "w_intent_id v \<noteq> w_intent_id w"
    using assms(3-5) by (auto simp: db_inv_def wf_db_def dest: distinct_map_unique)
  with inv assms(3-8) show ?thesis unfolding excluded_def exclusive_pair_def by blast
qed

text \<open>Two writes of one agent to one field, the second claimed after the first was done.\<close>

definition db3 :: db where
  "db3 = snd (Claim no_faults pg0 120 req1 db2)"

lemma enforced_db3: "enforced pg0 (\<lambda>_. 60) db3"
proof -
  have "enforced pg0 (\<lambda>_. 60) db1"
    unfolding db1_def
    by (rule enforced.claim [OF enforced.start prod.collapse [symmetric]]) (simp_all add: req0_def)
  then have "enforced pg0 (\<lambda>_. 60) db2"
    unfolding db2_def
    by (rule enforced.complete [OF _ prod.collapse [symmetric]]) (simp add: recordable_def)
  then show ?thesis
    unfolding db3_def
    by (rule enforced.claim [OF _ prod.collapse [symmetric]]) (simp_all add: req0_def req1_def)
qed

theorem enforced_exclusion_witness:
  "length (write_intents db3) = 2 \<and>
   \<not> (pending_intent db3 (write_intents db3 ! 0) \<and> pending_intent db3 (write_intents db3 ! 1))"
proof -
  have "length (write_intents db3) = 2" by code_simp
  moreover have "write_intents db3 ! 0 \<noteq> write_intents db3 ! 1 \<and> live (write_intents db3 ! 0) \<and>
      live (write_intents db3 ! 1) \<and> clash (\<lambda>_. 60) (write_intents db3 ! 0) (write_intents db3 ! 1)"
    by code_simp
  moreover have "inj (uuidv7 pg0)" by (simp add: pg0_def inj_def)
  ultimately show ?thesis
    using enforced_exclusion [OF enforced_db3, of "write_intents db3 ! 0" "write_intents db3 ! 1"] by simp
qed

section \<open>Replays\<close>

lemma Claim_mismatch:
  assumes "healthy f" "key_row_of d (req_AgentID req) (req_Key req) = Some r" "k_request_hash r \<noteq> req_RequestHash req"
  shows "\<exists>result. Claim f pgs now req d = (Inr result, d) \<and> res_Verdict result = VerdictMismatch"
proof -
  have "insertClaim f now req d = Inr (False, d)"
    "readRecord f d (req_AgentID req) (req_Key req) = Inr (record_of_row r)"
    using assms(2) by (simp_all add: insertClaim_def readRecord_def healthy_stmt [OF assms(1)])
  with assms(3) have "claimKey f now req d = Inr (result_of VerdictMismatch (record_of_row r) True, False, d)"
    by (simp add: claimKey_def and_then_def record_of_row_def)
  with assms(1) show ?thesis by (simp add: Claim_def healthy_def result_of_def)
qed

lemma Claim_existing:
  assumes "healthy f" "key_row_of d (req_AgentID req) (req_Key req) = Some r"
    and "k_request_hash r = req_RequestHash req" "k_status r \<noteq> StatusFailed"
  shows "\<exists>result. Claim f pgs now req d = (Inr result, d) \<and> res_Verdict result = VerdictExisting \<and>
    res_Record result = record_of_row r"
proof -
  have "insertClaim f now req d = Inr (False, d)"
    "readRecord f d (req_AgentID req) (req_Key req) = Inr (record_of_row r)"
    using assms(2) by (simp_all add: insertClaim_def readRecord_def healthy_stmt [OF assms(1)])
  moreover have "rec_RequestHash (record_of_row r) = req_RequestHash req"
    "rec_Status (record_of_row r) \<noteq> StatusFailed"
    using assms(3,4) by (simp_all add: record_of_row_def)
  ultimately have "claimKey f now req d = Inr (result_of VerdictExisting (record_of_row r) True, False, d)"
    by (simp add: claimKey_def and_then_def)
  with assms(1) show ?thesis by (simp add: Claim_def healthy_def result_of_def)
qed

text \<open>C10: A refusal is repeated byte for byte for as long as its key is kept. After a claim is refused
  and committed, and after any sequence of further claims and completions, of any key and with any faults,
  a retry with the same payload finds the key rejected and is answered with the bytes stored when it was
  first refused, and changes nothing. The expiry of keys is not among these steps: once it has removed the
  key, the same request is a new claim.\<close>

theorem rejection_replays:
  assumes "db_inv pgs d" "Claim f pgs now req d = (Inr result, d1)" "res_Verdict result = VerdictRejected"
    and "(store_step pgs)\<^sup>*\<^sup>* d1 d2" "healthy f'"
  shows "\<exists>result'. Claim f' pgs now' req d2 = (Inr result', d2) \<and> res_Verdict result' = VerdictExisting \<and>
    rec_Status (res_Record result') = StatusRejected \<and>
    rec_Result (res_Record result') = rec_Result (res_Record result) \<and>
    rec_OutcomeDetail (res_Record result') = rec_OutcomeDetail (res_Record result)"
  using assms(2) db_inv_distinct [OF assms(1)]
proof (cases rule: Claim_effect)
  case (rejected payload stored detail)
  let ?r = "rejected_row now stored detail (claimed_row now req d)"
  have row: "key_row_of d1 (req_AgentID req) (req_Key req) = Some ?r"
    by (simp add: rejects_key_row [OF rejected(3)] key_row_of_with_intent [OF rejected(1)])
  have st: "settled (k_status ?r)" "k_status ?r \<noteq> StatusFailed"
    "k_request_hash ?r = req_RequestHash req"
    using claimed_row_hash [OF rejected(1)] by (simp_all add: rejected_row_def settled_def)
  have inv: "db_inv pgs d1" using store_step_inv [OF assms(1) store_step.claim [OF assms(2)]] .
  note later = keys.settled_steps [OF assms(4) inv row st(1)] keys.inv_steps [OF assms(4) inv]
  have "rec_Status (record_of_row ?r) = StatusRejected" "rec_Result (record_of_row ?r) = stored"
    "rec_OutcomeDetail (record_of_row ?r) = detail"
    by (simp_all add: record_of_row_def rejected_row_def coalesce_def)
  with Claim_existing [OF assms(5) later(1) st(3,2), of _ now'] rejected(4) [OF refl] show ?thesis
    by metis
qed (use assms(3) in auto)

definition db4 :: db where
  "db4 = snd (Claim no_faults pg0 130 req2 db3)"

lemma db4_rejected:
  "\<exists>result. Claim no_faults pg0 130 req2 db3 = (Inr result, db4) \<and> res_Verdict result = VerdictRejected"
proof -
  have inv: "db_inv pg0 db3" "keyed db3" using enforced_inv [OF enforced_db3] by (simp_all add: pg0_def inj_def)
  have f: "healthy no_faults" "f_lock no_faults = Locked" by (simp_all add: healthy_def no_faults_def)
  have req: "op_Class (req_Declared req2) \<in> set classes" "req_Enforce req2" by code_simp+
  obtain result where run: "Claim no_faults pg0 130 req2 db3 = (Inr result, db4)"
    using Claim_returns [OF inv(1) f(1) req(1), of 130] by (auto simp: db4_def pg0_def takes_refusals_def)
  have "key_row_of db3 (req_AgentID req2) (req_Key req2) = None" by code_simp
  moreover have "\<exists>w \<in> set (write_intents db3). live w \<and>
      w_resource_type w = req_ResourceType req2 \<and> w_resource_id w = req_ResourceID req2 \<and>
      w_emitted_at w > 130 - req_Window req2 \<and> w_agent_id w \<noteq> req_AgentID req2 \<and>
      \<not> Compatible (req_Declared req2) \<lparr>op_Class = w_operation_class w, op_Scope = w_scope_selector w\<rparr>"
    by code_simp
  ultimately have "spec_verdict 130 req2 db3 = VerdictRejected"
    using req(2) by (auto simp: spec_verdict_def fresh_verdict_def meets_def)
  with Claim_spec_verdict [OF inv f(2) run] run show ?thesis by auto
qed

theorem rejection_replays_witness:
  "\<exists>result'. Claim no_faults pg0 200 req2 db4 = (Inr result', db4) \<and> res_Verdict result' = VerdictExisting \<and>
     rec_Status (res_Record result') = StatusRejected"
proof -
  have inv: "db_inv pg0 db3" using enforced_inv [OF enforced_db3] by (simp add: pg0_def inj_def)
  obtain result where "Claim no_faults pg0 130 req2 db3 = (Inr result, db4)" "res_Verdict result = VerdictRejected"
    using db4_rejected by blast
  from rejection_replays [OF inv this rtranclp.rtrancl_refl, of no_faults 200] show ?thesis
    by (auto simp: healthy_def no_faults_def)
qed

section \<open>Recording an outcome\<close>

text \<open>C11: Recording an outcome succeeds only on a pending key. It stores the status, the result in
  the form Postgres gives it or the reference, and the detail, so that a lookup returns them; it
  changes no other key; and a failed outcome voids the key's intent, while any other outcome leaves
  the intents alone.\<close>

theorem Complete_records:
  assumes "db_inv pgs d" "Complete f pgs now a k st result ref detail d = (Inr True, d')"
    and "f_stmt f' SelectKey = False"
  shows "status_of d a k = Some StatusPending \<and>
    (\<exists>rec. Lookup f' d' a k = Inr (Some rec) \<and> rec_Status rec = st \<and> rec_ResultRef rec = ref \<and>
       rec_OutcomeDetail rec = detail \<and>
       (if result = [] then rec_Result rec = [] else jsonb pgs result = Some (rec_Result rec))) \<and>
    (\<forall>b c. (b, c) \<noteq> (a, k) \<longrightarrow> key_row_of d' b c = key_row_of d b c) \<and>
    (\<forall>b c. live_of d' b c = (if (b, c) = (a, k) \<and> st = StatusFailed then [] else live_of d b c))"
  using assms(2) db_inv_distinct [OF assms(1)]
proof (cases rule: Complete_effect)
  case (recorded row stored)
  have ids: "intents_agree d" "distinct (map w_intent_id (write_intents d))"
    using assms(1) by (simp_all add: db_inv_def wf_db_def)
  have row: "key_row_of d' a k = Some (completed_row now st stored (nonempty ref) (nonempty detail) row)"
    by (simp add: recorded(5) key_row_of_completes [OF recorded(1,2)])
  let ?rec = "record_of_row (completed_row now st stored (nonempty ref) (nonempty detail) row)"
  have "Lookup f' d' a k = Inr (Some ?rec)"
    using assms(3) by (simp add: Lookup_def readRecord_def run_stmt_def row)
  moreover have "rec_Status ?rec = st" "rec_ResultRef ?rec = ref" "rec_OutcomeDetail ?rec = detail"
    "if result = [] then rec_Result ?rec = [] else jsonb pgs result = Some (rec_Result ?rec)"
    using recorded(3,4) by (auto simp: record_of_row_def completed_row_def coalesce_def nonempty_def)
  ultimately show ?thesis
    using recorded(1,2)
    by (auto simp: status_of_def recorded(5) key_row_of_completes live_of_completes [OF ids])
qed simp

theorem Complete_records_witness:
  "\<exists>rec. Lookup no_faults db2 ''billing-agent'' ''k1'' = Inr (Some rec) \<and> rec_Status rec = StatusDone \<and>
     rec_Result rec = ''{}''"
proof -
  have "Complete no_faults pg0 110 ''billing-agent'' ''k1'' StatusDone ''{}'' [] [] db1 = (Inr True, db2)"
    by code_simp
  from Complete_records [OF example_inv(1) this, of no_faults] show ?thesis
    by (auto simp: no_faults_def pg0_def)
qed

end
