(* ===== verification/Results.thy ===== *)
theory Results
  imports Sha256 "HOL-Library.AList"
begin

text \<open>
  Where results are kept: correlation identifiers (\<open>internal/correlation\<close>), the object store
  client (\<open>internal/objectstore\<close>) over a bucket of named objects, and the result store
  (\<open>internal/resultstore\<close>), which offloads results above its cap and reads them back. The Go
  interface \<open>Objects\<close> is the locale \<open>objects\<close>; \<open>Place\<close>, \<open>Resolve\<close> and \<open>Delete\<close> take its
  methods as arguments, and the client's methods interpret it. The bucket is an association list;
  what the service and the network decide is in the record \<open>object_faults\<close>.
\<close>

section \<open>Correlation identifiers\<close>

definition correlation_input :: "string \<Rightarrow> string \<Rightarrow> bytes" where
  "correlation_input agentID key = agentID @ [CHR 0x00] @ key"

definition ID :: "string \<Rightarrow> string \<Rightarrow> string" where
  "ID agentID key = hex_encode (take 16 (sha256 (correlation_input agentID key)))"

lemma append_sep_inj:
  assumes "x \<notin> set a" "x \<notin> set b" "a @ x # c = b @ x # d"
  shows "a = b \<and> c = d"
  using assms
proof (induction a arbitrary: b)
  case Nil
  then show ?case by (cases b) auto
next
  case (Cons y a)
  then show ?case by (cases b) auto
qed

lemma length_ID: "length (ID a k) = 32"
  by (simp add: ID_def length_hex_encode length_sha256)

section \<open>The object store client\<close>

text \<open>
  A call that reports an error may have taken effect all the same (\<open>PutUnseen\<close>, \<open>RemoveUnseen\<close>). A
  service that answers \<open>NoSuchKey\<close> holds no such object afterwards.
\<close>

type_synonym bucket = "(string \<times> bytes) list"

datatype put_outcome = PutOk | PutFailed | PutUnseen

datatype remove_outcome = Removed | NoSuchKey | RemoveFailed | RemoveUnseen

record object_faults =
  of_put :: put_outcome
  of_get :: bool
  of_read :: bool
  of_remove :: "string \<Rightarrow> remove_outcome"

datatype object_error =
    UploadError string | FetchError string | ReadError string | DeleteError string | NotConfigured string

definition Client_Put ::
  "object_faults \<Rightarrow> string \<Rightarrow> bytes \<Rightarrow> bucket \<Rightarrow> object_error option \<times> bucket" where
  "Client_Put f name body b =
     (case of_put f of
        PutOk \<Rightarrow> (None, AList.update name body b)
      | PutFailed \<Rightarrow> (Some (UploadError name), b)
      | PutUnseen \<Rightarrow> (Some (UploadError name), AList.update name body b))"

definition Client_Get :: "object_faults \<Rightarrow> string \<Rightarrow> bucket \<Rightarrow> object_error + bytes" where
  "Client_Get f name b =
     (if of_get f then Inl (FetchError name)
      else case map_of b name of
        None \<Rightarrow> Inl (ReadError name)
      | Some body \<Rightarrow> if of_read f then Inl (ReadError name) else Inr body)"

fun Client_Delete :: "object_faults \<Rightarrow> string list \<Rightarrow> bucket \<Rightarrow> object_error option \<times> bucket" where
  "Client_Delete f [] b = (None, b)"
| "Client_Delete f (name # names) b =
     (case of_remove f name of
        RemoveFailed \<Rightarrow> (Some (DeleteError name), b)
      | RemoveUnseen \<Rightarrow> (Some (DeleteError name), AList.delete name b)
      | _ \<Rightarrow> Client_Delete f names (AList.delete name b))"

section \<open>The result store\<close>

record result_store =
  rs_objects :: bool
  rs_inlineCap :: int

definition result_prefix :: string where
  "result_prefix = ''results/''"

definition Ref :: "string \<Rightarrow> string \<Rightarrow> string" where
  "Ref agentID key = result_prefix @ ID agentID key @ ''.json''"

definition IsRef :: "string \<Rightarrow> bool" where
  "IsRef value = HasPrefix value result_prefix"

text \<open>
  \<open>New\<close> promotes the client to the interface only when it is there; \<open>None\<close> is a nil
  \<open>*Store\<close>.
\<close>

definition NewWith :: "int \<Rightarrow> result_store" where
  "NewWith inlineCap = \<lparr>rs_objects = True, rs_inlineCap = inlineCap\<rparr>"

definition New :: "bool \<Rightarrow> int \<Rightarrow> result_store" where
  "New client inlineCap =
     (if \<not> client then \<lparr>rs_objects = False, rs_inlineCap = inlineCap\<rparr> else NewWith inlineCap)"

record placement =
  pl_Inline :: bytes
  pl_Ref :: string
  pl_Offloaded :: bool
  pl_FellBack :: bool

definition no_objects :: "result_store option \<Rightarrow> bool" where
  "no_objects s = (case s of None \<Rightarrow> True | Some st \<Rightarrow> \<not> rs_objects st)"

definition Place ::
  "('f \<Rightarrow> string \<Rightarrow> bytes \<Rightarrow> 'b \<Rightarrow> object_error option \<times> 'b) \<Rightarrow> result_store option \<Rightarrow> 'f
   \<Rightarrow> string \<Rightarrow> string \<Rightarrow> bytes \<Rightarrow> 'b \<Rightarrow> placement \<times> 'b" where
  "Place put s f agentID key result b =
     (if length result = 0 \<or> no_objects s \<or> int (length result) \<le> rs_inlineCap (the s)
      then (\<lparr>pl_Inline = result, pl_Ref = [], pl_Offloaded = False, pl_FellBack = False\<rparr>, b)
      else
        (let ref = Ref agentID key in
         case put f ref result b of
           (Some e, b') \<Rightarrow> (\<lparr>pl_Inline = result, pl_Ref = [], pl_Offloaded = False, pl_FellBack = True\<rparr>, b')
         | (None, b') \<Rightarrow> (\<lparr>pl_Inline = [], pl_Ref = ref, pl_Offloaded = True, pl_FellBack = False\<rparr>, b')))"

definition Resolve ::
  "('f \<Rightarrow> string \<Rightarrow> 'b \<Rightarrow> object_error + bytes) \<Rightarrow> result_store option \<Rightarrow> 'f \<Rightarrow> bytes \<Rightarrow> string \<Rightarrow> 'b
   \<Rightarrow> object_error + bytes" where
  "Resolve get s f inline ref b =
     (if ref = [] then Inr inline
      else if no_objects s then Inl (NotConfigured ref)
      else get f ref b)"

definition Delete ::
  "('f \<Rightarrow> string list \<Rightarrow> 'b \<Rightarrow> object_error option \<times> 'b) \<Rightarrow> result_store option \<Rightarrow> 'f \<Rightarrow> string list \<Rightarrow> 'b
   \<Rightarrow> object_error option \<times> 'b" where
  "Delete del s f refs b =
     (if length refs = 0 \<or> no_objects s then (None, b) else del f refs b)"

section \<open>The interface\<close>

locale objects =
  fixes put :: "'f \<Rightarrow> string \<Rightarrow> bytes \<Rightarrow> 'b \<Rightarrow> object_error option \<times> 'b"
    and get :: "'f \<Rightarrow> string \<Rightarrow> 'b \<Rightarrow> object_error + bytes"
    and del :: "'f \<Rightarrow> string list \<Rightarrow> 'b \<Rightarrow> object_error option \<times> 'b"
    and look :: "'b \<Rightarrow> string \<Rightarrow> bytes option"
    and reads :: "'f \<Rightarrow> bool"
  assumes put_stores: "put f name body b = (None, b') \<Longrightarrow> look b' name = Some body"
    and put_others: "put f name body b = (e, b') \<Longrightarrow> other \<noteq> name \<Longrightarrow> look b' other = look b other"
    and get_reads: "reads f \<Longrightarrow> look b name = Some body \<Longrightarrow> get f name b = Inr body"
    and get_true: "get f name b = Inr body \<Longrightarrow> look b name = Some body"
    and del_others: "del f names b = (e, b') \<Longrightarrow> other \<notin> set names \<Longrightarrow> look b' other = look b other"
    and del_removes: "del f names b = (None, b') \<Longrightarrow> name \<in> set names \<Longrightarrow> look b' name = None"
begin

text \<open>What a placement leaves behind is the result, wherever it went.\<close>

lemma Place_kept:
  assumes "Place put s f a k result b = (pl, b')"
  shows "pl_Ref pl = [] \<and> pl_Inline pl = result \<or>
    pl_Ref pl = Ref a k \<and> pl_Inline pl = [] \<and> \<not> no_objects s \<and> look b' (Ref a k) = Some result"
  using assms
  by (auto simp: Place_def Let_def split: if_splits prod.splits option.splits intro: put_stores)

lemma Place_others:
  assumes "Place put s f a k result b = (pl, b')" "ref \<noteq> Ref a k"
  shows "look b' ref = look b ref"
  using assms
  by (auto simp: Place_def Let_def split: if_splits prod.splits option.splits intro: put_others)

lemma Resolve_placed:
  assumes "Place put s f a k result b = (pl, b')" "reads f'"
    and "pl_Ref pl \<noteq> [] \<Longrightarrow> look b'' (pl_Ref pl) = look b' (pl_Ref pl)"
  shows "Resolve get s f' (pl_Inline pl) (pl_Ref pl) b'' = Inr result"
proof -
  have "Ref a k \<noteq> []" by (simp add: Ref_def result_prefix_def)
  with Place_kept [OF assms(1)] assms(2,3) show ?thesis
    by (auto simp: Resolve_def intro: get_reads)
qed

lemma Resolve_true:
  assumes "Resolve get s f inline ref b = Inr body" "ref \<noteq> []"
  shows "look b ref = Some body"
  using assms by (auto simp: Resolve_def split: if_splits intro: get_true)

lemma Delete_others:
  assumes "Delete del s f refs b = (e, b')" "ref \<notin> set refs"
  shows "look b' ref = look b ref"
  using assms by (auto simp: Delete_def split: if_splits intro: del_others)

end

lemma Client_Delete_others:
  "Client_Delete f names b = (e, b') \<Longrightarrow> other \<notin> set names \<Longrightarrow> map_of b' other = map_of b other"
  by (induction f names b rule: Client_Delete.induct)
     (auto simp: delete_conv' split: remove_outcome.splits)

lemma Client_Delete_removes:
  "Client_Delete f names b = (None, b') \<Longrightarrow> name \<in> set names \<Longrightarrow> map_of b' name = None"
proof (induction f names b rule: Client_Delete.induct)
  case (2 f n names b)
  then show ?case
    using Client_Delete_others [of f names "AList.delete n b" None b' name]
    by (cases "name \<in> set names") (auto simp: delete_conv' split: remove_outcome.splits)
qed simp

interpretation client: objects Client_Put Client_Get Client_Delete map_of "\<lambda>f. \<not> of_get f \<and> \<not> of_read f"
  by unfold_locales
     (auto simp: Client_Put_def Client_Get_def update_conv' Client_Delete_others Client_Delete_removes
       split: put_outcome.splits option.splits if_splits)

section \<open>Properties\<close>

text \<open>C18: A result is never lost by offloading. Whether the object store takes it, refuses it, or
  takes it while reporting an error, what \<open>Place\<close> returns is either the result itself or a
  reference, never both, and \<open>Resolve\<close> gives the result back from any bucket that still holds
  the same object under that reference. Placing touches no other object, and deleting other
  references does not touch this one.\<close>

theorem placed_result_resolves:
  assumes "Place Client_Put s f a k result b = (pl, b1)"
    and "map_of b2 (Ref a k) = map_of b1 (Ref a k)" "\<not> of_get f2" "\<not> of_read f2"
  shows "Resolve Client_Get s f2 (pl_Inline pl) (pl_Ref pl) b2 = Inr result \<and>
    (pl_Inline pl = [] \<or> pl_Ref pl = []) \<and>
    (\<forall>ref. ref \<noteq> Ref a k \<longrightarrow> map_of b1 ref = map_of b ref) \<and>
    (\<forall>f3 refs. Ref a k \<notin> set refs \<longrightarrow>
       map_of (snd (Delete Client_Delete s f3 refs b2)) (Ref a k) = map_of b1 (Ref a k))"
proof (intro conjI allI impI)
  note kept = client.Place_kept [OF assms(1)]
  show "Resolve Client_Get s f2 (pl_Inline pl) (pl_Ref pl) b2 = Inr result"
    using client.Resolve_placed [OF assms(1), of f2 b2] assms(2-4) kept by auto
  show "pl_Inline pl = [] \<or> pl_Ref pl = []" using kept by auto
  show "map_of b1 ref = map_of b ref" if "ref \<noteq> Ref a k" for ref
    using client.Place_others [OF assms(1) that] .
  show "map_of (snd (Delete Client_Delete s f3 refs b2)) (Ref a k) = map_of b1 (Ref a k)"
    if "Ref a k \<notin> set refs" for f3 refs
    using client.Delete_others [OF prod.collapse [symmetric] that] assms(2) by simp
qed

definition ok_objects :: object_faults where
  "ok_objects = \<lparr>of_put = PutOk, of_get = False, of_read = False, of_remove = (\<lambda>_. Removed)\<rparr>"

theorem placed_result_resolves_witness:
  "Resolve Client_Get (Some (NewWith 1)) ok_objects [] (Ref ''a'' ''k'') [(Ref ''a'' ''k'', ''{}'')] = Inr ''{}''"
proof -
  let ?b = "[(Ref ''a'' ''k'', ''{}'')]"
  have "Place Client_Put (Some (NewWith 1)) ok_objects ''a'' ''k'' ''{}'' [] =
      (\<lparr>pl_Inline = [], pl_Ref = Ref ''a'' ''k'', pl_Offloaded = True, pl_FellBack = False\<rparr>, ?b)"
    by (simp add: Place_def NewWith_def no_objects_def Client_Put_def ok_objects_def Let_def)
  from placed_result_resolves [OF this, of ?b ok_objects] show ?thesis by (simp add: ok_objects_def)
qed

text \<open>Two writes have the same correlation identifier only when SHA-256, cut to 128 bits,
  collides: agents and keys are joined by a zero byte, which no agent name from a header contains,
  so different pairs are hashed from different bytes.\<close>

theorem correlation_input_injective:
  assumes "CHR 0x00 \<notin> set a" "CHR 0x00 \<notin> set a'" "(a, k) \<noteq> (a', k')"
  shows "correlation_input a k \<noteq> correlation_input a' k' \<and>
    (ID a k = ID a' k' \<longrightarrow> take 16 (sha256 (correlation_input a k)) = take 16 (sha256 (correlation_input a' k')))"
proof -
  have "correlation_input a k \<noteq> correlation_input a' k'"
    using append_sep_inj [OF assms(1,2), of k k'] assms(3) by (auto simp: correlation_input_def)
  then show ?thesis unfolding ID_def inj_eq [OF hex_encode_inj] by blast
qed

theorem correlation_input_injective_witness:
  "correlation_input ''billing'' ''k1'' \<noteq> correlation_input ''billing'' ''k2''"
  using correlation_input_injective [of "''billing''" "''billing''" "''k1''" "''k2''"] by simp

end
