(* ===== verification/Json_Laws.thy ===== *)
theory Json_Laws
  imports Json_Parse
begin

text \<open>
  The encoder against the decoder: a string survives encoding and decoding, apart from bytes that
  are not UTF-8, and what the encoder writes for strings and objects of strings is valid JSON.
\<close>

section \<open>Hexadecimal escapes\<close>

lemma of_hex_digit: "k < 16 \<Longrightarrow> of_char (hex_digit k) = (if k < 10 then 48 + k else 87 + k)"
  by (simp add: hex_digit_def)

lemma hex_value_digit: "k < 16 \<Longrightarrow> hex_value (hex_digit k) = Some k"
  by (simp add: hex_value_def between_def of_hex_digit)

lemma hex4_roundtrip:
  assumes "n < 65536"
  shows "hex4_value (hex4 n @ t) = Some n"
proof -
  have top: "n div 4096 < 16" using assms by simp
  have "4096 * (n div 4096) + 256 * (n div 256 mod 16) + 16 * (n div 16 mod 16) + n mod 16 = n"
  proof -
    have "n div 16 div 16 = n div 256" "n div 256 div 16 = n div 4096"
      by (simp_all add: div_mult2_eq [symmetric])
    then show ?thesis
      using mult_div_mod_eq [of 16 n] mult_div_mod_eq [of 16 "n div 16"] mult_div_mod_eq [of 16 "n div 256"]
      by linarith
  qed
  then show ?thesis by (simp add: hex4_value_def hex4_def hex_value_digit top)
qed

definition plain :: "char \<Rightarrow> bool" where
  "plain c \<longleftrightarrow> c \<noteq> dquote \<and> c \<noteq> backslash \<and> \<not> between 0 31 c"

lemma plain_of_char: "(31::nat) < of_char c \<Longrightarrow> of_char c \<noteq> (34::nat) \<Longrightarrow> of_char c \<noteq> (92::nat) \<Longrightarrow> plain c"
  by (auto simp: plain_def between_def)

lemma hex4_plain: "c \<in> set (hex4 n) \<Longrightarrow> plain c"
proof -
  have "plain (hex_digit k)" if "k < 16" for k
    using that by (intro plain_of_char) (simp_all add: of_hex_digit)
  then show "c \<in> set (hex4 n) \<Longrightarrow> plain c" by (auto simp: hex4_def)
qed

section \<open>The scanner on escaped text\<close>

lemma push_push: "push p (push q x) = push (p @ q) x"
  by (simp add: push_def split: option.split prod.split)

lemma push_Nil [simp]: "push [] x = x"
  by (simp add: push_def split: option.split prod.split)

lemma scan_string_plain:
  assumes "\<forall>c \<in> set p. plain c"
  shows "scan_string (p @ s) = push p (scan_string s)"
  using assms
proof (induction p)
  case (Cons c p)
  then have "scan_string ((c # p) @ s) = push [c] (scan_string (p @ s))" by (simp add: plain_def)
  with Cons show ?case by (simp add: push_push)
qed simp

lemma scan_string_unicode:
  assumes "n < 65536"
  shows "scan_string (unicode_escape n @ s) = push (unicode_escape n) (scan_string s)"
proof -
  have "scan_string (unicode_escape n @ s) = push [backslash, CHR ''u''] (scan_string (hex4 n @ s))"
    using hex4_roundtrip [OF assms, of s] by (simp add: unicode_escape_def)
  also have "scan_string (hex4 n @ s) = push (hex4 n) (scan_string s)"
    by (rule scan_string_plain) (auto dest: hex4_plain)
  finally show ?thesis by (simp add: push_push unicode_escape_def)
qed

lemma scan_string_escape_char:
  assumes "between 0 127 c"
  shows "scan_string (escape_char c @ s) = push (escape_char c) (scan_string s)"
proof (cases "escape_char c = unicode_escape (of_char c)")
  case True
  have "of_char c < (65536 :: nat)" using assms by (simp add: between_def)
  with True scan_string_unicode show ?thesis by metis
next
  case False
  then show ?thesis by (auto simp: escape_char_def)
qed

lemma take_append_nth: "i < n \<Longrightarrow> n \<le> length s \<Longrightarrow> (take n s @ t) ! i = s ! i"
  by (simp add: nth_append)

lemma utf8_shape_append:
  "2 \<le> n \<Longrightarrow> n \<le> length s \<Longrightarrow> two_bytes (take n s @ t) = two_bytes s"
  "3 \<le> n \<Longrightarrow> n \<le> length s \<Longrightarrow> three_bytes (take n s @ t) = three_bytes s"
  "4 \<le> n \<Longrightarrow> n \<le> length s \<Longrightarrow> four_bytes (take n s @ t) = four_bytes s"
  by (simp_all add: two_bytes_def three_bytes_def four_bytes_def take_append_nth)

lemma utf8_shape_length:
  "two_bytes s \<Longrightarrow> 2 \<le> length s" "three_bytes s \<Longrightarrow> 3 \<le> length s" "four_bytes s \<Longrightarrow> 4 \<le> length s"
  by (simp_all add: two_bytes_def three_bytes_def four_bytes_def)

lemma utf8_size_append:
  assumes "utf8_size s \<noteq> 0"
  shows "utf8_size (take (utf8_size s) s @ t) = utf8_size s"
proof -
  define n where "n = utf8_size s"
  have s: "s \<noteq> []" "n \<le> length s" "0 < n" using assms utf8_size_le by (auto simp: n_def utf8_size_def)
  then have first: "(take n s @ t) ! 0 = s ! 0" by (simp add: take_append_nth)
  from s(1) assms consider "between 0 127 (s ! 0)" | "\<not> between 0 127 (s ! 0)" "two_bytes s" "n = 2"
    | "\<not> between 0 127 (s ! 0)" "\<not> two_bytes s" "three_bytes s" "n = 3"
    | "\<not> between 0 127 (s ! 0)" "\<not> two_bytes s" "\<not> three_bytes s" "four_bytes s" "n = 4"
    by (auto simp: n_def utf8_size_def split: if_splits)
  then have "utf8_size (take n s @ t) = n"
    by cases (use s first in \<open>auto simp: utf8_size_def utf8_shape_append n_def\<close>)
  then show ?thesis by (simp add: n_def)
qed

lemma between_high: "between lo hi c \<Longrightarrow> 128 \<le> lo \<Longrightarrow> \<not> between 0 127 c"
  by (simp add: between_def)

lemma utf8_tail:
  assumes "utf8_size s \<noteq> 0" "\<not> between 0 127 (s ! 0)" "i < utf8_size s"
  shows "\<not> between 0 127 (s ! i)"
proof (cases "i = 0")
  case False
  with assms have "tail_byte (s ! i) \<or> between 160 191 (s ! i) \<or> between 128 159 (s ! i) \<or>
      between 144 191 (s ! i) \<or> between 128 143 (s ! i)"
    by (auto simp: utf8_size_def two_bytes_def three_bytes_def four_bytes_def
        numeral_eq_Suc less_Suc_eq split: if_splits)
  then show ?thesis using between_high by force
qed (use assms in simp)

section \<open>Escaping, piece by piece\<close>

text \<open>The text a byte string stands for once what is not UTF-8 is replaced.\<close>

function to_utf8 :: "bytes \<Rightarrow> bytes" where
  "to_utf8 s =
     (case s of
        [] \<Rightarrow> []
      | c # cs \<Rightarrow>
          if utf8_size s = 0 then replacement @ to_utf8 cs
          else take (utf8_size s) s @ to_utf8 (drop (utf8_size s) s))"
  by pat_completeness auto
termination
  by (relation "measure length") auto

declare to_utf8.simps [simp del]

lemma to_utf8_step:
  assumes "utf8_size s \<noteq> 0"
  shows "to_utf8 s = take (utf8_size s) s @ to_utf8 (drop (utf8_size s) s)"
  using assms by (subst to_utf8.simps) (auto simp: utf8_size_def split: list.split)

lemma utf8_size_ascii: "between 0 127 c \<Longrightarrow> utf8_size (c # cs) = 1"
  by (simp add: utf8_size_def)

lemma escape_ufffd: "backslash # ''ufffd'' = unicode_escape 65533"
  by code_simp

lemma line_separator_take:
  assumes "utf8_size s = 3" "line_separator s"
  shows "take 3 s = utf8_encode (if s ! 2 = CHR 168 then 8232 else 8233)"
proof -
  have "3 \<le> length s" using assms(1) utf8_size_le [of s] by simp
  then obtain a b c r where "s = a # b # c # r"
    by (metis Suc_le_length_iff numeral_3_eq_3)
  moreover have "utf8_encode 8232 = [CHR 226, CHR 128, CHR 168]" "utf8_encode 8233 = [CHR 226, CHR 128, CHR 169]"
    by code_simp+
  ultimately show ?thesis using assms(2) by (auto simp: line_separator_def)
qed

text \<open>
  How \<open>escape\<close> proceeds: it is made of pieces, each an escape of one character or a character
  of several bytes copied as it is.
\<close>

lemma escape_induct [case_names Nil ascii invalid separator copied]:
  assumes "P []"
    and "\<And>c cs. between 0 127 c \<Longrightarrow> P cs \<Longrightarrow> P (c # cs)"
    and "\<And>c cs. utf8_size (c # cs) = 0 \<Longrightarrow> P cs \<Longrightarrow> P (c # cs)"
    and "\<And>s. utf8_size s = 3 \<Longrightarrow> line_separator s \<Longrightarrow> P (drop 3 s) \<Longrightarrow> P s"
    and "\<And>s. utf8_size s \<noteq> 0 \<Longrightarrow> \<not> between 0 127 (s ! 0) \<Longrightarrow> \<not> (utf8_size s = 3 \<and> line_separator s) \<Longrightarrow>
      P (drop (utf8_size s) s) \<Longrightarrow> P s"
  shows "P s"
proof (induction s rule: measure_induct_rule [where f = length])
  case (less s)
  show ?case
  proof (cases s)
    case Nil
    with assms(1) show ?thesis by simp
  next
    case (Cons c cs)
    then have drop: "P (drop n s)" if "0 < n" for n using less that by simp
    from Cons have cs: "P cs" using less by simp
    consider "between 0 127 c" | "utf8_size s = 0" | "utf8_size s = 3" "line_separator s"
      | "utf8_size s \<noteq> 0" "\<not> between 0 127 c" "\<not> (utf8_size s = 3 \<and> line_separator s)" by blast
    then show ?thesis
    proof cases
      case 4
      with assms(5) [of s] drop [of "utf8_size s"] Cons show ?thesis by simp
    qed (use assms(2-4) drop [of 3] cs Cons in auto)
  qed
qed

lemma escape_Nil [simp]: "escape [] = []"
  by (simp add: escape.simps)

lemma escape_ascii: "between 0 127 c \<Longrightarrow> escape (c # cs) = escape_char c @ escape cs"
  by (simp add: escape.simps [of "c # cs"])

lemma not_ascii: "utf8_size (c # cs) = 0 \<Longrightarrow> \<not> between 0 127 c"
  by (auto simp: utf8_size_def split: if_splits)

lemma escape_invalid: "utf8_size (c # cs) = 0 \<Longrightarrow> escape (c # cs) = unicode_escape 65533 @ escape cs"
  using not_ascii [of c cs] escape_ufffd by (simp add: escape.simps [of "c # cs"] Let_def)

lemma separator_not_ascii: "line_separator s \<Longrightarrow> \<not> between 0 127 (s ! 0)"
  by (cases s) (auto simp: line_separator_def between_def)

lemma escape_separator:
  assumes "utf8_size s = 3" "line_separator s"
  shows "escape s = unicode_escape (if s ! 2 = CHR 168 then 8232 else 8233) @ escape (drop 3 s)"
proof -
  obtain c cs where s: "s = c # cs" using assms(1) by (cases s) (auto simp: utf8_size_def)
  show ?thesis
    using assms separator_not_ascii [OF assms(2)] unfolding s
    by (simp add: escape.simps [of "c # cs"] Let_def)
qed

lemma escape_copied:
  assumes "utf8_size s \<noteq> 0" "\<not> between 0 127 (s ! 0)" "\<not> (utf8_size s = 3 \<and> line_separator s)"
  shows "escape s = take (utf8_size s) s @ escape (drop (utf8_size s) s)"
proof -
  obtain c cs where s: "s = c # cs" using assms(1) by (cases s) (auto simp: utf8_size_def)
  show ?thesis using assms unfolding s by (auto simp: escape.simps [of "c # cs"] Let_def)
qed

lemma copied_plain:
  assumes "utf8_size s \<noteq> 0" "\<not> between 0 127 (s ! 0)" "c \<in> set (take (utf8_size s) s)"
  shows "plain c"
proof -
  obtain i where "i < utf8_size s" "c = s ! i"
    using assms(3) utf8_size_le [of s] by (auto simp: in_set_conv_nth)
  with utf8_tail [OF assms(1,2)] have "\<not> between 0 127 c" by blast
  then show ?thesis by (auto simp: plain_def between_def)
qed

lemma scan_string_escape: "scan_string (escape s @ t) = push (escape s) (scan_string t)"
proof (induction s rule: escape_induct)
  case (ascii c cs)
  then show ?case by (simp add: escape_ascii scan_string_escape_char push_push)
next
  case (invalid c cs)
  then show ?case by (simp add: escape_invalid scan_string_unicode push_push)
next
  case (separator s)
  then show ?case by (simp add: escape_separator scan_string_unicode push_push)
next
  case (copied s)
  have "\<forall>c \<in> set (take (utf8_size s) s). plain c" using copied_plain copied by blast
  with copied show ?case by (simp add: escape_copied scan_string_plain push_push)
qed simp

section \<open>Reading escaped text back\<close>

lemma unquote_Nil [simp]: "unquote [] = []"
  by (simp add: unquote.simps)

lemma unquote_ascii: "between 0 127 c \<Longrightarrow> c \<noteq> backslash \<Longrightarrow> unquote (c # t) = c # unquote t"
  by (simp add: unquote.simps [of "c # t"])

lemma unquote_simple:
  "e \<noteq> CHR ''u'' \<Longrightarrow> unquote (backslash # e # t) = unescaped e # unquote t"
  by (simp add: unquote.simps [of "backslash # e # t"])

lemma unquote_unicode:
  assumes "n < 55296 \<or> 57344 \<le> n \<and> n < 65536"
  shows "unquote (unicode_escape n @ t) = utf8_encode n @ unquote t"
proof -
  have n: "n < 65536" and "\<not> high_surrogate n" "\<not> low_surrogate n"
    using assms by (auto simp: high_surrogate_def low_surrogate_def)
  moreover have "drop 4 (hex4 n @ t) = t" by (simp add: hex4_def)
  ultimately show ?thesis
    using hex4_roundtrip [OF n, of t]
    by (simp add: unicode_escape_def unquote.simps [of "backslash # CHR ''u'' # hex4 n @ t"] paired_def)
qed

lemma unquote_escape_char:
  assumes "between 0 127 c"
  shows "unquote (escape_char c @ t) = c # unquote t"
proof (cases "escape_char c = unicode_escape (of_char c)")
  case True
  have "of_char c < (128 :: nat)" using assms by (simp add: between_def)
  then have "unquote (unicode_escape (of_char c) @ t) = utf8_encode (of_char c) @ unquote t"
    by (intro unquote_unicode) simp
  with True \<open>of_char c < 128\<close> show ?thesis by (simp add: utf8_encode_def)
next
  case False
  with assms show ?thesis
    by (auto simp: escape_char_def unquote_simple unescaped_def unquote_ascii)
qed

lemma unquote_copied:
  assumes "utf8_size s \<noteq> 0" "\<not> between 0 127 (s ! 0)"
  shows "unquote (take (utf8_size s) s @ t) = take (utf8_size s) s @ unquote t"
proof -
  define n where "n = utf8_size s"
  obtain c cs where s: "s = c # cs" using assms(1) by (cases s) (auto simp: utf8_size_def)
  have n: "0 < n" "n \<le> length s" using assms(1) utf8_size_le by (auto simp: n_def)
  then obtain ds where p: "take n s @ t = c # ds" by (cases n) (auto simp: s)
  have "plain c" using copied_plain [OF assms, of c] n by (cases n) (auto simp: s n_def)
  then have "c \<noteq> backslash" by (simp add: plain_def)
  moreover have "\<not> between 0 127 c" using assms(2) by (simp add: s)
  moreover have "utf8_size (c # ds) = n" using utf8_size_append [OF assms(1), of t] p by (simp add: n_def)
  ultimately have "unquote (c # ds) = take n (c # ds) @ unquote (drop n (c # ds))"
    using n by (simp add: unquote.simps [of "c # ds"])
  moreover have "take n (c # ds) = take n s" "drop n (c # ds) = t"
    unfolding p [symmetric] using n by simp_all
  ultimately show ?thesis unfolding n_def [symmetric] p by simp
qed

lemma unquote_escape: "unquote (escape s) = to_utf8 s"
proof (induction s rule: escape_induct)
  case Nil
  show ?case by (simp add: to_utf8.simps)
next
  case (ascii c cs)
  then show ?case
    by (simp add: escape_ascii unquote_escape_char to_utf8.simps [of "c # cs"] utf8_size_ascii)
next
  case (invalid c cs)
  then show ?case
    by (simp add: escape_invalid unquote_unicode to_utf8.simps [of "c # cs"] utf8_encode_def
        replacement_def)
next
  case (separator s)
  have "unquote (escape s) = utf8_encode (if s ! 2 = CHR 168 then 8232 else 8233) @ unquote (escape (drop 3 s))"
    by (simp only: escape_separator [OF separator(1,2)]) (rule unquote_unicode, simp)
  with separator line_separator_take [OF separator(1,2)] to_utf8_step [of s] show ?case by simp
next
  case (copied s)
  then show ?case
    by (simp only: escape_copied [OF copied(1-3)] unquote_copied [OF copied(1,2)] to_utf8_step [OF copied(1)])
qed

section \<open>Numbers\<close>

lemma decimal_nonempty: "decimal n \<noteq> []"
  by (simp add: decimal_last [of n])

lemma decimal_digit: "c \<in> set (decimal n) \<Longrightarrow> is_digit c"
proof (induction n rule: decimal_induct)
  case (last n)
  then show ?case by (auto simp: decimal_last [of n] is_digit_def between_def split: if_splits)
qed

lemma hd_decimal: "0 < n \<Longrightarrow> hd (decimal n) \<noteq> CHR ''0''"
proof (induction n rule: decimal_induct)
  case (last n)
  have "char_of (48 + n) \<noteq> CHR ''0''" if "n < 10"
  proof
    assume "char_of (48 + n) = CHR ''0''"
    then have "of_char (char_of (48 + n) :: char) = (48::nat)" by simp
    with that last show False by simp
  qed
  with last show ?case by (subst decimal_last) (simp add: decimal_nonempty)
qed

lemma digits_value_snoc: "digits_value (ds @ [d]) = 10 * digits_value ds + (int (of_char d) - 48)"
  by (simp add: digits_value_def)

lemma digits_value_decimal: "digits_value (decimal n) = int n"
proof (induction n rule: decimal_induct)
  case (last n)
  show ?case
  proof (cases "n < 10")
    case True
    then show ?thesis by (simp add: decimal_last [of n] digits_value_def)
  next
    case False
    then show ?thesis using last div_mult_mod_eq [of "int n" 10]
      by (simp add: decimal_last [of n] digits_value_snoc zdiv_int zmod_int)
  qed
qed

text \<open>Text that cannot continue a number.\<close>

definition delimited :: "bytes \<Rightarrow> bool" where
  "delimited t \<longleftrightarrow> t = [] \<or> \<not> is_digit (hd t) \<and> hd t \<notin> set ''.eE''"

lemma delimited_simps [simp]:
  "delimited []" "delimited (CHR '','' # t)" "delimited (CHR '']'' # t)" "delimited (CHR ''}'' # t)"
  "delimited (CHR 10 # t)"
  by (simp_all add: delimited_def is_digit_def between_def)

lemma scan_digits_digits:
  assumes "delimited t"
  shows "scan_digits (decimal n @ t) = Some (decimal n, t)"
proof -
  have "takeWhile is_digit (decimal n @ t) = decimal n" "dropWhile is_digit (decimal n @ t) = t"
    using assms decimal_digit
    by (auto simp: delimited_def takeWhile_append dropWhile_append; cases t; simp)+
  then show ?thesis using decimal_nonempty [of n] by (cases "decimal n") (simp_all add: scan_digits_def)
qed

lemma scan_int_digits:
  assumes "delimited t"
  shows "scan_int (decimal n @ t) = Some (decimal n, t)"
proof (cases "n = 0")
  case True
  moreover have "decimal 0 = ''0''" by code_simp
  ultimately show ?thesis by (simp add: scan_int_def)
next
  case False
  then obtain c cs where c: "decimal n = c # cs" "c \<noteq> CHR ''0''"
    using hd_decimal [of n] decimal_nonempty [of n] by (cases "decimal n") auto
  with scan_digits_digits [OF assms, of n] show ?thesis by (simp add: scan_int_def)
qed

lemma scan_sign_Itoa:
  "scan_sign (Itoa n @ t) = (if n < 0 then ''-'' else [], decimal (nat \<bar>n\<bar>) @ t)"
proof (cases "n < 0")
  case False
  obtain c cs where c: "decimal (nat n) = c # cs" using decimal_nonempty by (cases "decimal (nat n)") auto
  then have "is_digit c" using decimal_digit [of c "nat n"] by simp
  then have "c \<noteq> CHR ''-''" by (auto simp: is_digit_def between_def)
  with False c show ?thesis by (simp add: Itoa_def scan_sign_def)
qed (simp add: Itoa_def scan_sign_def)

lemma scan_number_Itoa:
  assumes "delimited t"
  shows "scan_number (Itoa n @ t) = Some (Itoa n, t)"
proof -
  have "scan_fraction t = Some ([], t)" "scan_exponent t = Some ([], t)"
    using assms by (auto simp: scan_fraction_def scan_exponent_def delimited_def split: list.split)
  then show ?thesis
    using scan_int_digits [OF assms] by (simp add: scan_number_def scan_sign_Itoa) (simp add: Itoa_def)
qed

lemma Itoa_start: "\<exists>c cs. Itoa n = c # cs \<and> (c = CHR ''-'' \<or> is_digit c)"
proof (cases "n < 0")
  case False
  obtain c cs where "decimal (nat n) = c # cs" using decimal_nonempty by (cases "decimal (nat n)") auto
  with False decimal_digit [of c "nat n"] show ?thesis by (simp add: Itoa_def)
qed (simp add: Itoa_def)

lemma parse_Itoa:
  assumes "delimited t"
  shows "parse_value depth (Itoa n @ t) = Some (VNumber (Itoa n), t)"
proof -
  obtain c cs where c: "Itoa n = c # cs" "c = CHR ''-'' \<or> is_digit c" using Itoa_start by blast
  then have "c \<notin> set [CHR ''{'', CHR ''['', dquote, CHR ''t'', CHR ''f'', CHR ''n'']"
    by (auto simp: is_digit_def between_def)
  with c scan_number_Itoa [OF assms, of n] show ?thesis by (simp add: parse_value.simps)
qed

lemma ParseInt_Itoa:
  assumes "fits64 n"
  shows "ParseInt (Itoa n) = Some n"
proof -
  have all: "list_all is_digit (decimal m)" for m by (auto simp: list_all_iff decimal_digit)
  show ?thesis
  proof (cases "n < 0")
    case True
    then show ?thesis using assms all decimal_nonempty
      by (simp add: ParseInt_def Itoa_def digits_value_decimal)
  next
    case False
    obtain c cs where c: "decimal (nat n) = c # cs" using decimal_nonempty by (cases "decimal (nat n)") auto
    then have "c \<noteq> CHR ''-''" using decimal_digit [of c "nat n"] by (auto simp: is_digit_def between_def)
    then show ?thesis using assms False all [of "nat n"] c digits_value_decimal [of "nat n"]
      by (simp add: ParseInt_def Itoa_def)
  qed
qed

section \<open>The parser on encoded values\<close>

lemma scan_quoted: "scan_string (escape s @ dquote # t) = Some (escape s, t)"
  using scan_string_escape [of s "dquote # t"] by (simp add: push_def)

lemma parse_quoted: "parse_value depth (quote_json s @ t) = Some (VString (escape s), t)"
  by (simp add: quote_json_def parse_value.simps scan_quoted)

lemma skip_space_Cons_id: "\<not> json_space c \<Longrightarrow> skip_space (c # cs) = c # cs"
  by (simp add: skip_space_def)

text \<open>A text that is read as one value, whatever delimiter follows it.\<close>

definition reads :: "nat \<Rightarrow> bytes \<Rightarrow> jval \<Rightarrow> bool" where
  "reads depth raw v \<longleftrightarrow>
     raw \<noteq> [] \<and> \<not> json_space (hd raw) \<and> hd raw \<noteq> CHR '']'' \<and>
     (\<forall>t. delimited t \<longrightarrow> parse_value depth (raw @ t) = Some (v, t))"

lemma reads_parse: "reads depth raw v \<Longrightarrow> delimited t \<Longrightarrow> parse_value depth (raw @ t) = Some (v, t)"
  by (simp add: reads_def)

lemma reads_skip: "reads depth raw v \<Longrightarrow> skip_space (raw @ t) = raw @ t"
  by (cases raw) (auto simp: reads_def skip_space_Cons_id)

lemma consumed_append [simp]: "consumed (raw @ t) t = raw"
  by (simp add: consumed_def)

lemma Join_Cons: "xs \<noteq> [] \<Longrightarrow> Join (x # xs) sep = x @ sep @ Join xs sep"
  by (cases xs) simp_all

lemma Join_start: "xs \<noteq> [] \<Longrightarrow> hd xs \<noteq> [] \<Longrightarrow> \<exists>r. Join xs sep = hd xs @ r"
  by (cases xs rule: remdups_adj.cases) simp_all

lemma skip_Join:
  assumes "xs \<noteq> []" "hd xs \<noteq> []" "\<not> json_space (hd (hd xs))"
  shows "skip_space (Join xs sep @ t) = Join xs sep @ t"
proof -
  obtain r where "Join xs sep = hd xs @ r" using Join_start [OF assms(1,2)] by blast
  with assms(2,3) show ?thesis by (cases "hd xs") (simp_all add: skip_space_Cons_id)
qed

lemma parse_elements_reads:
  assumes "es \<noteq> []" "\<forall>(raw, v) \<in> set es. reads depth raw v"
  shows "parse_elements depth (Join (map fst es) '','' @ CHR '']'' # t) = Some (es, t)"
  using assms
proof (induction es rule: list_nonempty_induct)
  case (single e)
  then show ?case
    by (cases e) (simp add: parse_elements.simps reads_parse Let_def skip_space_Cons_id json_space_def)
next
  case (cons e es)
  obtain raw v where e: "e = (raw, v)" by fastforce
  let ?rest = "Join (map fst es) '','' @ CHR '']'' # t"
  have "parse_value depth (raw @ CHR '','' # ?rest) = Some (v, CHR '','' # ?rest)"
    using cons.prems by (intro reads_parse) (auto simp: e)
  moreover have "skip_space ?rest = ?rest"
    using cons.hyps cons.prems
    by (intro skip_Join) (auto simp: reads_def hd_map dest!: hd_in_set)
  ultimately show ?case using cons
    by (simp add: e Join_Cons parse_elements.simps [of depth "raw @ _"] Let_def skip_space_Cons_id
        json_space_def)
qed

definition member_text :: "bytes \<times> bytes \<times> jval \<Rightarrow> bytes" where
  "member_text = (\<lambda>(k, raw, v). quote_json k @ '':'' @ raw)"

definition read_member :: "bytes \<times> bytes \<times> jval \<Rightarrow> bytes \<times> bytes \<times> jval" where
  "read_member = (\<lambda>(k, raw, v). (escape k, raw, v))"

lemma parse_members_reads:
  assumes "ms \<noteq> []" "\<forall>(k, raw, v) \<in> set ms. reads depth raw v"
  shows "parse_members depth (Join (map member_text ms) '','' @ CHR ''}'' # t) = Some (map read_member ms, t)"
  using assms
proof (induction ms rule: list_nonempty_induct)
  case (single m)
  obtain k raw v where m: "m = (k, raw, v)" by (cases m) auto
  have "reads depth raw v" using single by (simp add: m)
  then show ?case
    by (simp add: m member_text_def read_member_def quote_json_def parse_members.simps scan_quoted
        reads_parse reads_skip Let_def skip_space_Cons_id json_space_def)
next
  case (cons m ms)
  obtain k raw v where m: "m = (k, raw, v)" by (cases m) auto
  let ?rest = "Join (map member_text ms) '','' @ CHR ''}'' # t"
  have r: "reads depth raw v" using cons.prems by (simp add: m)
  have "skip_space ?rest = ?rest"
    using cons.hyps by (intro skip_Join) (auto simp: member_text_def hd_map quote_json_def json_space_def
        split: prod.split)
  moreover have written: "Join (map member_text (m # ms)) '','' @ CHR ''}'' # t =
      dquote # escape k @ dquote # CHR '':'' # raw @ CHR '','' # ?rest"
    using cons.hyps by (simp add: m member_text_def Join_Cons quote_json_def)
  ultimately show ?case
    using cons reads_parse [OF r, of "CHR '','' # ?rest"] reads_skip [OF r]
    unfolding written
    by (simp add: parse_members.simps [of depth "dquote # _"] scan_quoted skip_space_Cons_id
        json_space_def Let_def m read_member_def)
qed

lemma reads_list:
  assumes "\<forall>(raw, v) \<in> set es. reads (Suc depth) raw v" "depth < maxNestingDepth"
  shows "reads depth (CHR ''['' # Join (map fst es) '','' @ '']'') (VArray es)"
proof -
  have "parse_value depth (CHR ''['' # Join (map fst es) '','' @ CHR '']'' # t) = Some (VArray es, t)" for t
  proof (cases "es = []")
    case True
    then show ?thesis using assms(2) by (simp add: parse_value.simps skip_space_Cons_id json_space_def)
  next
    case False
    let ?s = "Join (map fst es) '','' @ CHR '']'' # t"
    obtain raw v where e: "hd es = (raw, v)" by fastforce
    then have r: "reads (Suc depth) raw v" using assms(1) hd_in_set [OF False] by auto
    then have skip: "skip_space ?s = ?s" using False e by (intro skip_Join) (auto simp: reads_def hd_map)
    obtain r' where "Join (map fst es) '','' = raw @ r'"
      using Join_start [of "map fst es"] False e r by (fastforce simp: hd_map reads_def)
    then obtain d ds where s: "?s = d # ds" "d \<noteq> CHR '']''" using r by (cases raw) (auto simp: reads_def)
    show ?thesis
      using parse_elements_reads [OF False assms(1), of t] assms(2) skip
      by (simp add: parse_value.simps s)
  qed
  then show ?thesis by (simp add: reads_def json_space_def)
qed

lemma reads_object:
  assumes "\<forall>(k, raw, v) \<in> set ms. reads (Suc depth) raw v" "depth < maxNestingDepth"
  shows "reads depth (CHR ''{'' # Join (map member_text ms) '','' @ ''}'') (VObject (map read_member ms))"
proof -
  have "parse_value depth (CHR ''{'' # Join (map member_text ms) '','' @ CHR ''}'' # t) =
      Some (VObject (map read_member ms), t)" for t
  proof (cases "ms = []")
    case True
    then show ?thesis using assms(2) by (simp add: parse_value.simps skip_space_Cons_id json_space_def)
  next
    case False
    let ?s = "Join (map member_text ms) '','' @ CHR ''}'' # t"
    obtain k raw v where "hd ms = (k, raw, v)" by (cases "hd ms") auto
    then obtain r where r: "hd (map member_text ms) = dquote # r"
      using False by (simp add: hd_map member_text_def quote_json_def)
    then have skip: "skip_space ?s = ?s" using False by (intro skip_Join) (auto simp: json_space_def)
    obtain r' where "Join (map member_text ms) '','' = (dquote # r) @ r'"
      using Join_start [of "map member_text ms"] False r by fastforce
    then obtain ds where s: "?s = dquote # ds" by simp
    show ?thesis
      using parse_members_reads [OF False assms(1), of t] assms(2) skip
      by (simp add: parse_value.simps s)
  qed
  then show ?thesis by (simp add: reads_def json_space_def)
qed

section \<open>What the encoder writes is read back\<close>

text \<open>Values without raw parts, how deep they nest, and what the parser makes of them.\<close>

fun raw_free :: "json \<Rightarrow> bool" where
  "raw_free (JRaw raw) = False"
| "raw_free (JList js) = list_all raw_free js"
| "raw_free (JObject fields) = list_all (\<lambda>(k, j). raw_free j) fields"
| "raw_free (JStruct fields) = list_all (\<lambda>(k, j). raw_free j) fields"
| "raw_free _ = True"

fun nesting :: "json \<Rightarrow> nat" where
  "nesting (JList js) = Suc (foldr max (map nesting js) 0)"
| "nesting (JObject fields) = Suc (foldr max (map (\<lambda>(k, j). nesting j) fields) 0)"
| "nesting (JStruct fields) = Suc (foldr max (map (\<lambda>(k, j). nesting j) fields) 0)"
| "nesting _ = 0"

fun value_of :: "json \<Rightarrow> jval" where
  "value_of JNull = VNull"
| "value_of (JBool b) = VBool b"
| "value_of (JInt n) = VNumber (Itoa n)"
| "value_of (JString s) = VString (escape s)"
| "value_of (JList js) = VArray (map (\<lambda>j. (marshal j, value_of j)) js)"
| "value_of (JRaw raw) = VNull"
| "value_of (JObject fields) =
     VObject (map read_member (sort_key fst (map (\<lambda>(k, j). (k, marshal j, value_of j)) fields)))"
| "value_of (JStruct fields) =
     VObject (map read_member (map (\<lambda>(k, j). (k, marshal j, value_of j)) fields))"


lemma le_foldr_max: "x \<in> set xs \<Longrightarrow> (x::nat) \<le> foldr max xs 0"
  by (induction xs) auto

lemma nested_le:
  "depth + Suc (foldr max (map f xs) 0) \<le> m \<Longrightarrow> x \<in> set xs \<Longrightarrow> Suc depth + f x \<le> (m::nat)"
  using le_foldr_max [of "f x" "map f xs"] by simp

lemma reads_literal:
  "reads depth ''null'' VNull" "reads depth ''true'' (VBool True)" "reads depth ''false'' (VBool False)"
  by (simp_all add: reads_def parse_value.simps literal_def json_space_def)

lemma reads_quoted: "reads depth (quote_json s) (VString (escape s))"
  by (simp add: reads_def parse_quoted) (simp add: quote_json_def json_space_def)

lemma reads_Itoa: "reads depth (Itoa n) (VNumber (Itoa n))"
proof -
  obtain c cs where c: "Itoa n = c # cs" "c = CHR ''-'' \<or> is_digit c" using Itoa_start by blast
  then have "\<not> json_space c" "c \<noteq> CHR '']''" by (auto simp: json_space_def is_digit_def between_def)
  moreover have "Itoa n \<noteq> []" "hd (Itoa n) = c" using c(1) by simp_all
  ultimately show ?thesis by (simp add: reads_def parse_Itoa)
qed

lemma insort_apsnd:
  "insort_key fst (apsnd f x) (map (apsnd f) xs) = map (apsnd f) (insort_key fst x xs)"
  by (induction xs) auto

lemma sort_apsnd: "sort_key fst (map (apsnd f) xs) = map (apsnd f) (sort_key fst xs)"
  by (induction xs) (simp_all add: insort_apsnd)

lemma member_texts: "map member_text xs = map (\<lambda>(k, v). quote_json k @ '':'' @ v) (map (apsnd fst) xs)"
  by (simp add: member_text_def case_prod_unfold)

lemma marshal_object_texts:
  "marshal (JObject fields) =
     CHR ''{'' # Join (map member_text (sort_key fst (map (\<lambda>(k, j). (k, marshal j, value_of j)) fields))) '','' @ ''}''"
proof -
  have "map (\<lambda>(k, v). (k, marshal v)) fields = map (apsnd fst) (map (\<lambda>(k, j). (k, marshal j, value_of j)) fields)"
    by (simp add: case_prod_unfold)
  then show ?thesis
    by (simp only: marshal.simps member_texts sort_apsnd) simp
qed

lemma marshal_struct_texts:
  "marshal (JStruct fields) =
     CHR ''{'' # Join (map member_text (map (\<lambda>(k, j). (k, marshal j, value_of j)) fields)) '','' @ ''}''"
proof -
  have "map (\<lambda>(k, v). quote_json k @ '':'' @ marshal v) fields =
      map member_text (map (\<lambda>(k, j). (k, marshal j, value_of j)) fields)"
    by (simp add: member_text_def case_prod_unfold)
  then show ?thesis by (simp only: marshal.simps) simp
qed

lemma parse_marshal:
  "raw_free j \<Longrightarrow> depth + nesting j \<le> maxNestingDepth \<Longrightarrow> reads depth (marshal j) (value_of j)"
proof (induction j arbitrary: depth)
  case (JList js)
  have "\<forall>(raw, v) \<in> set (map (\<lambda>j. (marshal j, value_of j)) js). reads (Suc depth) raw v"
    using JList.IH JList.prems nested_le [of depth nesting js]
    by (auto simp: list_all_iff)
  then show ?case using reads_list [of "map (\<lambda>j. (marshal j, value_of j)) js" depth] JList.prems
    by (simp add: comp_def)
next
  case (JObject fields)
  have "\<forall>(k, raw, v) \<in> set (map (\<lambda>(k, j). (k, marshal j, value_of j)) fields). reads (Suc depth) raw v"
    using JObject.IH JObject.prems nested_le [of depth "\<lambda>(k, j). nesting j" fields]
    by (fastforce simp: list_all_iff)
  then show ?case unfolding marshal_object_texts value_of.simps
    using JObject.prems by (intro reads_object) auto
next
  case (JStruct fields)
  have "\<forall>(k, raw, v) \<in> set (map (\<lambda>(k, j). (k, marshal j, value_of j)) fields). reads (Suc depth) raw v"
    using JStruct.IH JStruct.prems nested_le [of depth "\<lambda>(k, j). nesting j" fields]
    by (fastforce simp: list_all_iff)
  then show ?case unfolding marshal_struct_texts value_of.simps
    using JStruct.prems by (intro reads_object) auto
qed (simp_all add: reads_literal reads_quoted reads_Itoa)

lemma Parse_reads: "reads 0 raw v \<Longrightarrow> delimited t \<Longrightarrow> Parse (raw @ t) = Some (raw, v, t)"
  by (simp add: Parse_def reads_skip reads_parse)

lemma Parse_marshal:
  "raw_free j \<Longrightarrow> nesting j \<le> maxNestingDepth \<Longrightarrow> delimited t \<Longrightarrow>
   Parse (marshal j @ t) = Some (marshal j, value_of j, t)"
  by (intro Parse_reads parse_marshal) simp_all

lemma Valid_marshal: "raw_free j \<Longrightarrow> nesting j \<le> maxNestingDepth \<Longrightarrow> Valid (marshal j)"
  using Parse_marshal [of j "[]"] by (simp add: Valid_def skip_space_def)

section \<open>Objects of strings\<close>

definition string_object :: "(string \<times> string) list \<Rightarrow> json" where
  "string_object kvs = JObject (map (\<lambda>(k, v). (k, JString v)) kvs)"

lemma string_object_flat: "raw_free (string_object kvs)" "nesting (string_object kvs) = 1"
proof -
  show "raw_free (string_object kvs)" by (auto simp: string_object_def list_all_iff)
  have "foldr max (map (\<lambda>(k, j). nesting j) (map (\<lambda>(k, v). (k, JString v)) kvs)) 0 = 0"
    by (induction kvs) auto
  then show "nesting (string_object kvs) = 1" by (simp add: string_object_def)
qed

lemma Valid_string_object: "Valid (marshal (string_object kvs))"
  by (intro Valid_marshal) (simp_all add: string_object_flat maxNestingDepth_def)

definition read_string :: "string \<times> string \<Rightarrow> bytes \<times> bytes \<times> jval" where
  "read_string kv = (escape (fst kv), quote_json (snd kv), VString (escape (snd kv)))"

lemma value_of_string_object:
  "value_of (string_object kvs) = VObject (map read_string (sort_key fst kvs))"
proof -
  have "map (\<lambda>(k, j). (k, marshal j, value_of j)) (map (\<lambda>(k, v). (k, JString v)) kvs) =
      map (apsnd (\<lambda>v. (quote_json v, VString (escape v)))) kvs"
    by (auto simp: apsnd_def)
  then show ?thesis
    by (simp only: string_object_def value_of.simps sort_apsnd)
       (simp add: read_member_def read_string_def case_prod_unfold)
qed

lemma decode_entries_strings:
  "\<exists>m'. decode_entries decode_string zero (map read_string kvs) m = Some m' \<and>
     map_of m' = map_of m ++ map_of (rev (map (\<lambda>(k, v). (to_utf8 k, to_utf8 v)) kvs))"
proof (induction kvs arbitrary: m)
  case (Cons kv kvs)
  obtain k v where kv: "kv = (k, v)" by fastforce
  obtain m' where m': "decode_entries decode_string zero (map read_string kvs) (AList.update (to_utf8 k) (to_utf8 v) m) = Some m'"
    "map_of m' = map_of (AList.update (to_utf8 k) (to_utf8 v) m) ++ map_of (rev (map (\<lambda>(k, v). (to_utf8 k, to_utf8 v)) kvs))"
    using Cons.IH by blast
  have "read_string kv = (escape k, quote_json v, VString (escape v))" by (simp add: kv read_string_def)
  moreover have "decode_string raw (VString (escape v)) old = Some (to_utf8 v)" for raw old
    by (simp add: decode_string_def unquote_escape)
  ultimately show ?case using m' by (simp add: kv unquote_escape update_conv')
qed simp

text \<open>
  Every object of strings with distinct names, all of them UTF-8, is read back from what the
  encoder writes.
\<close>

lemma string_object_roundtrip:
  assumes "distinct (map fst kvs)" "\<forall>(k, v) \<in> set kvs. to_utf8 k = k \<and> to_utf8 v = v"
  shows "\<exists>m. Unmarshal (decode_map decode_string []) [] (marshal (string_object kvs)) = Some m \<and>
    map_of m = map_of kvs"
proof -
  have sorted: "map (\<lambda>(k, v). (to_utf8 k, to_utf8 v)) (sort_key fst kvs) = sort_key fst kvs"
    using assms(2) by (intro map_idI) auto
  obtain m where m: "decode_entries decode_string [] (map read_string (sort_key fst kvs)) [] = Some m"
    "map_of m = map_of (rev (sort_key fst kvs))"
    using decode_entries_strings [of "[]" "sort_key fst kvs" "[]"] by (auto simp: sorted)
  have "map_of (rev (sort_key fst kvs)) = map_of kvs"
    using assms(1) by (subst map_of_inject_set) (simp_all add: distinct_map rev_map)
  moreover have "Parse (marshal (string_object kvs)) = Some (marshal (string_object kvs), value_of (string_object kvs), [])"
    using Parse_marshal [of "string_object kvs" "[]"] by (simp add: string_object_flat maxNestingDepth_def)
  ultimately show ?thesis using m
    by (simp add: Unmarshal_def value_of_string_object skip_space_def decode_map_def)
qed

end
