(* ===== verification/Downstream.thy ===== *)
theory Downstream
  imports Manifest Results Json_Laws
begin

text \<open>
  The call to the system of record (\<open>internal/downstream\<close>) and the probe that asks whether a
  call was executed (\<open>internal/probe\<close>). What the network and the peer do is an argument of
  \<open>Execute\<close> and \<open>Executions\<close>: the error a step reports, or a status and a body. For a call,
  \<open>Client_Do\<close> says how \<open>http.Client\<close> arrives at it from the answers to the single requests, since the
  client follows redirects; for a probe it is the answer at the end of such a chain.
\<close>

section \<open>Data\<close>

datatype disposition = Indeterminate | Done | Failed

fun disposition_text :: "disposition \<Rightarrow> string" where
  "disposition_text Done = ''done''"
| "disposition_text Failed = ''failed''"
| "disposition_text Indeterminate = ''indeterminate''"

record call_outcome =
  co_Disposition :: disposition
  co_Result :: bytes
  co_Detail :: string

record call_request =
  cr_AgentID :: string
  cr_Key :: string
  cr_ResourceType :: string
  cr_ResourceID :: string
  cr_Operation :: string
  cr_Payload :: bytes
  cr_Classification :: error_classification

text \<open>
  What goes over the wire, and how a round trip can end: the dial fails, the exchange fails after
  the dial, the body cannot be read, or a response arrives.
\<close>

record wire_call =
  wc_body :: bytes
  wc_correlation :: string

datatype transport_error = NotDialed string | AfterDial string

datatype exchange = TransportError transport_error | BodyError int string | Response int bytes

section \<open>The HTTP client\<close>

text \<open>
  \<open>http.Client.Do\<close> as \<open>New\<close> sets it up: no \<open>CheckRedirect\<close>, and \<open>GetBody\<close> is nil on a request with
  a body. An answer of 301, 302 or 303 is followed by a GET without the body, to the target its
  \<open>Location\<close> names, with the header of the first request; 307 and 308 would need the body again and
  are handed to the caller, as is a redirect without a \<open>Location\<close>. A \<open>Location\<close> that cannot be parsed and
  an eleventh request are errors, and neither is one of the dialer. The answer to a request may depend
  on all the requests sent before it.
\<close>

datatype sent = Posted string wire_call | Got string string

datatype location = NoLocation | BadLocation string | Location string

datatype hop = HopError transport_error | HopAnswer int location "string + bytes"

definition body_of :: "int \<Rightarrow> string + bytes \<Rightarrow> exchange" where
  "body_of status body = (case body of Inl e \<Rightarrow> BodyError status e | Inr payload \<Rightarrow> Response status payload)"

definition redirects :: "int \<Rightarrow> bool" where
  "redirects status \<longleftrightarrow> status \<in> {301, 302, 303}"

fun correlation_of :: "sent \<Rightarrow> string" where
  "correlation_of (Posted url call) = wc_correlation call"
| "correlation_of (Got url cid) = cid"

function client_hops :: "(sent list \<Rightarrow> hop) \<Rightarrow> sent list \<Rightarrow> exchange \<times> sent list" where
  "client_hops rt reqs =
     (case rt reqs of
        HopError err \<Rightarrow> (TransportError err, reqs)
      | HopAnswer status loc body \<Rightarrow>
          (if \<not> redirects status then (body_of status body, reqs)
           else case loc of
             NoLocation \<Rightarrow> (body_of status body, reqs)
           | BadLocation e \<Rightarrow> (TransportError (AfterDial e), reqs)
           | Location url \<Rightarrow>
               (if 10 \<le> length reqs then (TransportError (AfterDial ''stopped after 10 redirects''), reqs)
                else client_hops rt (reqs @ [Got url (correlation_of (hd reqs))]))))"
  by pat_completeness auto
termination by (relation "measure (\<lambda>(rt, reqs). 10 - length reqs)") auto

declare client_hops.simps [simp del]

definition Client_Do :: "(sent list \<Rightarrow> hop) \<Rightarrow> string \<Rightarrow> wire_call \<Rightarrow> exchange \<times> sent list" where
  "Client_Do rt url call = client_hops rt [Posted url call]"

section \<open>Execute\<close>

definition asJSON :: "bytes \<Rightarrow> bytes" where
  "asJSON payload = (if Valid payload then payload else marshal (string_object [(''raw'', payload)]))"

definition classifyTransportError :: "transport_error \<Rightarrow> call_outcome" where
  "classifyTransportError err =
     (case err of
        NotDialed e \<Rightarrow> \<lparr>co_Disposition = Failed, co_Result = [], co_Detail = ''downstream_unreachable: '' @ e\<rparr>
      | AfterDial e \<Rightarrow>
          \<lparr>co_Disposition = Indeterminate, co_Result = [], co_Detail = ''downstream_timeout_after_send: '' @ e\<rparr>)"

definition classifyResponse :: "error_classification \<Rightarrow> int \<Rightarrow> bytes \<Rightarrow> call_outcome" where
  "classifyResponse classification status payload =
     (if IsDefinitive classification status
      then \<lparr>co_Disposition = Done, co_Result = asJSON payload, co_Detail = []\<rparr>
      else if IsNotExecuted classification status
      then \<lparr>co_Disposition = Failed, co_Result = asJSON payload,
            co_Detail = ''downstream_declined_status_'' @ Itoa status\<rparr>
      else \<lparr>co_Disposition = Indeterminate, co_Result = asJSON payload,
            co_Detail = ''downstream_status_'' @ Itoa status\<rparr>)"

definition request_body :: "call_request \<Rightarrow> json" where
  "request_body req =
     JObject [(''resource_type'', JString (cr_ResourceType req)),
              (''resource_id'', JString (cr_ResourceID req)),
              (''operation'', JString (cr_Operation req)),
              (''payload'', JRaw (cr_Payload req))]"

definition wire :: "call_request \<Rightarrow> wire_call" where
  "wire req = \<lparr>wc_body = marshal (request_body req), wc_correlation = ID (cr_AgentID req) (cr_Key req)\<rparr>"

text \<open>
  The errors of the two steps before the exchange carry a text of the Go library:
  \<open>encode_error\<close> when the payload is not JSON, \<open>build_error\<close> when the request cannot be made.
  \<open>exchange\<close> is \<open>c.http.Do\<close> and the reading of the body, \<open>fst (Client_Do rt url call)\<close> for what the
  network does.
\<close>

definition Execute ::
  "string \<Rightarrow> string option \<Rightarrow> (wire_call \<Rightarrow> exchange) \<Rightarrow> call_request \<Rightarrow> call_outcome" where
  "Execute encode_error build_error exchange req =
     (if cr_Payload req \<noteq> [] \<and> \<not> Valid (cr_Payload req)
      then \<lparr>co_Disposition = Failed, co_Result = [], co_Detail = ''encode request: '' @ encode_error\<rparr>
      else case build_error of
        Some e \<Rightarrow> \<lparr>co_Disposition = Failed, co_Result = [], co_Detail = ''build request: '' @ e\<rparr>
      | None \<Rightarrow>
          (case exchange (wire req) of
             TransportError err \<Rightarrow> classifyTransportError err
           | BodyError status e \<Rightarrow>
               \<lparr>co_Disposition = Indeterminate, co_Result = [], co_Detail = ''read response after send: '' @ e\<rparr>
           | Response status payload \<Rightarrow> classifyResponse (cr_Classification req) status payload))"

section \<open>The probe\<close>

record probe_verdict =
  pv_Executions :: int
  pv_Result :: bytes

datatype probe_outcome = Unknown | Executed | NotExecuted

fun probe_outcome_text :: "probe_outcome \<Rightarrow> string" where
  "probe_outcome_text Executed = ''executed''"
| "probe_outcome_text NotExecuted = ''not_executed''"
| "probe_outcome_text Unknown = ''unknown''"

datatype probe_error = ProbeBuild | ProbeTransport | ProbeStatus int | ProbeDecode

datatype probe_exchange = ProbeNotBuilt | ProbeNoReply | ProbeReply int bytes

record probe_body =
  pb_Count :: int
  pb_Executions :: "bytes list"

definition decode_probe :: "bytes \<Rightarrow> probe_body option" where
  "decode_probe = Decode (decode_struct
     [(''count'', \<lambda>raw v r. map_option (\<lambda>x. r\<lparr>pb_Count := x\<rparr>) (decode_int raw v (pb_Count r))),
      (''executions'', \<lambda>raw v r.
         map_option (\<lambda>x. r\<lparr>pb_Executions := x\<rparr>) (decode_list decode_raw [] raw v (pb_Executions r)))])
     \<lparr>pb_Count = 0, pb_Executions = []\<rparr>"

text \<open>The exchange of a probe, by path and correlation identifier.\<close>

definition Executions ::
  "(string \<Rightarrow> string \<Rightarrow> probe_exchange) \<Rightarrow> string \<Rightarrow> string \<Rightarrow> string \<Rightarrow> probe_error + probe_verdict" where
  "Executions exchange path agentID key =
     (case exchange path (ID agentID key) of
        ProbeNotBuilt \<Rightarrow> Inl ProbeBuild
      | ProbeNoReply \<Rightarrow> Inl ProbeTransport
      | ProbeReply status body \<Rightarrow>
          (if status \<noteq> StatusOK then Inl (ProbeStatus status)
           else case decode_probe body of
             None \<Rightarrow> Inl ProbeDecode
           | Some decoded \<Rightarrow>
               Inr \<lparr>pv_Executions = pb_Count decoded,
                    pv_Result = (if length (pb_Executions decoded) > 0 then last (pb_Executions decoded) else [])\<rparr>))"

definition Probe ::
  "(string \<Rightarrow> string \<Rightarrow> probe_exchange) \<Rightarrow> string \<Rightarrow> string \<Rightarrow> string
   \<Rightarrow> probe_error + probe_outcome \<times> bytes" where
  "Probe exchange path agentID key =
     (case Executions exchange path agentID key of
        Inl e \<Rightarrow> Inl e
      | Inr verdict \<Rightarrow>
          (if pv_Executions verdict = 0 then Inr (NotExecuted, []) else Inr (Executed, pv_Result verdict)))"

section \<open>The interface of a system of record\<close>

text \<open>
  What the program relies on at the other end of the wire. \<open>deliver\<close> processes one call and
  gives a status, a body and the state after it, \<open>answer\<close> replies to a probe, \<open>executions\<close>
  counts what was executed under a correlation identifier, \<open>inv\<close> is an invariant of its state and
  \<open>admitted\<close> holds of the classifications that describe it. A call executes at most once and
  under its own identifier, it is not answered with a redirect the client would follow, a status
  classified as not executed tells the truth, and so does a probe that finds nothing.
\<close>

locale system_of_record =
  fixes deliver :: "'e \<Rightarrow> 'd \<Rightarrow> wire_call \<Rightarrow> (int \<times> bytes) \<times> 'd"
    and answer :: "'d \<Rightarrow> string \<Rightarrow> string \<Rightarrow> probe_exchange"
    and executions :: "'d \<Rightarrow> string \<Rightarrow> nat"
    and inv :: "'d \<Rightarrow> bool"
    and admitted :: "error_classification \<Rightarrow> bool"
  assumes inv_deliver: "inv d \<Longrightarrow> inv (snd (deliver e d w))"
    and deliver_other: "inv d \<Longrightarrow> cid \<noteq> wc_correlation w \<Longrightarrow> executions (snd (deliver e d w)) cid = executions d cid"
    and deliver_own: "inv d \<Longrightarrow> executions (snd (deliver e d w)) (wc_correlation w) \<le> Suc (executions d (wc_correlation w))"
    and deliver_final: "inv d \<Longrightarrow> \<not> redirects (fst (fst (deliver e d w)))"
    and deliver_declined: "inv d \<Longrightarrow> admitted c \<Longrightarrow> IsNotExecuted c (fst (fst (deliver e d w))) \<Longrightarrow>
      executions (snd (deliver e d w)) cid = executions d cid"
    and probe_none: "inv d \<Longrightarrow> Probe (answer d) path a k = Inr (NotExecuted, r) \<Longrightarrow> executions d (ID a k) = 0"
begin

text \<open>
  The answer to the call is the end of the exchange, and a call the program takes for failed after an
  answer was not executed.
\<close>

lemma deliver_answers:
  assumes "inv d" "rt [Posted url w] = HopAnswer (fst (fst (deliver e d w))) loc body"
  shows "Client_Do rt url w = (body_of (fst (fst (deliver e d w))) body, [Posted url w])"
  using assms deliver_final [OF assms(1), of e w] by (simp add: Client_Do_def client_hops.simps [of rt "[Posted url w]"])

lemma failed_not_executed:
  assumes "inv d" "admitted (cr_Classification req)" "cr_Payload req = [] \<or> Valid (cr_Payload req)"
    and "rt [Posted url (wire req)] = HopAnswer (fst (fst (deliver e d (wire req)))) loc body"
    and "co_Disposition (Execute ee None (\<lambda>w. fst (Client_Do rt url w)) req) = Failed"
  shows "executions (snd (deliver e d (wire req))) cid = executions d cid"
  using assms(3,5) deliver_answers [of d rt url "wire req" e loc body, OF assms(1,4)]
  by (intro deliver_declined [OF assms(1,2)])
     (auto simp: Execute_def body_of_def classifyResponse_def split: if_splits sum.splits)

end

section \<open>Properties\<close>

lemma asJSON_valid: "Valid (asJSON payload)"
  by (simp add: asJSON_def Valid_string_object)








text \<open>Whatever bytes the downstream answers with, the result kept for replay is valid JSON: a
  body that is JSON is kept as it is, any other is wrapped in an object of one string. Only
  outcomes without a response have no result.\<close>

theorem Execute_result_valid:
  "co_Result (Execute ee be ex req) = [] \<or> Valid (co_Result (Execute ee be ex req))"
  by (auto simp: Execute_def classifyTransportError_def classifyResponse_def asJSON_valid
      split: option.split exchange.split transport_error.split)

text \<open>A count that the answer does not give is zero.\<close>

definition no_count :: "(bytes \<times> bytes \<times> jval) list \<Rightarrow> bool" where
  "no_count ms \<longleftrightarrow> list_all (\<lambda>(name, _). fold_name (unquote name) \<noteq> ''count'') ms"

lemma decode_members_keeps:
  assumes "decode_members flds ms r = Some r'" "f r = z"
    and "\<And>n dec raw v x y. map_of flds n = Some dec \<Longrightarrow> n \<in> (\<lambda>(name, _). fold_name (unquote name)) ` set ms \<Longrightarrow>
      dec raw v x = Some y \<Longrightarrow> f x = z \<Longrightarrow> f y = z"
  shows "f r' = z"
  using assms
proof (induction flds ms r rule: decode_members.induct)
  case (2 flds name raw v ms r)
  then show ?case
    by (cases "map_of flds (fold_name (unquote name))"; cases "the (map_of flds (fold_name (unquote name))) raw v r") auto
qed simp

lemma decode_probe_no_count:
  assumes "Parse body = Some (raw, VObject ms, rest)" "no_count ms" "decode_probe body = Some d"
  shows "pb_Count d = 0"
proof -
  have none: "(n, raw, v) \<notin> set ms" if "''count'' = fold_name (unquote n)" for n raw v
    using assms(2) that by (fastforce simp: no_count_def list_all_iff)
  show ?thesis
    using assms(1,3) unfolding decode_probe_def Decode_def decode_struct_def
    by simp (erule decode_members_keeps [where f = pb_Count], auto simp: none split: if_splits)
qed

text \<open>C20: The probe takes silence for proof. A verdict needs an answer of 200, but an answer whose object
  has no \<open>count\<close>, whatever else it says, or which is \<open>null\<close>, gives the verdict \<open>not executed\<close>: the count
  that is not there is decoded as zero. The decision on outcomes requires that \<open>not executed\<close> is proven,
  not assumed; an answer that lists an execution and omits the count is enough to settle the key as
  failed.\<close>

theorem Probe_assumes_zero:
  "(\<forall>body raw ms rest. Parse body = Some (raw, VObject ms, rest) \<and> no_count ms \<and> decode_probe body \<noteq> None \<longrightarrow>
      Probe (\<lambda>_ _. ProbeReply StatusOK body) path a k = Inr (NotExecuted, [])) \<and>
   Probe (\<lambda>_ _. ProbeReply StatusOK ''null'') path a k = Inr (NotExecuted, []) \<and>
   Probe (\<lambda>_ _. ProbeReply StatusOK ''{\"executions\":[{\"sequence\":1}]}'') path a k = Inr (NotExecuted, []) \<and>
   (\<forall>ex verdict. Probe ex path a k = Inr verdict \<longrightarrow>
      (\<exists>body. ex path (ID a k) = ProbeReply StatusOK body \<and> decode_probe body \<noteq> None))"
proof (intro conjI allI impI)
  fix body raw ms rest
  assume "Parse body = Some (raw, VObject ms, rest) \<and> no_count ms \<and> decode_probe body \<noteq> None"
  then show "Probe (\<lambda>_ _. ProbeReply StatusOK body) path a k = Inr (NotExecuted, [])"
    using decode_probe_no_count [of body raw ms rest] by (auto simp: Probe_def Executions_def)
next
  have "decode_probe ''null'' = Some \<lparr>pb_Count = 0, pb_Executions = []\<rparr>"
    "decode_probe ''{\"executions\":[{\"sequence\":1}]}'' = Some \<lparr>pb_Count = 0, pb_Executions = [''{\"sequence\":1}'']\<rparr>"
    by code_simp+
  then show "Probe (\<lambda>_ _. ProbeReply StatusOK ''null'') path a k = Inr (NotExecuted, [])"
    "Probe (\<lambda>_ _. ProbeReply StatusOK ''{\"executions\":[{\"sequence\":1}]}'') path a k = Inr (NotExecuted, [])"
    by (simp_all add: Probe_def Executions_def)
next
  fix ex verdict assume "Probe ex path a k = Inr verdict"
  then show "\<exists>body. ex path (ID a k) = ProbeReply StatusOK body \<and> decode_probe body \<noteq> None"
    by (auto simp: Probe_def Executions_def split: probe_exchange.splits if_splits option.splits)
qed

theorem Probe_assumes_zero_witness:
  "Probe (\<lambda>_ _. ProbeReply StatusOK ''{\"error\":\"ledger offline\"}'') ''/probe'' ''a'' ''k'' = Inr (NotExecuted, [])"
proof -
  let ?b = "''{\"error\":\"ledger offline\"}''"
  have "case Parse ?b of Some (raw, VObject ms, rest) \<Rightarrow> no_count ms | _ \<Rightarrow> False" "decode_probe ?b \<noteq> None"
    by code_simp+
  then show ?thesis
    using Probe_assumes_zero [of "''/probe''" "''a''" "''k''"] by (fastforce split: option.splits prod.splits jval.splits)
qed

end
