(* ===== verification/Ledger.thy ===== *)
theory Ledger
  imports Downstream
begin

text \<open>
  The scripted system of record the end-to-end tests run against (\<open>cmd/fakedownstream\<close>): an
  append-only ledger of executions with an index by correlation identifier, scripts that say how
  the next calls for a resource behave, and the handlers of its two listeners. The time an
  execution was received is kept as the text it is written with.
\<close>

section \<open>The ledger\<close>

record execution =
  x_Sequence :: int
  x_CorrelationID :: string
  x_ResourceType :: string
  x_ResourceID :: string
  x_Operation :: string
  x_Behavior :: string
  x_ReceivedAt :: string

definition execution_json :: "execution \<Rightarrow> json" where
  "execution_json e =
     JStruct [(''sequence'', JInt (x_Sequence e)),
              (''correlation_id'', JString (x_CorrelationID e)),
              (''resource_type'', JString (x_ResourceType e)),
              (''resource_id'', JString (x_ResourceID e)),
              (''operation'', JString (x_Operation e)),
              (''behavior'', JString (x_Behavior e)),
              (''received_at'', JString (x_ReceivedAt e))]"

record ledger =
  l_file :: bytes
  l_records :: "execution list"
  l_byID :: "string \<rightharpoonup> execution list"
  l_durable :: bool

text \<open>The file may hold executions of an earlier run; they are not read back.\<close>

definition openLedger :: "bytes \<Rightarrow> bool \<Rightarrow> ledger" where
  "openLedger file durable = \<lparr>l_file = file, l_records = [], l_byID = Map.empty, l_durable = durable\<rparr>"

text \<open>What can go wrong while an execution is recorded; a failed write leaves part of the line.\<close>

datatype ledger_fault = EncodeFails string | WriteFails nat string | SyncFails string

definition indexed :: "ledger \<Rightarrow> string \<Rightarrow> execution list" where
  "indexed l cid = (case l_byID l cid of None \<Rightarrow> [] | Some es \<Rightarrow> es)"

definition ledger_line :: "execution \<Rightarrow> bytes" where
  "ledger_line e = marshal (execution_json e) @ [CHR 10]"

definition ledger_append :: "ledger \<Rightarrow> execution \<Rightarrow> ledger" where
  "ledger_append l e = l\<lparr>l_file := l_file l @ ledger_line e, l_records := l_records l @ [e],
     l_byID := (l_byID l)(x_CorrelationID e \<mapsto> indexed l (x_CorrelationID e) @ [e])\<rparr>"

definition ledger_record :: "ledger_fault option \<Rightarrow> ledger \<Rightarrow> execution \<Rightarrow> (string + execution) \<times> ledger" where
  "ledger_record fault l e0 =
     (let e = e0\<lparr>x_Sequence := int (length (l_records l)) + 1\<rparr> in
      case fault of
        Some (EncodeFails m) \<Rightarrow> (Inl (''encode execution: '' @ m), l)
      | Some (WriteFails n m) \<Rightarrow>
          (Inl (''append to ledger: '' @ m), l\<lparr>l_file := l_file l @ take n (ledger_line e)\<rparr>)
      | Some (SyncFails m) \<Rightarrow>
          (if l_durable l
           then (Inl (''sync ledger: '' @ m), l\<lparr>l_file := l_file l @ ledger_line e\<rparr>)
           else (Inr e, ledger_append l e))
      | None \<Rightarrow> (Inr e, ledger_append l e))"

definition byCorrelation :: "ledger \<Rightarrow> string \<Rightarrow> execution list" where
  "byCorrelation l cid = (if cid = [] then l_records l else indexed l cid)"

section \<open>Scripts\<close>

definition behaviorSucceed :: string where "behaviorSucceed = ''succeed''"
definition behaviorBusinessFailure :: string where "behaviorBusinessFailure = ''business-failure''"
definition behaviorHang :: string where "behaviorHang = ''hang''"
definition behaviorSlow :: string where "behaviorSlow = ''slow''"
definition behaviorRefuse :: string where "behaviorRefuse = ''refuse''"

definition hangCap :: duration where "hangCap = 5 * 60 * 1000000000"
definition slowDelay :: duration where "slowDelay = 400 * 1000000"

type_synonym scripts = "string \<rightharpoonup> string list"

definition install_script :: "scripts \<Rightarrow> string \<Rightarrow> string list \<Rightarrow> scripts" where
  "install_script s resourceID behaviors = s(resourceID \<mapsto> behaviors)"

definition pop_script :: "scripts \<Rightarrow> string \<Rightarrow> string \<times> scripts" where
  "pop_script s resourceID =
     (case s resourceID of
        Some (b # bs) \<Rightarrow> (b, s(resourceID \<mapsto> bs))
      | _ \<Rightarrow> (behaviorSucceed, s))"

section \<open>Handlers\<close>

record execute_request =
  er_ResourceType :: string
  er_ResourceID :: string
  er_Operation :: string
  er_Payload :: bytes

definition decode_execute :: "bytes \<Rightarrow> execute_request option" where
  "decode_execute = Decode (decode_struct
     [(''resource_type'', \<lambda>raw v r. map_option (\<lambda>x. r\<lparr>er_ResourceType := x\<rparr>) (decode_string raw v (er_ResourceType r))),
      (''resource_id'', \<lambda>raw v r. map_option (\<lambda>x. r\<lparr>er_ResourceID := x\<rparr>) (decode_string raw v (er_ResourceID r))),
      (''operation'', \<lambda>raw v r. map_option (\<lambda>x. r\<lparr>er_Operation := x\<rparr>) (decode_string raw v (er_Operation r))),
      (''payload'', \<lambda>raw v r. map_option (\<lambda>x. r\<lparr>er_Payload := x\<rparr>) (decode_raw raw v (er_Payload r)))])
     \<lparr>er_ResourceType = [], er_ResourceID = [], er_Operation = [], er_Payload = []\<rparr>"

record fake =
  f_ledger :: ledger
  f_scripts :: scripts

text \<open>
  A response: its status, its body, and how long the handler holds it back. A handler that
  writes nothing answers 200 with an empty body, if the client is still there.
\<close>

record reply =
  rp_status :: int
  rp_body :: bytes
  rp_delay :: duration

definition writeJSON :: "int \<Rightarrow> json \<Rightarrow> reply" where
  "writeJSON status body = \<lparr>rp_status = status, rp_body = marshal body @ [CHR 10], rp_delay = 0\<rparr>"

definition noContent :: reply where
  "noContent = \<lparr>rp_status = 204, rp_body = [], rp_delay = 0\<rparr>"

definition applied :: "execution \<Rightarrow> reply" where
  "applied recorded = writeJSON StatusOK
     (JObject [(''status'', JString ''applied''), (''sequence'', JInt (x_Sequence recorded))])"

definition handleExecute ::
  "ledger_fault option \<Rightarrow> string \<Rightarrow> fake \<Rightarrow> wire_call \<Rightarrow> reply \<times> fake" where
  "handleExecute fault now f call =
     (case decode_execute (wc_body call) of
        None \<Rightarrow> (writeJSON 400 (JObject [(''error'', JString ''malformed body'')]), f)
      | Some req \<Rightarrow>
          (let (behavior, scripts) = pop_script (f_scripts f) (er_ResourceID req) in
           if behavior = behaviorRefuse
           then (writeJSON 429 (JObject [(''status'', JString ''refused''), (''reason'', JString ''rate_limited'')]),
                 f\<lparr>f_scripts := scripts\<rparr>)
           else case ledger_record fault (f_ledger f)
               \<lparr>x_Sequence = 0, x_CorrelationID = wc_correlation call, x_ResourceType = er_ResourceType req,
                x_ResourceID = er_ResourceID req, x_Operation = er_Operation req, x_Behavior = behavior,
                x_ReceivedAt = now\<rparr> of
             (Inl err, l) \<Rightarrow>
               (writeJSON 500 (JObject [(''error'', JString err)]), f\<lparr>f_ledger := l, f_scripts := scripts\<rparr>)
           | (Inr recorded, l) \<Rightarrow>
               (if behavior = behaviorBusinessFailure
                then writeJSON 422 (JObject [(''status'', JString ''rejected''), (''reason'', JString ''insufficient_funds'')])
                else if behavior = behaviorSlow then (applied recorded)\<lparr>rp_delay := slowDelay\<rparr>
                else if behavior = behaviorHang then \<lparr>rp_status = StatusOK, rp_body = [], rp_delay = hangCap\<rparr>
                else applied recorded,
                f\<lparr>f_ledger := l, f_scripts := scripts\<rparr>)))"

definition probe_json :: "execution list \<Rightarrow> json" where
  "probe_json found =
     JObject [(''count'', JInt (int (length found))),
              (''executions'', if found = [] then JNull else JList (map execution_json found))]"

definition handleProbe :: "fake \<Rightarrow> string \<Rightarrow> reply" where
  "handleProbe f cid = writeJSON StatusOK (probe_json (byCorrelation (f_ledger f) cid))"

record script_request =
  sr_ResourceID :: string
  sr_Behaviors :: "string list"

definition decode_script :: "bytes \<Rightarrow> script_request option" where
  "decode_script = Decode (decode_struct
     [(''resource_id'', \<lambda>raw v r. map_option (\<lambda>x. r\<lparr>sr_ResourceID := x\<rparr>) (decode_string raw v (sr_ResourceID r))),
      (''behaviors'', \<lambda>raw v r.
         map_option (\<lambda>x. r\<lparr>sr_Behaviors := x\<rparr>) (decode_list decode_string [] raw v (sr_Behaviors r)))])
     \<lparr>sr_ResourceID = [], sr_Behaviors = []\<rparr>"

definition handleScript :: "fake \<Rightarrow> bytes \<Rightarrow> reply \<times> fake" where
  "handleScript f body =
     (case decode_script body of
        None \<Rightarrow> (writeJSON 400 (JObject [(''error'', JString ''malformed body'')]), f)
      | Some req \<Rightarrow>
          (noContent, f\<lparr>f_scripts := install_script (f_scripts f) (sr_ResourceID req) (sr_Behaviors req)\<rparr>))"

text \<open>The data listener can be taken down and brought back on the same address.\<close>

record switchableListener =
  sl_addr :: string
  sl_serving :: bool

definition listener_down :: "string option \<Rightarrow> switchableListener \<Rightarrow> string option \<times> switchableListener" where
  "listener_down fault s =
     (if \<not> sl_serving s then (None, s)
      else case fault of
        Some e \<Rightarrow> (Some (''close data listener: '' @ e), s)
      | None \<Rightarrow> (None, s\<lparr>sl_serving := False\<rparr>))"

definition listener_up :: "string option \<Rightarrow> switchableListener \<Rightarrow> string option \<times> switchableListener" where
  "listener_up fault s =
     (if sl_serving s then (None, s)
      else case fault of
        Some e \<Rightarrow> (Some (''rebind '' @ sl_addr s @ '': '' @ e), s)
      | None \<Rightarrow> (None, s\<lparr>sl_serving := True\<rparr>))"

definition decode_listener :: "bytes \<Rightarrow> bool option" where
  "decode_listener = Decode (decode_struct [(''up'', decode_bool)]) False"

definition handleListener :: "string option \<Rightarrow> switchableListener \<Rightarrow> bytes \<Rightarrow> reply \<times> switchableListener" where
  "handleListener fault s body =
     (case decode_listener body of
        None \<Rightarrow> (writeJSON 400 (JObject [(''error'', JString ''malformed body'')]), s)
      | Some up \<Rightarrow>
          (let (err, s') = (if up then listener_up fault s else listener_down fault s) in
           case err of
             Some e \<Rightarrow> (writeJSON 500 (JObject [(''error'', JString e)]), s')
           | None \<Rightarrow> (noContent, s')))"

section \<open>The index\<close>

text \<open>The executions of a correlation identifier, found by scanning.\<close>

definition executions_of :: "ledger \<Rightarrow> string \<Rightarrow> execution list" where
  "executions_of l cid = filter (\<lambda>e. x_CorrelationID e = cid) (l_records l)"

definition ledger_ok :: "ledger \<Rightarrow> bool" where
  "ledger_ok l \<longleftrightarrow>
     (\<forall>cid. indexed l cid = executions_of l cid) \<and>
     map x_Sequence (l_records l) = map int [1..<length (l_records l) + 1]"

lemma ledger_ok_open: "ledger_ok (openLedger file durable)"
  by (simp add: ledger_ok_def openLedger_def indexed_def executions_of_def)

lemma ledger_append_records [simp]:
  "l_records (ledger_append l e) = l_records l @ [e]"
  by (simp add: ledger_append_def)

lemma ledger_append_ok:
  assumes "ledger_ok l" "x_Sequence e = int (length (l_records l)) + 1"
  shows "ledger_ok (ledger_append l e)"
proof -
  have "indexed (ledger_append l e) cid =
      (if cid = x_CorrelationID e then indexed l cid @ [e] else indexed l cid)" for cid
    by (simp add: indexed_def ledger_append_def)
  with assms show ?thesis by (simp add: ledger_ok_def executions_of_def)
qed

lemma ledger_record_shape:
  "(\<exists>m. fst (ledger_record fault l e) = Inl m) \<and>
     l_records (snd (ledger_record fault l e)) = l_records l \<and> l_byID (snd (ledger_record fault l e)) = l_byID l \<or>
   (let e' = e\<lparr>x_Sequence := int (length (l_records l)) + 1\<rparr> in
    ledger_record fault l e = (Inr e', ledger_append l e'))"
proof (cases fault)
  case (Some f)
  then show ?thesis by (cases f) (simp_all add: ledger_record_def Let_def)
qed (simp add: ledger_record_def Let_def)

lemma ledger_record_ok: "ledger_ok l \<Longrightarrow> ledger_ok (snd (ledger_record fault l e))"
  using ledger_record_shape [of fault l e]
  by (auto simp: Let_def ledger_append_ok) (auto simp: ledger_ok_def indexed_def executions_of_def)

lemma executions_of_record:
  "executions_of (snd (ledger_record fault l e)) cid =
     executions_of l cid @
     (case fst (ledger_record fault l e) of Inl _ \<Rightarrow> [] | Inr e' \<Rightarrow> if cid = x_CorrelationID e then [e'] else [])"
  using ledger_record_shape [of fault l e] by (auto simp: Let_def executions_of_def)

text \<open>C21: The index is the scan: after any sequence of recordings, whatever faults hit them, a
  lookup by correlation identifier returns exactly the recorded executions with that identifier,
  in the order they were recorded, and the recorded sequence numbers count up from one.\<close>

theorem byCorrelation_scan:
  "let l = foldl (\<lambda>l (fault, e). snd (ledger_record fault l e)) (openLedger file durable) calls in
   byCorrelation l cid = (if cid = [] then l_records l else filter (\<lambda>e. x_CorrelationID e = cid) (l_records l)) \<and>
   map x_Sequence (l_records l) = map int [1..<length (l_records l) + 1]"
proof -
  have "ledger_ok (foldl (\<lambda>l (fault, e). snd (ledger_record fault l e)) l calls)" if "ledger_ok l" for l
    using that by (induction calls arbitrary: l) (auto simp: ledger_record_ok)
  then have "ledger_ok (foldl (\<lambda>l (fault, e). snd (ledger_record fault l e)) (openLedger file durable) calls)"
    using ledger_ok_open by blast
  then show ?thesis by (simp add: Let_def byCorrelation_def ledger_ok_def executions_of_def)
qed

section \<open>The probe of the fake\<close>

lemma probe_json_flat:
  "raw_free (probe_json found)" "nesting (probe_json found) \<le> 3"
proof -
  have e: "raw_free (execution_json e)" "nesting (execution_json e) = 1" for e
    by (simp_all add: execution_json_def)
  show "raw_free (probe_json found)" by (auto simp: probe_json_def list_all_iff e(1))
  have "foldr max (map nesting (map execution_json found)) 0 \<le> 1"
    by (induction found) (auto simp: e(2))
  then show "nesting (probe_json found) \<le> 3" by (simp add: probe_json_def)
qed

lemma escape_plain:
  "escape ''count'' = ''count''" "escape ''executions'' = ''executions''"
  "unquote ''count'' = ''count''" "unquote ''executions'' = ''executions''"
  "fold_name ''count'' = ''count''" "fold_name ''executions'' = ''executions''"
  by code_simp+

lemma value_of_probe:
  "value_of (probe_json found) =
     VObject [(''count'', Itoa (int (length found)), VNumber (Itoa (int (length found)))),
              (''executions'', if found = [] then (''null'', VNull)
                 else (marshal (JList (map execution_json found)), value_of (JList (map execution_json found))))]"
  by (simp add: probe_json_def read_member_def escape_plain)

lemma decode_elements_raw: "decode_elements decode_raw z es old = Some (map fst es)"
  by (induction es arbitrary: old) (auto simp: decode_raw_def)

lemma ParseInt_count: "ParseInt (Itoa (int n)) = (if fits64 (int n) then Some (int n) else None)"
proof (cases "fits64 (int n)")
  case False
  obtain c cs where c: "decimal n = c # cs" using decimal_nonempty by (cases "decimal n") auto
  then have "c \<noteq> CHR ''-''" using decimal_digit [of c n] by (auto simp: is_digit_def between_def)
  with c False digits_value_decimal [of n] show ?thesis by (simp add: ParseInt_def Itoa_def)
qed (simp add: ParseInt_Itoa)

lemma decode_probe_json:
  "decode_probe (marshal (probe_json found) @ [CHR 10]) =
     (if fits64 (int (length found))
      then Some \<lparr>pb_Count = int (length found), pb_Executions = map (marshal \<circ> execution_json) found\<rparr>
      else None)"
proof -
  have "Parse (marshal (probe_json found) @ [CHR 10]) =
      Some (marshal (probe_json found), value_of (probe_json found), [CHR 10])"
    using probe_json_flat(2) [of found] by (intro Parse_marshal) (auto simp: probe_json_flat(1) maxNestingDepth_def)
  then show ?thesis
    by (simp add: decode_probe_def Decode_def decode_struct_def value_of_probe escape_plain decode_int_def
        ParseInt_count decode_list_def decode_elements_raw comp_def)
qed

text \<open>
  \<open>dataMux\<close> on a GET: the two probe paths reach \<open>handleProbe\<close>, any other gets its not-found page. Paths
  are clean; the redirect of a mux from a path like \<open>//probe\<close> to its clean form is not modelled.
\<close>

definition probe_paths :: "string list" where
  "probe_paths = [''/probe'', ''/probe/subscription'']"

definition fake_probe :: "fake \<Rightarrow> string \<Rightarrow> string \<Rightarrow> probe_exchange" where
  "fake_probe f path cid =
     (if path \<in> set probe_paths then ProbeReply (rp_status (handleProbe f cid)) (rp_body (handleProbe f cid))
      else ProbeReply 404 (''404 page not found'' @ [CHR 10]))"

lemma ID_nonempty: "ID a k \<noteq> []"
  using length_ID [of a k] by auto

text \<open>C36: Asked over HTTP, the probe and the ledger agree. On any ledger its recordings can have
  produced, and on either path the fake serves, the probe client decodes its answer to exactly what
  the ledger holds under the correlation identifier: nothing executed, or the last execution as JSON. Only
  a count beyond 64 bits would be an error. On any other path the probe reports the status 404 as an
  error, never a verdict.\<close>

theorem Probe_fake:
  assumes "ledger_ok (f_ledger f)"
  shows "Probe (fake_probe f) path a k =
    (let es = filter (\<lambda>e. x_CorrelationID e = ID a k) (l_records (f_ledger f)) in
     if path \<notin> {''/probe'', ''/probe/subscription''} then Inl (ProbeStatus 404)
     else if \<not> fits64 (int (length es)) then Inl ProbeDecode
     else if es = [] then Inr (NotExecuted, [])
     else Inr (Executed, marshal (execution_json (last es))))"
proof -
  let ?es = "executions_of (f_ledger f) (ID a k)"
  have "byCorrelation (f_ledger f) (ID a k) = ?es"
    using assms ID_nonempty by (simp add: byCorrelation_def ledger_ok_def)
  then have "Probe (fake_probe f) path a k =
      (if path \<notin> {''/probe'', ''/probe/subscription''} then Inl (ProbeStatus 404)
       else if \<not> fits64 (int (length ?es)) then Inl ProbeDecode
       else if ?es = [] then Inr (NotExecuted, []) else Inr (Executed, marshal (execution_json (last ?es))))"
    by (auto simp: Probe_def Executions_def fake_probe_def probe_paths_def handleProbe_def writeJSON_def decode_probe_json last_map
        StatusOK_def)
  then show ?thesis by (simp add: executions_of_def Let_def)
qed

definition empty_fake :: fake where
  "empty_fake = \<lparr>f_ledger = openLedger [] True, f_scripts = Map.empty\<rparr>"

theorem Probe_fake_witness:
  "Probe (fake_probe empty_fake) ''/probe'' ''a'' ''k'' = Inr (NotExecuted, [])"
  using Probe_fake [of empty_fake "''/probe''" "''a''" "''k''"] ledger_ok_open
  by (simp add: empty_fake_def Let_def openLedger_def fits64_def)

section \<open>The fake as a system of record\<close>

definition fake_deliver :: "ledger_fault option \<times> string \<Rightarrow> fake \<Rightarrow> wire_call \<Rightarrow> (int \<times> bytes) \<times> fake" where
  "fake_deliver e f call =
     (let (reply, f') = handleExecute (fst e) (snd e) f call in ((rp_status reply, rp_body reply), f'))"

definition fake_executions :: "fake \<Rightarrow> string \<Rightarrow> nat" where
  "fake_executions f cid = length (executions_of (f_ledger f) cid)"

definition fake_admitted :: "error_classification \<Rightarrow> bool" where
  "fake_admitted c \<longleftrightarrow> \<not> IsNotExecuted c 200 \<and> \<not> IsNotExecuted c 422"

lemma handleExecute_final: "\<not> redirects (rp_status (fst (handleExecute fault now f call)))"
  by (auto simp: handleExecute_def redirects_def writeJSON_def applied_def StatusOK_def split: option.split prod.split sum.split)

lemma fake_deliver_simps [simp]:
  "snd (fake_deliver e f w) = snd (handleExecute (fst e) (snd e) f w)"
  "fst (fst (fake_deliver e f w)) = rp_status (fst (handleExecute (fst e) (snd e) f w))"
  by (simp_all add: fake_deliver_def split_beta)

text \<open>Every call either leaves the records alone or adds one execution under its identifier.\<close>

lemma handleExecute_effect:
  assumes "ledger_ok (f_ledger f)"
  shows "ledger_ok (f_ledger (snd (handleExecute fault now f call))) \<and>
    ((\<forall>cid. executions_of (f_ledger (snd (handleExecute fault now f call))) cid = executions_of (f_ledger f) cid) \<or>
     (rp_status (fst (handleExecute fault now f call)) \<in> {200, 422} \<and>
      (\<exists>e. \<forall>cid. executions_of (f_ledger (snd (handleExecute fault now f call))) cid =
        executions_of (f_ledger f) cid @ (if cid = wc_correlation call then [e] else []))))"
proof (cases "decode_execute (wc_body call)")
  case None
  with assms show ?thesis by (simp add: handleExecute_def)
next
  case (Some req)
  obtain behavior scripts where b: "pop_script (f_scripts f) (er_ResourceID req) = (behavior, scripts)" by fastforce
  define e0 where "e0 = \<lparr>x_Sequence = 0, x_CorrelationID = wc_correlation call, x_ResourceType = er_ResourceType req,
    x_ResourceID = er_ResourceID req, x_Operation = er_Operation req, x_Behavior = behavior, x_ReceivedAt = now\<rparr>"
  have cor: "x_CorrelationID e0 = wc_correlation call" by (simp add: e0_def)
  obtain r l where r: "ledger_record fault (f_ledger f) e0 = (r, l)" by fastforce
  have ok: "ledger_ok l" using ledger_record_ok [OF assms, of fault e0] by (simp add: r)
  have ex: "executions_of l cid = executions_of (f_ledger f) cid @
      (case r of Inl _ \<Rightarrow> [] | Inr e \<Rightarrow> if cid = wc_correlation call then [e] else [])" for cid
    using executions_of_record [of fault "f_ledger f" e0 cid] cor by (cases r) (simp_all add: r)
  show ?thesis
  proof (cases "behavior = behaviorRefuse")
    case True
    with assms show ?thesis by (simp add: handleExecute_def Some b)
  next
    case False
    then show ?thesis using ok ex
      by (cases r) (auto simp: handleExecute_def Some b r [unfolded e0_def] applied_def writeJSON_def StatusOK_def)
  qed
qed

interpretation fakes: system_of_record fake_deliver fake_probe fake_executions "\<lambda>f. ledger_ok (f_ledger f)" fake_admitted
proof
  fix f :: fake and e :: "ledger_fault option \<times> string" and w :: wire_call
  assume ok: "ledger_ok (f_ledger f)"
  note eff = handleExecute_effect [OF ok, of "fst e" "snd e" w]
  show "ledger_ok (f_ledger (snd (fake_deliver e f w)))"
    using eff by simp
  show "fake_executions (snd (fake_deliver e f w)) cid = fake_executions f cid" if "cid \<noteq> wc_correlation w" for cid
    using eff that by (auto simp: fake_executions_def)
  show "fake_executions (snd (fake_deliver e f w)) (wc_correlation w) \<le> Suc (fake_executions f (wc_correlation w))"
    using eff by (auto simp: fake_executions_def)
  show "\<not> redirects (fst (fst (fake_deliver e f w)))" by (simp add: handleExecute_final)
  show "fake_executions (snd (fake_deliver e f w)) cid = fake_executions f cid"
    if "fake_admitted c" "IsNotExecuted c (fst (fst (fake_deliver e f w)))" for c cid
    using eff that by (auto simp: fake_executions_def fake_admitted_def)
  show "fake_executions f (ID a k) = 0" if "Probe (fake_probe f) path a k = Inr (NotExecuted, r)" for path a k r
  proof -
    have "byCorrelation (f_ledger f) (ID a k) = executions_of (f_ledger f) (ID a k)"
      using ok ID_nonempty by (simp add: byCorrelation_def ledger_ok_def)
    with that show ?thesis
      by (auto simp: Probe_def Executions_def fake_probe_def handleProbe_def writeJSON_def decode_probe_json StatusOK_def
          fake_executions_def split: if_splits)
  qed
qed

end
