(* ===== verification/Float64.thy ===== *)
theory Float64
  imports Json_Parse
begin

text \<open>
  Double precision where the program depends on it: rounding a natural number to 53 significant
  bits, half to even, and what \<open>strconv.ParseFloat\<close> makes of a JSON number.
\<close>

section \<open>Rounding\<close>

fun bit_length :: "nat \<Rightarrow> nat" where
  "bit_length n = (if n = 0 then 0 else Suc (bit_length (n div 2)))"

declare bit_length.simps [simp del]

definition round_even :: "nat \<Rightarrow> nat \<Rightarrow> nat" where
  "round_even p unit =
     (let q = p div unit; r = p mod unit in
      if 2 * r < unit \<or> (2 * r = unit \<and> even q) then q * unit else (q + 1) * unit)"

definition round53 :: "nat \<Rightarrow> nat" where
  "round53 p = round_even p (2 ^ (bit_length p - 53))"

lemma bit_length_bounds: "0 < p \<Longrightarrow> 2 ^ (bit_length p - 1) \<le> p \<and> p < 2 ^ bit_length p"
proof (induction p rule: bit_length.induct)
  case (1 p)
  show ?case
  proof (cases "p = 1")
    case True
    then show ?thesis by (simp add: bit_length.simps)
  next
    case False
    then have half: "0 < p div 2" using 1(2) by linarith
    then have "0 < bit_length (p div 2)" by (simp add: bit_length.simps [of "p div 2"])
    then obtain b where b: "bit_length (p div 2) = Suc b" using gr0_implies_Suc by blast
    have "bit_length p = Suc (Suc b)" using 1(2) b by (simp add: bit_length.simps [of p])
    moreover have "2 ^ b \<le> p div 2 \<and> p div 2 < 2 ^ Suc b" using 1(1) 1(2) half b by simp
    then have "2 * 2 ^ b \<le> p \<and> p < 2 * 2 ^ Suc b" by linarith
    ultimately show ?thesis by simp
  qed
qed

lemma round_even_near:
  assumes "0 < u"
  shows "2 * round_even p u \<le> 2 * p + u \<and> 2 * p \<le> 2 * round_even p u + u"
proof -
  define q r where "q = p div u" and "r = p mod u"
  have p: "p = q * u + r" "r < u" using assms by (simp_all add: q_def r_def)
  have "round_even p u = (if 2 * r < u \<or> (2 * r = u \<and> even q) then q * u else q * u + u)"
    by (simp only: round_even_def Let_def add_mult_distrib mult_1 flip: q_def r_def)
  with p show ?thesis by (auto split: if_splits)
qed

lemma round53_near: "2 ^ 53 * round53 p \<le> 2 ^ 53 * p + p \<and> 2 ^ 53 * p \<le> 2 ^ 53 * round53 p + p"
proof (cases "p = 0 \<or> bit_length p \<le> 53")
  case True
  then show ?thesis by (auto simp: round53_def round_even_def bit_length.simps [of 0])
next
  case False
  let ?u = "2 ^ (bit_length p - 53) :: nat"
  have "bit_length p - 1 = bit_length p - 53 + 52" using False by simp
  then have "?u * 2 ^ 52 = 2 ^ (bit_length p - 1)" by (simp only: power_add)
  then have "?u * 2 ^ 52 \<le> p" using False bit_length_bounds [of p] by simp
  with round_even_near [of ?u p] show ?thesis by (simp add: round53_def)
qed

lemma bit_length_less: "p < 2 ^ n \<Longrightarrow> bit_length p \<le> n"
proof (induction p arbitrary: n rule: bit_length.induct)
  case (1 p)
  show ?case
  proof (cases "p = 0")
    case False
    with 1(2) obtain m where n: "n = Suc m" by (cases n) auto
    with 1(2) have "p div 2 < 2 ^ m" by simp
    with 1(1) False n show ?thesis by (simp add: bit_length.simps [of p])
  qed (simp add: bit_length.simps)
qed

lemma round53_exact: "p < 2 ^ 53 \<Longrightarrow> round53 p = p"
  using bit_length_less [of p 53] by (simp add: round53_def round_even_def)

lemma bit_length_mono_pow: "2 ^ n \<le> p \<Longrightarrow> n < bit_length p"
  using bit_length_bounds [of p] power_increasing [of "bit_length p" n "2::nat"]
  by (metis le_less_trans less_le_trans linorder_not_less one_le_numeral zero_less_numeral zero_less_power)

lemma round53_large:
  assumes "2 ^ 53 \<le> p"
  shows "2 ^ 53 \<le> round53 p"
proof -
  let ?u = "2 ^ (bit_length p - 53) :: nat"
  have b: "53 < bit_length p" using bit_length_mono_pow [OF assms] .
  then have "2 ^ (bit_length p - 1) \<le> p" using bit_length_bounds [of p] assms by simp
  moreover have "bit_length p - 1 = 52 + (bit_length p - 53)" using b by simp
  then have "(2 ^ (bit_length p - 1) :: nat) = 2 ^ 52 * ?u" by (simp only: power_add)
  ultimately have "2 ^ 52 \<le> p div ?u" by (simp add: less_eq_div_iff_mult_less_eq)
  then have "2 ^ 52 * ?u \<le> p div ?u * ?u" by (rule mult_le_mono1)
  also have "p div ?u * ?u \<le> round53 p" by (simp add: round53_def round_even_def Let_def)
  finally have "2 ^ 52 * ?u \<le> round53 p" .
  moreover have "(2::nat) \<le> ?u" using b power_increasing [of 1 "bit_length p - 53" "2::nat"] by simp
  ultimately show ?thesis by simp
qed

section \<open>Number literals\<close>

text \<open>
  The digits of a literal without its point, and the power of ten they are scaled by. While it
  reads an exponent Go stops adding digits at ten thousand.
\<close>

definition exponent_mark :: "char \<Rightarrow> bool" where
  "exponent_mark c \<longleftrightarrow> c = CHR ''e'' \<or> c = CHR ''E''"

definition magnitude_text :: "bytes \<Rightarrow> bytes" where
  "magnitude_text t = (case t of c # cs \<Rightarrow> if c = CHR ''-'' then cs else t | [] \<Rightarrow> [])"

definition mantissa_text :: "bytes \<Rightarrow> bytes" where
  "mantissa_text t = takeWhile (\<lambda>c. \<not> exponent_mark c) (magnitude_text t)"

definition fraction_text :: "bytes \<Rightarrow> bytes" where
  "fraction_text t = drop 1 (dropWhile (\<lambda>c. c \<noteq> CHR ''.'') (mantissa_text t))"

definition mantissa :: "bytes \<Rightarrow> nat" where
  "mantissa t = nat (digits_value (filter is_digit (mantissa_text t)))"

definition exponent_digits :: "bytes \<Rightarrow> int" where
  "exponent_digits ds = foldl (\<lambda>e d. if e < 10000 then 10 * e + (int (of_char d) - 48) else e) 0 ds"

definition exponent :: "bytes \<Rightarrow> int" where
  "exponent t =
     (let given = drop 1 (dropWhile (\<lambda>c. \<not> exponent_mark c) (magnitude_text t)) in
      (case given of
         [] \<Rightarrow> 0
       | c # cs \<Rightarrow> if c = CHR ''-'' then - exponent_digits cs
                 else if c = CHR ''+'' then exponent_digits cs else exponent_digits given)
      - int (length (fraction_text t)))"

text \<open>
  \<open>ParseFloat\<close> reports a range error from half a unit beyond the largest double on.
\<close>

definition overflow_bound :: nat where
  "overflow_bound = 2 ^ 1024 - 2 ^ 970"

definition out_of_range :: "bytes \<Rightarrow> bool" where
  "out_of_range t =
     (if 0 \<le> exponent t then overflow_bound \<le> mantissa t * 10 ^ nat (exponent t)
      else overflow_bound * 10 ^ nat (- exponent t) \<le> mantissa t)"

end
