(* ===== verification/Latency.thy ===== *)
theory Latency
  imports Float64 "HOL-Library.Multiset"
begin

text \<open>
  Retry advice (\<open>internal/latency\<close>): per resource type a ring of the last 256 latencies, and
  the clamped 95th percentile of it. \<open>retry_spec\<close> states the advice on the plain history of
  observations; the tracker is proved to compute it, including the rounding of Go's floating-point
  index.
\<close>

section \<open>The tracker\<close>

definition window :: nat where "window = 256"

definition Floor :: duration where "Floor = 50 * Millisecond"
definition Ceiling :: duration where "Ceiling = 5 * Second"
definition Default :: duration where "Default = Second"

record tracker =
  t_samples :: "string \<Rightarrow> duration list"
  t_next :: "string \<Rightarrow> nat"

definition NewTracker :: tracker where
  "NewTracker = \<lparr>t_samples = (\<lambda>_. []), t_next = (\<lambda>_. 0)\<rparr>"

definition Observe :: "string \<Rightarrow> duration \<Rightarrow> tracker \<Rightarrow> tracker" where
  "Observe resourceType took t =
     (let held = t_samples t resourceType in
      if length held < window
      then t\<lparr>t_samples := (t_samples t)(resourceType := held @ [took])\<rparr>
      else
        (let at = t_next t resourceType in
         t\<lparr>t_samples := (t_samples t)(resourceType := held[at := took]),
           t_next := (t_next t)(resourceType := (at + 1) mod window)\<rparr>))"

definition clamp :: "duration \<Rightarrow> duration" where
  "clamp d = (if d < Floor then Floor else if d > Ceiling then Ceiling else d)"

text \<open>
  \<open>int(float64(n-1) * 0.95)\<close>. The constant is the double nearest to 0.95,
  \<open>8556839292003942 / 2 ^ 53\<close>; the product is rounded to 53 significant bits, half to even, and
  truncated.
\<close>

definition point95 :: nat where
  "point95 = 8556839292003942"

definition index95 :: "nat \<Rightarrow> nat" where
  "index95 n = round53 ((n - 1) * point95) div 2 ^ 53"

definition RetryAfter :: "string \<Rightarrow> tracker \<Rightarrow> duration" where
  "RetryAfter resourceType t =
     (let held = t_samples t resourceType in
      if length held = 0 then Default else clamp (sort held ! index95 (length held)))"

section \<open>Specification\<close>

text \<open>The advice for a history of observations, oldest first.\<close>

definition recent :: "'a list \<Rightarrow> 'a list" where
  "recent xs = drop (length xs - window) xs"

definition retry_spec :: "string \<Rightarrow> (string \<times> duration) list \<Rightarrow> duration" where
  "retry_spec resourceType history =
     (let seen = recent (map snd (filter (\<lambda>(ty, took). ty = resourceType) history)) in
      if seen = [] then Default
      else max Floor (min Ceiling (sort seen ! ((length seen - 1) * 95 div 100))))"

lemma clamp_max_min: "clamp d = max Floor (min Ceiling d)"
  by (auto simp: clamp_def Floor_def Ceiling_def Millisecond_def Second_def)

text \<open>
  The rounding moves the product by less than \<open>n - 1\<close> units of \<open>2 ^ -53\<close>, too little to
  reach an integer unless the exact product is one; those thirteen cases are computed.
\<close>

lemma index95_exact:
  assumes "n \<le> window"
  shows "index95 n = (n - 1) * 95 div 100"
proof -
  define k q r where "k = n - 1" and "q = k * 95 div 100" and "r = k * 95 mod 100"
  have k: "k \<le> 255" using assms by (simp add: k_def window_def)
  have qr: "k * 95 = 100 * q + r" "r < 100" unfolding q_def r_def by (simp_all only: mult_div_mod_eq)
  have "round53 (k * point95) div 2 ^ 53 = q"
  proof (cases "r = 0")
    case True
    then have "k * 19 = 20 * q" using qr by simp
    then have "20 dvd k * 19" by simp
    moreover have "coprime (20::nat) 19" by code_simp
    ultimately have "20 dvd k" using coprime_dvd_mult_left_iff by blast
    then obtain j where j: "k = 20 * j" by (rule dvdE)
    with k have "j < 13" by simp
    then have "j = 0 \<or> j = 1 \<or> j = 2 \<or> j = 3 \<or> j = 4 \<or> j = 5 \<or> j = 6 \<or> j = 7 \<or> j = 8 \<or> j = 9 \<or>
        j = 10 \<or> j = 11 \<or> j = 12" by arith
    then show ?thesis unfolding q_def j
      by (elim disjE)
         (simp_all add: round53_def round_even_def point95_def bit_length.simps)
  next
    case False
    have "r = 5 * (k * 19 - 20 * q)" using qr(1) by simp
    then obtain m where "r = 5 * m" by blast
    then have "5 \<le> r \<and> r \<le> 95" using False qr(2) by simp
    moreover have "round53 (k * point95) \<le> k * point95 + k \<and> k * point95 \<le> round53 (k * point95) + k"
      using round53_near [of "k * point95"] by (simp add: point95_def)
    ultimately have "q * 2 ^ 53 \<le> round53 (k * point95)" "round53 (k * point95) < (q + 1) * 2 ^ 53"
      using qr k by (simp_all add: point95_def)
    then show ?thesis by (intro div_nat_eqI) (simp_all add: mult.commute)
  qed
  then show ?thesis by (simp add: index95_def k_def q_def)
qed

text \<open>The ring read from its oldest sample on.\<close>

definition ring :: "tracker \<Rightarrow> string \<Rightarrow> duration list" where
  "ring t ty = drop (t_next t ty) (t_samples t ty) @ take (t_next t ty) (t_samples t ty)"

definition ring_ok :: "tracker \<Rightarrow> string \<Rightarrow> bool" where
  "ring_ok t ty \<longleftrightarrow> length (t_samples t ty) \<le> window \<and> t_next t ty < window \<and>
     (length (t_samples t ty) < window \<longrightarrow> t_next t ty = 0)"

lemma ring_new: "ring NewTracker ty = []" "ring_ok NewTracker ty"
  by (simp_all add: ring_def NewTracker_def ring_ok_def window_def)

lemma Observe_other: "ty \<noteq> ty' \<Longrightarrow> ring (Observe ty' took t) ty = ring t ty"
  "ty \<noteq> ty' \<Longrightarrow> ring_ok (Observe ty' took t) ty = ring_ok t ty"
  by (simp_all add: ring_def ring_ok_def Observe_def Let_def)

lemma rotate_update:
  assumes "i < length xs"
  shows "drop (Suc i) (xs[i := x]) @ take (Suc i) (xs[i := x]) = tl (drop i xs @ take i xs) @ [x]"
proof -
  have "take (Suc i) (xs[i := x]) = take i xs @ [x]"
    using assms by (simp add: take_Suc_conv_app_nth)
  moreover have "drop i xs = xs ! i # drop (Suc i) xs" using assms by (simp add: Cons_nth_drop_Suc)
  ultimately show ?thesis using assms by simp
qed

lemma Observe_ring:
  assumes "ring_ok t ty"
  shows "ring_ok (Observe ty took t) ty \<and> ring (Observe ty took t) ty = recent (ring t ty @ [took])"
proof -
  let ?held = "t_samples t ty" and ?at = "t_next t ty"
  show ?thesis
  proof (cases "length ?held < window")
    case True
    then show ?thesis using assms by (simp add: ring_ok_def ring_def Observe_def Let_def recent_def)
  next
    case False
    then have len: "length ?held = window" and at: "?at < length ?held" using assms by (auto simp: ring_ok_def)
    have ring: "recent (ring t ty @ [took]) = tl (ring t ty) @ [took]"
      using len at by (simp add: recent_def ring_def drop_Suc tl_drop)
    have ok: "ring_ok (Observe ty took t) ty"
      using False len by (simp add: ring_ok_def Observe_def Let_def window_def)
    show ?thesis
    proof (cases "Suc ?at = window")
      case True
      then have "ring (Observe ty took t) ty = drop (Suc ?at) (?held[?at := took]) @ take (Suc ?at) (?held[?at := took])"
        using False len by (simp add: ring_def Observe_def Let_def)
      with rotate_update [OF at, of took] ok ring show ?thesis by (simp add: ring_def)
    next
      case neq: False
      then have "Suc ?at mod window = Suc ?at" using at len by simp
      then have "ring (Observe ty took t) ty = drop (Suc ?at) (?held[?at := took]) @ take (Suc ?at) (?held[?at := took])"
        using False by (simp add: ring_def Observe_def Let_def)
      with rotate_update [OF at, of took] ok ring show ?thesis by (simp add: ring_def)
    qed
  qed
qed

definition observe_all :: "(string \<times> duration) list \<Rightarrow> tracker" where
  "observe_all history = foldl (\<lambda>t (ty, took). Observe ty took t) NewTracker history"

lemma recent_recent: "recent (recent xs @ [x]) = recent (xs @ [x])"
proof (cases "length xs < window")
  case False
  then have "length xs - window + (Suc (length xs) - (length xs - window + window)) = Suc (length xs) - window"
    by simp
  with False show ?thesis by (simp add: recent_def add.commute)
qed (simp add: recent_def)

lemma observe_all_ring:
  "ring_ok (observe_all history) ty \<and>
   ring (observe_all history) ty = recent (map snd (filter (\<lambda>(ty', took). ty' = ty) history))"
proof (induction history rule: rev_induct)
  case Nil
  show ?case using ring_new by (simp add: observe_all_def recent_def)
next
  case (snoc h history)
  obtain ty' took where h: "h = (ty', took)" by fastforce
  have step: "observe_all (history @ [h]) = Observe ty' took (observe_all history)"
    by (simp add: observe_all_def h)
  show ?case
  proof (cases "ty' = ty")
    case True
    have "filter (\<lambda>(ty', took). ty' = ty) (history @ [h]) = filter (\<lambda>(ty', took). ty' = ty) history @ [h]"
      using True by (simp add: h)
    with True snoc Observe_ring [of "observe_all history" ty took] show ?thesis
      by (simp only: step) (simp add: recent_recent h)
  next
    case False
    with snoc Observe_other [of ty ty'] show ?thesis by (simp only: step) (simp add: h)
  qed
qed

lemma sort_ring: "sort (ring t ty) = sort (t_samples t ty)"
proof -
  have "mset (ring t ty) = mset (t_samples t ty)"
    by (metis append_take_drop_id mset_append ring_def union_commute)
  then show ?thesis by (metis properties_for_sort mset_sort sorted_sort)
qed

text \<open>C22: The advice given to a waiting client is exact. After any history of observations it is
  the entry at 95 percent of the last 256 latencies of the resource type, in sorted order, held
  between the floor and the ceiling, and the default before anything was seen: the ring buffer
  drops precisely the oldest samples and the floating-point index never rounds to a neighbour.\<close>

theorem RetryAfter_spec:
  "RetryAfter ty (observe_all history) = retry_spec ty history \<and>
   Floor \<le> RetryAfter ty (observe_all history) \<and> RetryAfter ty (observe_all history) \<le> Ceiling"
proof -
  let ?t = "observe_all history"
  have ring: "ring ?t ty = recent (map snd (filter (\<lambda>(ty', took). ty' = ty) history))"
    and ok: "ring_ok ?t ty" using observe_all_ring by blast+
  have len: "length (t_samples ?t ty) = length (ring ?t ty)" by (simp add: ring_def)
  then have idx: "index95 (length (t_samples ?t ty)) = (length (ring ?t ty) - 1) * 95 div 100"
    using ok index95_exact by (simp add: ring_ok_def)
  have "RetryAfter ty ?t =
      (if ring ?t ty = [] then Default else clamp (sort (ring ?t ty) ! ((length (ring ?t ty) - 1) * 95 div 100)))"
    unfolding RetryAfter_def Let_def idx sort_ring [symmetric] using len by auto
  then have "RetryAfter ty ?t = retry_spec ty history"
    by (simp add: retry_spec_def ring clamp_max_min Let_def)
  moreover have "Floor \<le> Default" "Default \<le> Ceiling" "Floor \<le> Ceiling"
    by (simp_all add: Floor_def Default_def Ceiling_def Millisecond_def Second_def)
  then have "Floor \<le> retry_spec ty history" "retry_spec ty history \<le> Ceiling"
    by (auto simp: retry_spec_def Let_def)
  ultimately show ?thesis by simp
qed

end
