(* ===== verification/Relay.thy ===== *)
theory Relay
  imports Claim_Spec Json_Laws
begin

text \<open>
  The relay (\<open>internal/relay\<close>): intents are the outbox, and a cycle publishes the oldest
  unpublished ones to a topic and then marks them. The topic is the list of messages the broker
  has accepted; a failed write may have put any of its messages there. \<open>format_time\<close> is the
  text of a time in the zone of the process. The selector of an operation
  that declares no scope is stored as NULL and printed as \<open>null\<close>, an empty one as \<open>[]\<close>.
\<close>

section \<open>The cycle\<close>

record message =
  msg_Key :: bytes
  msg_Value :: bytes

definition message_json :: "(time \<Rightarrow> string) \<Rightarrow> intent_row \<Rightarrow> json" where
  "message_json format_time w =
     JStruct [(''intent_id'', JString (w_intent_id w)),
              (''agent_id'', JString (w_agent_id w)),
              (''idempotency_key'', JString (w_idempotency_key w)),
              (''resource_type'', JString (w_resource_type w)),
              (''resource_id'', JString (w_resource_id w)),
              (''operation'', JString (w_operation w)),
              (''operation_class'', JString (w_operation_class w)),
              (''scope_selector'', case w_scope_selector w of None \<Rightarrow> JNull | Some xs \<Rightarrow> JList (map JString xs)),
              (''payload'', JRaw (w_payload w)),
              (''voided'', JBool (w_voided_at w \<noteq> None)),
              (''emitted_at'', JString (format_time (w_emitted_at w)))]"

definition message_of :: "(time \<Rightarrow> string) \<Rightarrow> intent_row \<Rightarrow> message" where
  "message_of format_time w = \<lparr>msg_Key = w_intent_id w, msg_Value = marshal (message_json format_time w)\<rparr>"

text \<open>\<open>PublishFailed written\<close>: an error, with those messages of the batch accepted all the same.\<close>

datatype publish_outcome = Accepted | PublishFailed "message \<Rightarrow> bool"

record relay_faults =
  rf_read :: bool
  rf_publish :: publish_outcome
  rf_mark :: commit_outcome

datatype relay_error = OutboxUnread | EncodeIntent string | PublishIntents | MarkPublished

definition is_unpublished :: "intent_row \<Rightarrow> bool" where
  "is_unpublished w \<longleftrightarrow> w_published_at w = None"

definition unpublished :: "relay_faults \<Rightarrow> int \<Rightarrow> db \<Rightarrow> relay_error + intent_row list" where
  "unpublished f batch d =
     (if rf_read f \<or> batch < 0 then Inl OutboxUnread
      else Inr (take (nat batch) (sort_key w_emitted_at (filter is_unpublished (write_intents d)))))"

definition markPublished :: "time \<Rightarrow> string list \<Rightarrow> time list \<Rightarrow> db \<Rightarrow> db" where
  "markPublished now ids stamps d = d\<lparr>write_intents :=
     update_where (\<lambda>w. w_intent_id w \<in> set ids \<and> w_emitted_at w \<in> set stamps)
       (\<lambda>w. w\<lparr>w_published_at := Some now\<rparr>) (write_intents d)\<rparr>"

definition Publish ::
  "(time \<Rightarrow> string) \<Rightarrow> int \<Rightarrow> relay_faults \<Rightarrow> time \<Rightarrow> message list \<times> db
   \<Rightarrow> (relay_error + int) \<times> message list \<times> db" where
  "Publish format_time batch f now st =
     (let (log, d) = st in
      case unpublished f batch d of
        Inl e \<Rightarrow> (Inl e, log, d)
      | Inr pending \<Rightarrow>
          (if length pending = 0 then (Inr 0, log, d)
           else case List.find (\<lambda>w. \<not> Valid (w_payload w)) pending of
             Some w \<Rightarrow> (Inl (EncodeIntent (w_intent_id w)), log, d)
           | None \<Rightarrow>
               (let messages = map (message_of format_time) pending;
                    marked = markPublished now (map w_intent_id pending) (map w_emitted_at pending) d
                in case rf_publish f of
                  PublishFailed written \<Rightarrow> (Inl PublishIntents, log @ filter written messages, d)
                | Accepted \<Rightarrow>
                    (case rf_mark f of
                       Committed \<Rightarrow> (Inr (int (length messages)), log @ messages, marked)
                     | CommitFailed \<Rightarrow> (Inl MarkPublished, log @ messages, d)
                     | CommitUnseen \<Rightarrow> (Inl MarkPublished, log @ messages, marked)))))"

text \<open>
  The ticks of \<open>Run\<close>: what other processes commit before the tick, its faults and its time. The
  two callbacks count published intents and failed cycles.
\<close>

record relay_tick =
  tk_others :: "db \<Rightarrow> db"
  tk_faults :: relay_faults
  tk_now :: time

fun Run ::
  "(time \<Rightarrow> string) \<Rightarrow> int \<Rightarrow> relay_tick list \<Rightarrow> int \<times> nat \<times> message list \<times> db
   \<Rightarrow> int \<times> nat \<times> message list \<times> db" where
  "Run format_time batch [] st = st"
| "Run format_time batch (t # ticks) (published, failed, log, d) =
     Run format_time batch ticks
      (case Publish format_time batch (tk_faults t) (tk_now t) (log, tk_others t d) of
         (Inl e, log', d') \<Rightarrow> (published, failed + 1, log', d')
       | (Inr count, log', d') \<Rightarrow> (published + count, failed, log', d'))"

section \<open>At least once\<close>

definition logged :: "message list \<Rightarrow> intent_row \<Rightarrow> bool" where
  "logged log w \<longleftrightarrow> w_intent_id w \<in> msg_Key ` set log"

definition outbox_inv :: "message list \<times> db \<Rightarrow> bool" where
  "outbox_inv st \<longleftrightarrow> (\<forall>w \<in> set (write_intents (snd st)). w_published_at w \<noteq> None \<longrightarrow> logged (fst st) w)"

text \<open>Only the relay sets \<open>published_at\<close>: a claim adds unpublished intents, voiding keeps the column.\<close>

definition keeps_outbox :: "db \<Rightarrow> db \<Rightarrow> bool" where
  "keeps_outbox d d' \<longleftrightarrow>
     (\<forall>w' \<in> set (write_intents d'). w_published_at w' \<noteq> None \<longrightarrow>
        (\<exists>w \<in> set (write_intents d). w_intent_id w = w_intent_id w' \<and> w_published_at w \<noteq> None))"

lemma keeps_outbox_refl: "keeps_outbox d d"
  by (auto simp: keeps_outbox_def)

lemma keeps_outbox_update:
  assumes "\<And>w. w_intent_id (f w) = w_intent_id w" "\<And>w. w_published_at (f w) = w_published_at w"
    and "write_intents d' = update_where p f (write_intents d)"
  shows "keeps_outbox d d'"
  unfolding keeps_outbox_def assms(3) set_update_where using assms(1,2) by fastforce

lemma void_latest_outbox: "keeps_outbox d (void_latest now a k d)"
proof (cases "latest_live d a k")
  case (Some l)
  then show ?thesis
    by (intro keeps_outbox_update [where f = "\<lambda>w. w\<lparr>w_voided_at := Some now\<rparr>"])
       (simp_all add: void_latest_def)
qed (simp add: void_latest_def keeps_outbox_refl)

lemma keeps_outbox_cong:
  "keeps_outbox d d' \<Longrightarrow> write_intents d = write_intents e \<Longrightarrow> write_intents d' = write_intents e' \<Longrightarrow> keeps_outbox e e'"
  by (simp add: keeps_outbox_def)

lemma outbox_kept:
  assumes "outbox_inv (log, d)" "keeps_outbox d d'"
  shows "outbox_inv (log, d')"
  unfolding outbox_inv_def fst_conv snd_conv
proof (intro ballI impI)
  fix w' assume "w' \<in> set (write_intents d')" "w_published_at w' \<noteq> None"
  with assms(2) obtain w where "w \<in> set (write_intents d)" "w_intent_id w = w_intent_id w'" "w_published_at w \<noteq> None"
    unfolding keeps_outbox_def by metis
  with assms(1) have "logged log w" by (simp add: outbox_inv_def)
  with \<open>w_intent_id w = _\<close> show "logged log w'" by (simp add: logged_def)
qed


lemma Claim_outbox:
  assumes "Claim f pgs now req d = (r, d')" "db_inv pgs d"
  shows "keeps_outbox d d'"
  using assms(1) db_inv_distinct [OF assms(2)]
proof (cases rule: Claim_effect)
  case unchanged
  then show ?thesis by (simp add: keeps_outbox_refl)
next
  case (claimed payload)
  then show ?thesis by (auto simp: keeps_outbox_def with_intent_def new_intent_def)
next
  case (rejected payload stored detail)
  then have "keeps_outbox (with_intent pgs now req payload d) d'"
    by (intro keeps_outbox_update [where f = "\<lambda>w. w\<lparr>w_voided_at := Some now\<rparr>"]) (auto simp: rejects_def)
  then show ?thesis by (fastforce simp: keeps_outbox_def with_intent_def new_intent_def)
qed

lemma Complete_outbox:
  assumes "Complete f pgs now a k st result ref detail d = (r, d')" "db_inv pgs d"
  shows "keeps_outbox d d'"
  using assms(1) db_inv_distinct [OF assms(2)]
proof (cases rule: Complete_effect)
  case unchanged
  then show ?thesis by (simp add: keeps_outbox_refl)
next
  case (recorded row stored)
  let ?d1 = "d\<lparr>idempotency_keys := update_where (\<lambda>r. key_is a k r \<and> k_status r = StatusPending)
    (completed_row now st stored (nonempty ref) (nonempty detail)) (idempotency_keys d)\<rparr>"
  have "keeps_outbox ?d1 d'"
    by (simp add: recorded completes_def Let_def void_latest_outbox keeps_outbox_refl)
  then show ?thesis by (simp add: keeps_outbox_def)
qed

lemma store_step_outbox: "db_inv pgs d \<Longrightarrow> store_step pgs d d' \<Longrightarrow> keeps_outbox d d'"
  by (erule store_step.cases) (auto intro: Claim_outbox Complete_outbox)

lemma markPublished_outbox:
  assumes "outbox_inv (log, d)" "set ids \<subseteq> msg_Key ` set log'" "set log \<subseteq> set log'"
  shows "outbox_inv (log', markPublished now ids stamps d)"
  using assms by (fastforce simp: outbox_inv_def logged_def markPublished_def set_update_where)

lemma Publish_outbox:
  assumes "outbox_inv st"
  shows "outbox_inv (snd (Publish format_time batch f now st))"
proof -
  obtain log d where st: "st = (log, d)" by fastforce
  have more: "outbox_inv (log @ xs, d)" for xs using assms by (auto simp: st outbox_inv_def logged_def)
  have marked: "outbox_inv (log @ map (message_of format_time) ws,
      markPublished now (map w_intent_id ws) (map w_emitted_at ws) d)" for ws
    using assms by (intro markPublished_outbox [of log])
      (simp_all add: st message_of_def image_Un image_image)
  show ?thesis
    using assms more marked
    by (auto simp: Publish_def st Let_def split: sum.split option.split publish_outcome.split commit_outcome.split)
qed

text \<open>The relay and the write path on one database.\<close>

inductive outbox_step :: "pg \<Rightarrow> (time \<Rightarrow> string) \<Rightarrow> int \<Rightarrow> message list \<times> db \<Rightarrow> message list \<times> db \<Rightarrow> bool"
  for pgs format_time batch where
  store: "store_step pgs d d' \<Longrightarrow> outbox_step pgs format_time batch (log, d) (log, d')"
| relay: "outbox_step pgs format_time batch st (snd (Publish format_time batch f now st))"

lemma ball_intent_id: "(\<forall>w \<in> set ws. P (w_intent_id w)) \<longleftrightarrow> (\<forall>x \<in> set (map w_intent_id ws). P x)"
  by simp

lemma markPublished_ids [simp]:
  "map w_intent_id (write_intents (markPublished now ids stamps d)) = map w_intent_id (write_intents d)"
  by (simp add: markPublished_def map_update_where)

lemma markPublished_rest [simp]:
  "idempotency_keys (markPublished now ids stamps d) = idempotency_keys d"
  "uuids_used (markPublished now ids stamps d) = uuids_used d"
  by (simp_all add: markPublished_def)

lemma markPublished_live:
  "length (live_of (markPublished now ids stamps d) a k) = length (live_of d a k)"
proof -
  let ?q = "\<lambda>w. live w \<and> w_agent_id w = a \<and> w_idempotency_key w = k"
  have "length (filter ?q (update_where p (\<lambda>w. w\<lparr>w_published_at := Some now\<rparr>) ws)) = length (filter ?q ws)" for p ws
    by (induction ws) (auto simp: live_def)
  then show ?thesis by (simp add: live_of_def markPublished_def)
qed

lemma markPublished_inv:
  assumes "db_inv pgs d"
  shows "db_inv pgs (markPublished now ids stamps d)"
proof -
  let ?d = "markPublished now ids stamps d"
  have "wf_db pgs d" "intents_agree d" "inj (uuidv7 pgs)" using assms by (auto simp: db_inv_def)
  moreover from this(1) have "wf_db pgs ?d"
    unfolding wf_db_def ball_intent_id [where P = "\<lambda>x. \<exists>n < _. x = uuidv7 pgs n"]
    by (simp only: markPublished_ids markPublished_rest) blast
  moreover from calculation(2) have "intents_agree ?d"
    unfolding intents_agree_def length_0_conv [symmetric] markPublished_live
    by (simp add: status_of_def key_row_of_def)
  ultimately show ?thesis by (simp add: db_inv_def)
qed

lemma Publish_inv:
  assumes "db_inv pgs (snd st)"
  shows "db_inv pgs (snd (snd (Publish format_time batch f now st)))"
  using assms markPublished_inv
  by (cases st)
     (simp add: Publish_def Let_def split: sum.split option.split publish_outcome.split commit_outcome.split)

lemma outbox_step_inv:
  assumes "outbox_step pgs format_time batch st st'" "outbox_inv st \<and> db_inv pgs (snd st)"
  shows "outbox_inv st' \<and> db_inv pgs (snd st')"
  using assms
proof cases
  case (store d d' log)
  with assms(2) show ?thesis using outbox_kept store_step_outbox store_step_inv by fastforce
qed (use assms(2) Publish_outbox Publish_inv in auto)

lemma outbox_steps_inv:
  "(outbox_step pgs format_time batch)\<^sup>*\<^sup>* st st' \<Longrightarrow> outbox_inv st \<and> db_inv pgs (snd st) \<Longrightarrow>
   outbox_inv st' \<and> db_inv pgs (snd st')"
  by (induction rule: rtranclp_induct) (auto dest: outbox_step_inv)

section \<open>Draining the outbox\<close>

definition relay_ok :: relay_faults where
  "relay_ok = \<lparr>rf_read = False, rf_publish = Accepted, rf_mark = Committed\<rparr>"

definition quiet :: "time \<Rightarrow> relay_tick" where
  "quiet now = \<lparr>tk_others = (\<lambda>d. d), tk_faults = relay_ok, tk_now = now\<rparr>"

lemma quiet_simps [simp]:
  "tk_others (quiet now) = (\<lambda>d. d)" "tk_faults (quiet now) = relay_ok" "tk_now (quiet now) = now"
  by (simp_all add: quiet_def)

definition outbox :: "db \<Rightarrow> intent_row list" where
  "outbox d = sort_key w_emitted_at (filter is_unpublished (write_intents d))"

lemma filter_take_out:
  "distinct (map f xs) \<Longrightarrow> filter (\<lambda>x. f x \<notin> f ` set (take n xs)) xs = drop n xs"
proof (induction xs arbitrary: n)
  case (Cons x xs)
  show ?case
  proof (cases n)
    case (Suc m)
    have "f y \<noteq> f x" if "y \<in> set xs" for y
      using Cons.prems that by (metis distinct.simps(2) imageI list.map(2) list.set_map)
    then have "filter (\<lambda>y. f y \<notin> f ` set (take m xs) \<and> f y \<noteq> f x) xs = filter (\<lambda>y. f y \<notin> f ` set (take m xs)) xs"
      by (intro filter_cong) auto
    with Cons Suc show ?thesis by (simp add: conj_commute)
  qed simp
qed simp

lemma outbox_marked:
  assumes "distinct (map w_intent_id (write_intents d))"
  shows "outbox (markPublished now (map w_intent_id (take n (outbox d))) (map w_emitted_at (take n (outbox d))) d) =
    drop n (outbox d)"
proof -
  let ?t = "take n (outbox d)"
  have sub: "set ?t \<subseteq> set (write_intents d)" by (auto simp: outbox_def dest: in_set_takeD)
  have hit: "w_intent_id w \<in> set (map w_intent_id ?t) \<and> w_emitted_at w \<in> set (map w_emitted_at ?t) \<longleftrightarrow>
      w_intent_id w \<in> w_intent_id ` set ?t" if "w \<in> set (write_intents d)" for w
    using that sub assms by (auto simp: distinct_map dest: inj_onD)
  have "filter is_unpublished (update_where p (\<lambda>w. w\<lparr>w_published_at := Some now\<rparr>) ws) =
      filter (\<lambda>w. \<not> p w) (filter is_unpublished ws)" for p ws
    by (rule filter_update_where_out) (simp add: is_unpublished_def)
  then have "filter is_unpublished (write_intents (markPublished now (map w_intent_id ?t) (map w_emitted_at ?t) d)) =
      filter (\<lambda>w. w_intent_id w \<notin> w_intent_id ` set ?t) (filter is_unpublished (write_intents d))"
    using hit by (simp add: markPublished_def cong: filter_cong)
  then have "outbox (markPublished now (map w_intent_id ?t) (map w_emitted_at ?t) d) =
      filter (\<lambda>w. w_intent_id w \<notin> w_intent_id ` set ?t) (outbox d)"
    by (simp add: outbox_def filter_sort)
  also have "distinct (map w_intent_id (outbox d))"
    using assms by (simp add: outbox_def distinct_map inj_on_def)
  then have "filter (\<lambda>w. w_intent_id w \<notin> w_intent_id ` set ?t) (outbox d) = drop n (outbox d)"
    by (rule filter_take_out)
  finally show ?thesis .
qed

text \<open>C23: Publication is at least once. However claims, completions and relay cycles interleave,
  and whatever fails in them, an intent is marked published only when its message is in the
  topic, and a message once in the topic stays there: a crash between publishing and marking can
  only publish again.\<close>

theorem published_only_if_logged:
  assumes "(outbox_step pgs format_time batch)\<^sup>*\<^sup>* ([], empty_db) (log, d)" "inj (uuidv7 pgs)"
  shows "(\<forall>w \<in> set (write_intents d). w_published_at w \<noteq> None \<longrightarrow> w_intent_id w \<in> msg_Key ` set log) \<and>
    (\<forall>log' d'. outbox_step pgs format_time batch (log, d) (log', d') \<longrightarrow> prefix log log')"
proof (intro conjI allI impI)
  have "outbox_inv ([], empty_db) \<and> db_inv pgs (snd ([], empty_db))"
    using assms(2) by (simp add: outbox_inv_def empty_db_def db_inv_def wf_empty_db [unfolded empty_db_def])
  from outbox_steps_inv [OF assms(1) this]
  show "\<forall>w \<in> set (write_intents d). w_published_at w \<noteq> None \<longrightarrow> w_intent_id w \<in> msg_Key ` set log"
    by (simp add: outbox_inv_def logged_def)
next
  fix log' d' assume "outbox_step pgs format_time batch (log, d) (log', d')"
  then show "prefix log log'"
    by cases (auto simp: Publish_def Let_def split: sum.splits option.splits if_splits publish_outcome.splits
        commit_outcome.splits dest: arg_cong [where f = fst])
qed

definition relayed :: "message list \<times> db" where
  "relayed = snd (Publish (\<lambda>_. []) 10 relay_ok 120 ([], db1))"

theorem published_only_if_logged_witness:
  "w_intent_id (hd (write_intents (snd relayed))) \<in> msg_Key ` set (fst relayed)"
proof -
  have "(outbox_step pg0 (\<lambda>_. []) 10)\<^sup>*\<^sup>* ([], empty_db) (fst relayed, snd relayed)"
    unfolding relayed_def
    by (metis outbox_step.store [OF db1_step] outbox_step.relay prod.collapse
        converse_rtranclp_into_rtranclp r_into_rtranclp)
  moreover have "hd (write_intents (snd relayed)) \<in> set (write_intents (snd relayed))"
    "w_published_at (hd (write_intents (snd relayed))) \<noteq> None" by code_simp+
  ultimately show ?thesis using published_only_if_logged [of pg0 "\<lambda>_. []" 10 "fst relayed" "snd relayed"]
    by (simp add: pg0_def inj_def)
qed

text \<open>C24: A relay that meets no faults drains the outbox. With a positive batch and payloads that
  are JSON, enough cycles leave nothing unpublished, and the topic has gained exactly one message
  for every intent that was waiting, in the order the intents were emitted.\<close>

theorem Run_drains:
  assumes "distinct (map w_intent_id (write_intents d))" "\<forall>w \<in> set (write_intents d). Valid (w_payload w)"
    and "1 \<le> batch" "int (length (outbox d)) \<le> batch * int (length nows)"
  shows "case Run format_time batch
      (map quiet nows) (published, failed, log, d) of
    (published', failed', log', d') \<Rightarrow>
      outbox d' = [] \<and> log' = log @ map (message_of format_time) (outbox d) \<and>
      published' = published + int (length (outbox d)) \<and> failed' = failed"
  using assms
proof (induction nows arbitrary: published log d)
  case Nil
  then show ?case by simp
next
  case (Cons now nows)
  let ?t = "take (nat batch) (outbox d)"
  let ?d = "markPublished now (map w_intent_id ?t) (map w_emitted_at ?t) d"
  have rest: "outbox ?d = drop (nat batch) (outbox d)" using Cons.prems(1) by (rule outbox_marked)
  have "set ?t \<subseteq> set (write_intents d)" by (auto simp: outbox_def dest: in_set_takeD)
  then have valid: "List.find (\<lambda>w. \<not> Valid (w_payload w)) ?t = None"
    using Cons.prems(2) by (auto simp: find_None_iff)
  have step: "Publish format_time batch relay_ok now (log, d) =
      (Inr (int (length ?t)), log @ map (message_of format_time) ?t, if ?t = [] then d else ?d)"
    using valid Cons.prems(3)
    by (simp add: Publish_def unpublished_def relay_ok_def Let_def flip: outbox_def)
  define d1 where "d1 = (if ?t = [] then d else ?d)"
  have "outbox d1 = drop (nat batch) (outbox d)" using Cons.prems(3) rest by (auto simp: d1_def)
  moreover have "\<forall>w \<in> set (write_intents d1). Valid (w_payload w)"
    using Cons.prems(2) by (auto simp: d1_def markPublished_def set_update_where)
  moreover have "distinct (map w_intent_id (write_intents d1))" using Cons.prems(1) by (simp add: d1_def)
  moreover have "0 \<le> batch * int (length nows)" using Cons.prems(3) by simp
  then have "int (length (drop (nat batch) (outbox d))) \<le> batch * int (length nows)"
    using Cons.prems(3,4) by (cases "length (outbox d) \<le> nat batch") (simp_all add: algebra_simps of_nat_diff)
  ultimately have IH: "case Run format_time batch
      (map quiet nows)
      (published + int (length ?t), failed, log @ map (message_of format_time) ?t, d1) of
    (published', failed', log', d') \<Rightarrow>
      outbox d' = [] \<and> log' = (log @ map (message_of format_time) ?t) @ map (message_of format_time) (drop (nat batch) (outbox d)) \<and>
      published' = published + int (length ?t) + int (length (drop (nat batch) (outbox d))) \<and> failed' = failed"
    using Cons.IH [of d1 "log @ map (message_of format_time) ?t" "published + int (length ?t)"] Cons.prems(3) by simp
  have "length ?t + length (drop (nat batch) (outbox d)) = length (outbox d)" by simp
  moreover have "map (message_of format_time) ?t @ map (message_of format_time) (drop (nat batch) (outbox d)) =
      map (message_of format_time) (outbox d)" by (simp flip: map_append)
  moreover have "Run format_time batch (map quiet (now # nows)) (published, failed, log, d) =
      Run format_time batch (map quiet nows)
        (published + int (length ?t), failed, log @ map (message_of format_time) ?t, d1)"
    using step by (simp add: d1_def)
  ultimately show ?case using IH by (auto split: prod.splits)
qed

theorem Run_drains_witness:
  "case Run (\<lambda>_. []) 10 [quiet 120] (0, 0, [], db1) of
     (published', failed', log', d') \<Rightarrow> outbox d' = [] \<and> published' = 1"
proof -
  have len: "length (outbox db1) = 1" by code_simp
  have "distinct (map w_intent_id (write_intents db1))" "\<forall>w \<in> set (write_intents db1). Valid (w_payload w)"
    by code_simp+
  from Run_drains [OF this, where batch = 10 and nows = "[120]" and format_time = "\<lambda>_. []" and
      published = 0 and failed = 0 and log = "[]"] len show ?thesis
    by (auto split: prod.splits)
qed

end
