(* ===== verification/Config.thy ===== *)
theory Config
  imports Json_Parse
begin

text \<open>
  The configuration (\<open>internal/config\<close>): reading it from the environment and validating it.
  Problems are values instead of texts. \<open>getenv\<close> is the environment of the process and
  \<open>parse_duration\<close> is \<open>time.ParseDuration\<close>; both are arguments. \<open>worker_life\<close> bounds how long
  a request may act on its key after claiming it, from the timeouts the write handler applies.
\<close>

record config =
  DatabaseURL :: string
  ListenAddr :: string
  MetricsAddr :: string
  AuthMode :: string
  ClaimPendingWait :: duration
  ManifestDir :: string
  ManifestReloadInterval :: duration
  ConflictLockTimeout :: duration
  ReadMaxSpan :: duration
  ReconcileStaleAfter :: duration
  ReconcileInterval :: duration
  DownstreamBaseURL :: string
  DownstreamConnectTimeout :: duration
  DownstreamTimeout :: duration
  PayloadBytes :: int
  ResultInlineBytes :: int
  OutcomeWriteAttempts :: int
  PartitionAhead :: duration
  RetentionKeys :: duration
  RetentionIntents :: duration
  RetentionConflicts :: duration
  RetentionAudit :: duration
  RetentionRowsPerSec :: int
  KafkaBrokers :: string
  KafkaTopic :: string
  RelayInterval :: duration
  RelayBatch :: int
  ArchiveEndpoint :: string
  ArchiveBucket :: string
  ArchiveAccessKey :: string
  ArchiveSecretKey :: string

definition AuthModeTrustedHeader :: string where
  "AuthModeTrustedHeader = ''trusted_header''"

definition SerializeWait :: "config \<Rightarrow> duration" where
  "SerializeWait c = wrap64 (DownstreamConnectTimeout c + DownstreamTimeout c)"

datatype config_problem =
    NotADuration string | NotAnInteger string
  | DatabaseURLRequired | DownstreamBaseURLRequired | AuthModeUnset
  | StaleAfterBelowBudget duration duration | StaleAfterBelowInterval duration duration
  | PendingWaitTooLong duration duration | AttemptsNotPositive | PayloadBytesNotPositive
  | ManifestDirRequired | LockTimeoutNotPositive | ReadMaxSpanNotPositive
  | PartitionAheadTooShort duration | RowsPerSecNotPositive

section \<open>Validation\<close>

definition Validate :: "config \<Rightarrow> config_problem list" where
  "Validate c =
     (let callBudget = wrap64 (DownstreamConnectTimeout c + DownstreamTimeout c) in
      (if DatabaseURL c = [] then [DatabaseURLRequired] else []) @
      (if DownstreamBaseURL c = [] then [DownstreamBaseURLRequired] else []) @
      (if AuthMode c \<noteq> AuthModeTrustedHeader then [AuthModeUnset] else []) @
      (if ReconcileStaleAfter c < wrap64 (3 * callBudget)
       then [StaleAfterBelowBudget (ReconcileStaleAfter c) (wrap64 (3 * callBudget))] else []) @
      (if ReconcileStaleAfter c \<le> wrap64 (2 * ReconcileInterval c)
       then [StaleAfterBelowInterval (ReconcileStaleAfter c) (wrap64 (2 * ReconcileInterval c))] else []) @
      (if ClaimPendingWait c \<ge> DownstreamTimeout c
       then [PendingWaitTooLong (ClaimPendingWait c) (DownstreamTimeout c)] else []) @
      (if OutcomeWriteAttempts c < 1 then [AttemptsNotPositive] else []) @
      (if PayloadBytes c < 1 then [PayloadBytesNotPositive] else []) @
      (if ManifestDir c = [] then [ManifestDirRequired] else []) @
      (if ConflictLockTimeout c \<le> 0 then [LockTimeoutNotPositive] else []) @
      (if ReadMaxSpan c \<le> 0 then [ReadMaxSpanNotPositive] else []) @
      (if PartitionAhead c < 4 * 7 * Day then [PartitionAheadTooShort (PartitionAhead c)] else []) @
      (if RetentionRowsPerSec c < 1 then [RowsPerSecNotPositive] else []))"

section \<open>Reading the environment\<close>

text \<open>\<open>strings.TrimSpace\<close>: the encodings of the runes \<open>unicode.IsSpace\<close> holds of.\<close>

definition spaces :: "bytes list" where
  "spaces = map (\<lambda>c. [c]) [CHR 9, CHR 10, CHR 11, CHR 12, CHR 13, CHR 32] @
     map utf8_encode ([133, 160, 5760] @ [8192..<8203] @ [8232, 8233, 8239, 8287, 12288])"

lemma spaces_nonempty: "p \<in> set spaces \<Longrightarrow> 0 < length p"
  by (auto simp: spaces_def utf8_encode_def Let_def)

function trim_left :: "bytes list \<Rightarrow> bytes \<Rightarrow> bytes" where
  "trim_left ps s =
     (case List.find (\<lambda>p. 0 < length p \<and> prefix p s) ps of
        None \<Rightarrow> s
      | Some p \<Rightarrow> trim_left ps (drop (length p) s))"
  by pat_completeness auto
termination
  by (relation "measure (\<lambda>(ps, s). length s)") (auto simp: find_Some_iff prefix_def)

declare trim_left.simps [simp del]

definition TrimSpace :: "bytes \<Rightarrow> bytes" where
  "TrimSpace s = rev (trim_left (map rev spaces) (rev (trim_left spaces s)))"

definition withDefault :: "(string \<Rightarrow> string) \<Rightarrow> string \<Rightarrow> string \<Rightarrow> string" where
  "withDefault getenv key fallback =
     (let value = TrimSpace (getenv key) in if value \<noteq> [] then value else fallback)"

text \<open>\<open>strconv.ParseInt(raw, 10, 64)\<close>, which also takes a plus sign.\<close>

definition parse_integer :: "bytes \<Rightarrow> int option" where
  "parse_integer raw = (case raw of c # cs \<Rightarrow>
     if c = CHR ''+'' then (case cs of d # _ \<Rightarrow> if is_digit d then ParseInt cs else None | [] \<Rightarrow> None)
     else ParseInt raw | [] \<Rightarrow> None)"

text \<open>Each reader returns the value and the problems it reported.\<close>

definition integer :: "(string \<Rightarrow> string) \<Rightarrow> string \<Rightarrow> int \<Rightarrow> int \<times> config_problem list" where
  "integer getenv key fallback =
     (let raw = TrimSpace (getenv key) in
      if raw = [] then (fallback, [])
      else case parse_integer raw of
        None \<Rightarrow> (fallback, [NotAnInteger key])
      | Some n \<Rightarrow> (n, []))"

definition duration_ms :: "(string \<Rightarrow> string) \<Rightarrow> string \<Rightarrow> int \<Rightarrow> duration \<times> config_problem list" where
  "duration_ms getenv key fallbackMS =
     (let (n, ps) = integer getenv key fallbackMS in (wrap64 (n * Millisecond), ps))"

definition goDuration ::
  "(string \<Rightarrow> duration option) \<Rightarrow> (string \<Rightarrow> string) \<Rightarrow> string \<Rightarrow> duration \<Rightarrow> duration \<times> config_problem list" where
  "goDuration parse_duration getenv key fallback =
     (let raw = TrimSpace (getenv key) in
      if raw = [] then (fallback, [])
      else case parse_duration raw of
        None \<Rightarrow> (fallback, [NotADuration key])
      | Some d \<Rightarrow> (d, []))"

definition read_config ::
  "(string \<Rightarrow> duration option) \<Rightarrow> (string \<Rightarrow> string) \<Rightarrow> config \<times> config_problem list" where
  "read_config parse_duration getenv =
     (let int_of = integer getenv; ms = duration_ms getenv; dur = goDuration parse_duration getenv;
          (pendingWait, p1) = ms ''IDEMIO_CLAIM_PENDING_WAIT_MS'' 0;
          (staleAfter, p2) = dur ''IDEMIO_RECONCILE_STALE_AFTER'' (5 * Minute);
          (interval, p3) = dur ''IDEMIO_RECONCILE_INTERVAL'' (30 * Second);
          (connect, p4) = ms ''IDEMIO_DOWNSTREAM_CONNECT_TIMEOUT_MS'' 1000;
          (timeout, p5) = ms ''IDEMIO_DOWNSTREAM_TIMEOUT_MS'' 10000;
          (payload, p6) = int_of ''IDEMIO_LIMITS_PAYLOAD_BYTES'' 262144;
          (inline, p7) = int_of ''IDEMIO_LIMITS_RESULT_INLINE_BYTES'' 65536;
          (attempts, p8) = int_of ''IDEMIO_OUTCOME_WRITE_ATTEMPTS'' 3;
          (reload, p9) = dur ''IDEMIO_MANIFEST_RELOAD_INTERVAL'' (30 * Second);
          (lock, p10) = ms ''IDEMIO_CONFLICT_LOCK_TIMEOUT_MS'' 250;
          (span, p11) = dur ''IDEMIO_READ_MAX_SPAN'' (31 * Day);
          (ahead, p12) = dur ''IDEMIO_PARTITION_AHEAD'' (8 * 7 * Day);
          (keepKeys, p13) = dur ''IDEMIO_RETENTION_KEYS'' (90 * Day);
          (keepIntents, p14) = dur ''IDEMIO_RETENTION_INTENTS'' (90 * Day);
          (keepConflicts, p15) = dur ''IDEMIO_RETENTION_CONFLICTS'' (365 * Day);
          (keepAudit, p16) = dur ''IDEMIO_RETENTION_AUDIT'' (365 * Day);
          (rows, p17) = int_of ''IDEMIO_RETENTION_ROWS_PER_SEC'' 500;
          (relay, p18) = dur ''IDEMIO_RELAY_INTERVAL'' Second;
          (batch, p19) = int_of ''IDEMIO_RELAY_BATCH'' 500
      in (\<lparr>DatabaseURL = getenv ''IDEMIO_DATABASE_URL'',
           ListenAddr = withDefault getenv ''IDEMIO_LISTEN_ADDR'' ''127.0.0.1:8080'',
           MetricsAddr = withDefault getenv ''IDEMIO_METRICS_ADDR'' ''127.0.0.1:9090'',
           AuthMode = withDefault getenv ''IDEMIO_AUTH_MODE'' [],
           ClaimPendingWait = pendingWait,
           ManifestDir = getenv ''IDEMIO_MANIFEST_DIR'', ManifestReloadInterval = reload,
           ConflictLockTimeout = lock, ReadMaxSpan = span,
           ReconcileStaleAfter = staleAfter, ReconcileInterval = interval,
           DownstreamBaseURL = getenv ''IDEMIO_DOWNSTREAM_BASE_URL'',
           DownstreamConnectTimeout = connect, DownstreamTimeout = timeout,
           PayloadBytes = payload, ResultInlineBytes = inline, OutcomeWriteAttempts = attempts,
           PartitionAhead = ahead, RetentionKeys = keepKeys, RetentionIntents = keepIntents,
           RetentionConflicts = keepConflicts, RetentionAudit = keepAudit, RetentionRowsPerSec = rows,
           KafkaBrokers = getenv ''IDEMIO_KAFKA_BROKERS'',
           KafkaTopic = withDefault getenv ''IDEMIO_KAFKA_TOPIC'' ''idemio.write-intents'',
           RelayInterval = relay, RelayBatch = batch,
           ArchiveEndpoint = getenv ''IDEMIO_ARCHIVE_ENDPOINT'', ArchiveBucket = getenv ''IDEMIO_ARCHIVE_BUCKET'',
           ArchiveAccessKey = getenv ''IDEMIO_ARCHIVE_ACCESS_KEY'',
           ArchiveSecretKey = getenv ''IDEMIO_ARCHIVE_SECRET_KEY''\<rparr>,
          concat [p1, p2, p3, p4, p5, p6, p7, p8, p9, p10, p11, p12, p13, p14, p15, p16, p17, p18, p19]))"

definition Load_config ::
  "(string \<Rightarrow> duration option) \<Rightarrow> (string \<Rightarrow> string) \<Rightarrow> config_problem list + config" where
  "Load_config parse_duration getenv =
     (let (cfg, problems) = read_config parse_duration getenv in
      if length problems > 0 then Inl problems
      else if Validate cfg \<noteq> [] then Inl (Validate cfg)
      else Inr cfg)"

section \<open>How long a worker may act\<close>

text \<open>
  After its claim a request calls the downstream within the two downstream timeouts, places the
  result within five seconds, and then tries to record the outcome, two seconds per attempt with
  doubling pauses from 50 milliseconds on.
\<close>

definition backoff_total :: "int \<Rightarrow> duration" where
  "backoff_total attempts = 50 * Millisecond * (2 ^ nat (attempts - 1) - 1)"

definition worker_life :: "config \<Rightarrow> duration" where
  "worker_life c = DownstreamConnectTimeout c + DownstreamTimeout c + 5 * Second +
     OutcomeWriteAttempts c * (2 * Second) + backoff_total (OutcomeWriteAttempts c)"

section \<open>Properties\<close>

definition sane :: "config \<Rightarrow> bool" where
  "sane c \<longleftrightarrow> 0 \<le> DownstreamConnectTimeout c \<and> 0 \<le> DownstreamTimeout c \<and>
     3 * (DownstreamConnectTimeout c + DownstreamTimeout c) < 2 ^ 63 \<and>
     0 \<le> ReconcileInterval c \<and> 2 * ReconcileInterval c < 2 ^ 63"

definition default_config :: config where
  "default_config = \<lparr>DatabaseURL = ''postgres://db'', ListenAddr = ''127.0.0.1:8080'',
     MetricsAddr = ''127.0.0.1:9090'', AuthMode = ''trusted_header'', ClaimPendingWait = 0,
     ManifestDir = ''manifests'', ManifestReloadInterval = 30 * Second,
     ConflictLockTimeout = 250 * Millisecond, ReadMaxSpan = 31 * Day,
     ReconcileStaleAfter = 5 * Minute, ReconcileInterval = 30 * Second,
     DownstreamBaseURL = ''http://ds'', DownstreamConnectTimeout = 1000 * Millisecond,
     DownstreamTimeout = 10000 * Millisecond, PayloadBytes = 262144, ResultInlineBytes = 65536,
     OutcomeWriteAttempts = 3, PartitionAhead = 8 * 7 * Day, RetentionKeys = 90 * Day,
     RetentionIntents = 90 * Day, RetentionConflicts = 365 * Day, RetentionAudit = 365 * Day,
     RetentionRowsPerSec = 500, KafkaBrokers = [], KafkaTopic = ''idemio.write-intents'',
     RelayInterval = Second, RelayBatch = 500, ArchiveEndpoint = [], ArchiveBucket = [],
     ArchiveAccessKey = [], ArchiveSecretKey = []\<rparr>"

definition default_env :: "string \<Rightarrow> string" where
  "default_env = (\<lambda>_. [])(''IDEMIO_DATABASE_URL'' := ''postgres://db'',
     ''IDEMIO_DOWNSTREAM_BASE_URL'' := ''http://ds'', ''IDEMIO_MANIFEST_DIR'' := ''manifests'',
     ''IDEMIO_AUTH_MODE'' := '' trusted_header '')"

lemma TrimSpace_env: "TrimSpace [] = []" "TrimSpace '' trusted_header '' = ''trusted_header''"
  by code_simp+

text \<open>C33: What validation of the configuration ensures, and what it does not. When the timeouts are not
  negative and three call budgets fit in 64 bits (\<open>sane\<close>), an accepted configuration keeps the
  reconciler behind the write path: a key becomes stale no sooner than after three times the longest
  downstream call and later than two sweeps, a waiting retry gives up before the downstream does, and the
  wait of a serialized write is exactly one call budget. Without that proviso the comparison may wrap: a
  downstream timeout of about 146 years is accepted with a stale age of five minutes. And the stale age is
  compared with the downstream call alone, so even with it a configuration is accepted under which a
  request may still be recording its outcome after the reconciler has taken the key for abandoned.\<close>

theorem Validate_keeps_order:
  "(\<forall>c. Validate c = [] \<and> sane c \<longrightarrow>
      3 * (DownstreamConnectTimeout c + DownstreamTimeout c) \<le> ReconcileStaleAfter c \<and>
      2 * ReconcileInterval c < ReconcileStaleAfter c \<and> ClaimPendingWait c < DownstreamTimeout c \<and>
      SerializeWait c = DownstreamConnectTimeout c + DownstreamTimeout c \<and>
      1 \<le> OutcomeWriteAttempts c \<and> 0 < ConflictLockTimeout c \<and> AuthMode c = ''trusted_header'') \<and>
   (\<exists>c. Validate c = [] \<and> 0 \<le> DownstreamConnectTimeout c \<and> 0 \<le> DownstreamTimeout c \<and>
      ReconcileStaleAfter c < DownstreamTimeout c) \<and>
   (\<exists>c. Validate c = [] \<and> sane c \<and> ReconcileStaleAfter c < worker_life c)"
proof (intro conjI allI impI)
  fix c assume c: "Validate c = [] \<and> sane c"
  have fits: "fits64 (DownstreamConnectTimeout c + DownstreamTimeout c)"
    "fits64 (3 * (DownstreamConnectTimeout c + DownstreamTimeout c))" "fits64 (2 * ReconcileInterval c)"
    using c by (auto simp: sane_def fits64_def)
  show "3 * (DownstreamConnectTimeout c + DownstreamTimeout c) \<le> ReconcileStaleAfter c"
    "2 * ReconcileInterval c < ReconcileStaleAfter c" "ClaimPendingWait c < DownstreamTimeout c"
    "SerializeWait c = DownstreamConnectTimeout c + DownstreamTimeout c"
    "1 \<le> OutcomeWriteAttempts c" "0 < ConflictLockTimeout c" "AuthMode c = ''trusted_header''"
    using c fits
    by (simp_all add: Validate_def Let_def SerializeWait_def wrap64_id AuthModeTrustedHeader_def split: if_splits)
next
  let ?c = "default_config\<lparr>DownstreamTimeout := 4611686018427 * Millisecond\<rparr>"
  have "Validate ?c = [] \<and> 0 \<le> DownstreamConnectTimeout ?c \<and> 0 \<le> DownstreamTimeout ?c \<and>
      ReconcileStaleAfter ?c < DownstreamTimeout ?c" by code_simp
  then show "\<exists>c. Validate c = [] \<and> 0 \<le> DownstreamConnectTimeout c \<and> 0 \<le> DownstreamTimeout c \<and>
      ReconcileStaleAfter c < DownstreamTimeout c" by blast
next
  let ?c = "default_config\<lparr>DownstreamConnectTimeout := Second, DownstreamTimeout := 2 * Second,
    ReconcileStaleAfter := 9 * Second, ReconcileInterval := Second\<rparr>"
  have "Validate ?c = [] \<and> sane ?c \<and> ReconcileStaleAfter ?c < worker_life ?c" by code_simp
  then show "\<exists>c. Validate c = [] \<and> sane c \<and> ReconcileStaleAfter c < worker_life c" by blast
qed

theorem Validate_keeps_order_witness:
  "Validate default_config = [] \<and> 3 * (DownstreamConnectTimeout default_config + DownstreamTimeout default_config) \<le>
     ReconcileStaleAfter default_config"
proof -
  have v: "Validate default_config = []" and "sane default_config" by code_simp+
  with Validate_keeps_order show ?thesis by blast
qed

text \<open>With only the four required variables set, the configuration loads, with the documented
  defaults, and under these a request stops acting on its key long before the key turns stale.\<close>

theorem Load_default_config:
  "Load_config parse_duration default_env = Inr default_config \<and>
   worker_life default_config < ReconcileStaleAfter default_config \<and>
   ReconcileStaleAfter default_config = 5 * Minute \<and> OutcomeWriteAttempts default_config = 3"
proof -
  have valid: "Validate default_config = []" by code_simp
  have env: "default_env key = []" if "key \<notin> {''IDEMIO_DATABASE_URL'', ''IDEMIO_DOWNSTREAM_BASE_URL'',
      ''IDEMIO_MANIFEST_DIR'', ''IDEMIO_AUTH_MODE''}" for key
    using that by (simp add: default_env_def)
  have "read_config parse_duration default_env = (default_config, [])"
    by (simp add: read_config_def integer_def duration_ms_def goDuration_def withDefault_def env TrimSpace_env)
       (simp add: default_env_def default_config_def TrimSpace_env wrap64_def go_consts)
  then have "Load_config parse_duration default_env = Inr default_config"
    by (simp add: Load_config_def valid)
  moreover have "worker_life default_config < ReconcileStaleAfter default_config" by code_simp
  ultimately show ?thesis by (simp add: default_config_def)
qed

end
