(* ===== verification/Reconcile.thy ===== *)
theory Reconcile
  imports Claim_Spec Downstream
begin

text \<open>
  The reconciler (\<open>internal/reconcile\<close>). A sweep selects the pending keys whose claim is older
  than the stale age, oldest first, and settles each from a probe of the system of record. The
  interface \<open>Prober\<close> is an argument, as are, per candidate, the manifests in force, the faults of
  the completion and of the object store, the clock, and what other processes have committed
  since the sweep began. The stale age is compared exactly; Postgres rounds the interval to
  microseconds.
\<close>

section \<open>Data\<close>

definition defaultBatch :: nat where
  "defaultBatch = 200"

record reconciler =
  rc_results :: "result_store option"
  rc_staleAfter :: duration
  rc_batch :: nat

definition NewReconciler :: "result_store option \<Rightarrow> duration \<Rightarrow> reconciler" where
  "NewReconciler results staleAfter = \<lparr>rc_results = results, rc_staleAfter = staleAfter, rc_batch = defaultBatch\<rparr>"

record summary =
  sm_Scanned :: nat
  sm_Done :: nat
  sm_Failed :: nat
  sm_Indeterminate :: nat
  sm_Unresolved :: nat

record stale =
  st_agentID :: string
  st_key :: string
  st_resourceType :: string

record recon_env =
  re_pg :: pg
  re_others :: "nat \<Rightarrow> db \<Rightarrow> db"
  re_now :: "nat \<Rightarrow> time"
  re_faults :: "nat \<Rightarrow> faults"
  re_objects :: "nat \<Rightarrow> object_faults"
  re_manifests :: "nat \<Rightarrow> snapshot"
  re_probe :: "nat \<Rightarrow> string \<Rightarrow> string \<Rightarrow> string \<Rightarrow> probe_error + probe_outcome \<times> bytes"

section \<open>The sweep\<close>

definition is_stale :: "duration \<Rightarrow> time \<Rightarrow> key_row \<Rightarrow> bool" where
  "is_stale staleAfter now r \<longleftrightarrow> k_status r = StatusPending \<and> k_claimed_at r < now - staleAfter"

definition stale_of :: "key_row \<Rightarrow> stale" where
  "stale_of r = \<lparr>st_agentID = k_agent_id r, st_key = k_idempotency_key r, st_resourceType = k_resource_type r\<rparr>"

definition staleKeys :: "reconciler \<Rightarrow> time \<Rightarrow> db \<Rightarrow> stale list" where
  "staleKeys rc now d =
     map stale_of (take (rc_batch rc)
       (sort_key k_claimed_at (filter (is_stale (rc_staleAfter rc) now) (idempotency_keys d))))"

text \<open>\<open>complete\<close>: whether this call settled the key, the summary, the bucket and the database.\<close>

definition recon_complete ::
  "recon_env \<Rightarrow> reconciler \<Rightarrow> nat \<Rightarrow> stale \<Rightarrow> status \<Rightarrow> bytes \<Rightarrow> string \<Rightarrow> summary \<Rightarrow> bucket \<Rightarrow> db
   \<Rightarrow> bool \<times> summary \<times> bucket \<times> db" where
  "recon_complete env rc n candidate status result detail summary b d =
     (let (placement, b1) = Place Client_Put (rc_results rc) (re_objects env n) (st_agentID candidate) (st_key candidate) result b in
      case Complete (re_faults env n) (re_pg env) (re_now env n) (st_agentID candidate) (st_key candidate) status
             (pl_Inline placement) (pl_Ref placement) detail (re_others env n d) of
        (Inl err, d1) \<Rightarrow> (False, summary\<lparr>sm_Unresolved := sm_Unresolved summary + 1\<rparr>, b1, d1)
      | (Inr updated, d1) \<Rightarrow> (updated, summary, b1, d1))"

definition escalate ::
  "recon_env \<Rightarrow> reconciler \<Rightarrow> nat \<Rightarrow> stale \<Rightarrow> string \<Rightarrow> summary \<Rightarrow> bucket \<Rightarrow> db \<Rightarrow> summary \<times> bucket \<times> db" where
  "escalate env rc n candidate detail summary b d =
     (case recon_complete env rc n candidate StatusIndeterminate [] detail summary b d of
        (False, summary1, b1, d1) \<Rightarrow> (summary1, b1, d1)
      | (True, summary1, b1, d1) \<Rightarrow> (summary1\<lparr>sm_Indeterminate := sm_Indeterminate summary1 + 1\<rparr>, b1, d1))"

definition resolve ::
  "recon_env \<Rightarrow> reconciler \<Rightarrow> nat \<Rightarrow> stale \<Rightarrow> summary \<times> bucket \<times> db \<Rightarrow> summary \<times> bucket \<times> db" where
  "resolve env rc n candidate st =
     (let (summary, b, d) = st in
      case Snapshot_Lookup (re_manifests env n) (st_resourceType candidate) of
        None \<Rightarrow> escalate env rc n candidate ''no_probe_registered'' summary b d
      | Some def \<Rightarrow>
          (case re_probe env n (def_ProbePath def) (st_agentID candidate) (st_key candidate) of
             Inl err \<Rightarrow> (summary\<lparr>sm_Unresolved := sm_Unresolved summary + 1\<rparr>, b, re_others env n d)
           | Inr (Executed, result) \<Rightarrow>
               (case recon_complete env rc n candidate StatusDone result ''resolved_by_probe'' summary b d of
                  (True, summary1, rest) \<Rightarrow> (summary1\<lparr>sm_Done := sm_Done summary1 + 1\<rparr>, rest)
                | (False, summary1, rest) \<Rightarrow> (summary1, rest))
           | Inr (NotExecuted, _) \<Rightarrow>
               (case recon_complete env rc n candidate StatusFailed [] ''probe_found_no_execution'' summary b d of
                  (True, summary1, rest) \<Rightarrow> (summary1\<lparr>sm_Failed := sm_Failed summary1 + 1\<rparr>, rest)
                | (False, summary1, rest) \<Rightarrow> (summary1, rest))
           | Inr (Unknown, _) \<Rightarrow> escalate env rc n candidate ''probe_returned_unknown'' summary b d))"

fun resolve_all ::
  "recon_env \<Rightarrow> reconciler \<Rightarrow> nat \<Rightarrow> stale list \<Rightarrow> summary \<times> bucket \<times> db \<Rightarrow> summary \<times> bucket \<times> db" where
  "resolve_all env rc n [] st = st"
| "resolve_all env rc n (c # cs) st = resolve_all env rc (Suc n) cs (resolve env rc n c st)"

text \<open>\<open>None\<close> is the error of the query; \<open>now\<close> is its time.\<close>

definition Sweep ::
  "recon_env \<Rightarrow> reconciler \<Rightarrow> bool \<Rightarrow> time \<Rightarrow> bucket \<Rightarrow> db \<Rightarrow> summary option \<times> bucket \<times> db" where
  "Sweep env rc query_fails now b d =
     (if query_fails then (None, b, d)
      else
        (let candidates = staleKeys rc now d;
             (summary, b1, d1) = resolve_all env rc 0 candidates
               (\<lparr>sm_Scanned = length candidates, sm_Done = 0, sm_Failed = 0, sm_Indeterminate = 0,
                 sm_Unresolved = 0\<rparr>, b, d)
         in (Some summary, b1, d1)))"

text \<open>The loop: one sweep per tick until the process stops; a failed sweep is logged and left behind.\<close>

record sweep_tick =
  sw_env :: recon_env
  sw_fails :: bool
  sw_now :: time

fun Reconciler_Run :: "reconciler \<Rightarrow> sweep_tick list \<Rightarrow> bucket \<times> db \<Rightarrow> bucket \<times> db" where
  "Reconciler_Run rc [] st = st"
| "Reconciler_Run rc (t # ts) (b, d) = Reconciler_Run rc ts (snd (Sweep (sw_env t) rc (sw_fails t) (sw_now t) b d))"

section \<open>What a claim does to the keys\<close>

definition row_status :: "key_row option \<Rightarrow> status option" where
  "row_status row = map_option k_status row"

lemma Claim_rows:
  assumes "Claim f pgs now req d = (r, d')" "db_inv pgs d"
  shows "(d' = d \<and> (\<forall>res. r = Inr res \<longrightarrow> res_Verdict res \<noteq> VerdictClaimed)) \<or>
    (row_status (key_row_of d (req_AgentID req) (req_Key req)) \<in> {None, Some StatusFailed} \<and>
     (\<forall>a k. (a, k) \<noteq> (req_AgentID req, req_Key req) \<longrightarrow> key_row_of d' a k = key_row_of d a k) \<and>
     (\<exists>row. key_row_of d' (req_AgentID req) (req_Key req) = Some row \<and>
        (k_status row = StatusPending \<and> k_claimed_at row = now \<or>
         k_status row = StatusRejected \<and> (\<forall>res. r = Inr res \<longrightarrow> res_Verdict res \<noteq> VerdictClaimed))))"
  using assms(1) db_inv_distinct [OF assms(2)]
proof (cases rule: Claim_effect)
  case unchanged
  then show ?thesis by auto
next
  case (claimed payload)
  have "row_status (key_row_of d (req_AgentID req) (req_Key req)) \<in> {None, Some StatusFailed}"
    using claimed(1) by (auto simp: claimable_def row_status_def split: option.splits)
  then show ?thesis
    using key_row_of_cong [OF claimed(3)] key_row_of_with_intent [OF claimed(1)]
    by (auto simp: claimed_row_pending)
next
  case (rejected payload stored detail)
  have "row_status (key_row_of d (req_AgentID req) (req_Key req)) \<in> {None, Some StatusFailed}"
    using rejected(1) by (auto simp: claimable_def row_status_def split: option.splits)
  moreover have "r = Inr res \<Longrightarrow> res_Verdict res \<noteq> VerdictClaimed" for res using rejected(4) by auto
  ultimately show ?thesis
    using rejects_key_row [OF rejected(3)] key_row_of_with_intent [OF rejected(1)]
    by (auto simp: rejected_row_def)
qed

section \<open>What a completion does to the keys\<close>

lemma Complete_rows:
  assumes "Complete f pgs now a k st result ref detail d = (r, d')" "db_inv pgs d"
  shows "(d' = d \<and> r \<noteq> Inr True) \<or>
    (status_of d a k = Some StatusPending \<and> status_of d' a k = Some st \<and> r \<noteq> Inr False \<and>
     (\<forall>b c. (b, c) \<noteq> (a, k) \<longrightarrow> key_row_of d' b c = key_row_of d b c))"
  using assms(1) db_inv_distinct [OF assms(2)]
proof (cases rule: Complete_effect)
  case (recorded row stored)
  then show ?thesis by (auto simp: status_of_def key_row_of_completes completed_row_def)
qed simp


text \<open>What a candidate is settled as, from the manifests and the probe.\<close>

definition decision ::
  "snapshot \<Rightarrow> (string \<Rightarrow> string \<Rightarrow> string \<Rightarrow> probe_error + probe_outcome \<times> bytes) \<Rightarrow> stale
   \<Rightarrow> (status \<times> bytes \<times> string) option" where
  "decision snapshot probe c =
     (case Snapshot_Lookup snapshot (st_resourceType c) of
        None \<Rightarrow> Some (StatusIndeterminate, [], ''no_probe_registered'')
      | Some def \<Rightarrow>
          (case probe (def_ProbePath def) (st_agentID c) (st_key c) of
             Inl err \<Rightarrow> None
           | Inr (Executed, result) \<Rightarrow> Some (StatusDone, result, ''resolved_by_probe'')
           | Inr (NotExecuted, _) \<Rightarrow> Some (StatusFailed, [], ''probe_found_no_execution'')
           | Inr (Unknown, _) \<Rightarrow> Some (StatusIndeterminate, [], ''probe_returned_unknown'')))"

lemma decision_recordable: "decision s p c = Some (st, result, detail) \<Longrightarrow> recordable st"
  by (auto simp: decision_def recordable_def split: option.splits sum.splits probe_outcome.splits prod.splits)

definition attempt ::
  "recon_env \<Rightarrow> reconciler \<Rightarrow> nat \<Rightarrow> stale \<Rightarrow> status \<times> bytes \<times> string \<Rightarrow> bucket \<Rightarrow> db \<Rightarrow> (claim_error + bool) \<times> db" where
  "attempt env rc n c dec b d =
     (let (st, result, detail) = dec;
          placement = fst (Place Client_Put (rc_results rc) (re_objects env n) (st_agentID c) (st_key c) result b)
      in Complete (re_faults env n) (re_pg env) (re_now env n) (st_agentID c) (st_key c) st
           (pl_Inline placement) (pl_Ref placement) detail (re_others env n d))"

text \<open>The database after a candidate is that of the one completion its decision asks for.\<close>

lemma recon_complete_db:
  "snd (snd (snd (recon_complete env rc n c st result detail summary b d))) =
     snd (attempt env rc n c (st, result, detail) b d)"
  by (simp add: recon_complete_def attempt_def Let_def split: prod.split sum.split)

lemma count_case:
  "snd (case x of (True, s, r) \<Rightarrow> (f s, r) | (False, s, r) \<Rightarrow> (s, r)) = snd (snd x)"
  by (cases x) (simp split: bool.split)

lemma escalate_db:
  "snd (snd (escalate env rc n c detail summary b d)) = snd (attempt env rc n c (StatusIndeterminate, [], detail) b d)"
  unfolding recon_complete_db [of env rc n c StatusIndeterminate "[]" detail summary b d, symmetric] escalate_def
  by (simp split: bool.split prod.split)

lemma resolve_db:
  "snd (snd (resolve env rc n c (summary, b, d))) =
     (case decision (re_manifests env n) (re_probe env n) c of
        None \<Rightarrow> re_others env n d
      | Some dec \<Rightarrow> snd (attempt env rc n c dec b d))"
proof (cases "Snapshot_Lookup (re_manifests env n) (st_resourceType c)")
  case None
  then show ?thesis by (simp add: resolve_def decision_def escalate_db)
next
  case lookup: (Some def)
  show ?thesis
  proof (cases "re_probe env n (def_ProbePath def) (st_agentID c) (st_key c)")
    case (Inl err)
    with lookup show ?thesis by (simp add: resolve_def decision_def)
  next
    case (Inr x)
    obtain out result where x: "x = (out, result)" by fastforce
    show ?thesis using lookup Inr
      by (cases out) (simp_all add: resolve_def decision_def x escalate_db count_case recon_complete_db)
  qed
qed





section \<open>Properties\<close>

lemma set_staleKeys:
  "set (staleKeys rc now d) \<subseteq> stale_of ` {r \<in> set (idempotency_keys d). is_stale (rc_staleAfter rc) now r}"
  by (auto simp: staleKeys_def dest: in_set_takeD)

text \<open>C34: One step of the reconciler is safe whatever the probe, the manifests, the object store
  and the database do. It changes no key but its candidate and that one only while it is still
  pending; it settles it as done only on a probe that found an execution, as failed only on a
  probe that found none, and as indeterminate only when there is no manifest or the answer is
  unknown; a probe that fails leaves the key as it is.\<close>

theorem resolve_safe:
  assumes "db_inv (re_pg env) d" "re_others env n = (\<lambda>d. d)"
    and "snd (snd (resolve env rc n c (summary, b, d))) = d'"
  shows "(\<forall>a k. (a, k) \<noteq> (st_agentID c, st_key c) \<longrightarrow> key_row_of d' a k = key_row_of d a k) \<and>
    (d' = d \<or>
     (status_of d (st_agentID c) (st_key c) = Some StatusPending \<and>
      (case Snapshot_Lookup (re_manifests env n) (st_resourceType c) of
         None \<Rightarrow> status_of d' (st_agentID c) (st_key c) = Some StatusIndeterminate
       | Some def \<Rightarrow>
           (\<exists>out result. re_probe env n (def_ProbePath def) (st_agentID c) (st_key c) = Inr (out, result) \<and>
             status_of d' (st_agentID c) (st_key c) =
               Some (case out of Executed \<Rightarrow> StatusDone | NotExecuted \<Rightarrow> StatusFailed | Unknown \<Rightarrow> StatusIndeterminate)))))"
proof (cases "decision (re_manifests env n) (re_probe env n) c")
  case None
  then show ?thesis using assms(2,3) by (simp add: resolve_db)
next
  case (Some dec)
  obtain st result detail where dec: "dec = (st, result, detail)" by (cases dec) auto
  obtain r inline ref where eq: "Complete (re_faults env n) (re_pg env) (re_now env n) (st_agentID c) (st_key c)
      st inline ref detail d = (r, d')"
    using assms(2,3) Some by (auto simp: resolve_db attempt_def dec Let_def)
      (metis prod.collapse)
  from Complete_rows [OF eq assms(1)] Some dec show ?thesis
    by (auto simp: decision_def split: option.splits sum.splits prod.splits probe_outcome.splits)
qed

definition calm_env :: recon_env where
  "calm_env = \<lparr>re_pg = pg0, re_others = (\<lambda>_ d. d), re_now = (\<lambda>_. 500), re_faults = (\<lambda>_. no_faults),
     re_objects = (\<lambda>_. ok_objects), re_manifests = (\<lambda>_. shipped_snapshot),
     re_probe = (\<lambda>_ _ _ _. Inr (NotExecuted, []))\<rparr>"

definition invoice_key :: stale where
  "invoice_key = \<lparr>st_agentID = ''billing-agent'', st_key = ''k1'', st_resourceType = ''invoice''\<rparr>"

definition rc0 :: reconciler where
  "rc0 = NewReconciler None 300"

theorem resolve_safe_witness:
  "key_row_of (snd (snd (resolve calm_env rc0 0 invoice_key (\<lparr>sm_Scanned = 1, sm_Done = 0, sm_Failed = 0,
     sm_Indeterminate = 0, sm_Unresolved = 0\<rparr>, [], db1)))) ''other'' ''k1'' = key_row_of db1 ''other'' ''k1''"
proof -
  have "db_inv (re_pg calm_env) db1" "re_others calm_env 0 = (\<lambda>d. d)"
    using example_inv(1) by (simp_all add: calm_env_def)
  from resolve_safe [OF this refl] show ?thesis by (simp add: invoice_key_def)
qed



lemma attempt_rows:
  assumes "db_inv (re_pg env) d" "re_others env n = (\<lambda>d. d)"
  shows "(snd (attempt env rc n c (st, result, detail) b d) = d \<and> fst (attempt env rc n c (st, result, detail) b d) \<noteq> Inr True) \<or>
    status_of (snd (attempt env rc n c (st, result, detail) b d)) (st_agentID c) (st_key c) = Some st \<and>
    (\<forall>a k. (a, k) \<noteq> (st_agentID c, st_key c) \<longrightarrow>
       key_row_of (snd (attempt env rc n c (st, result, detail) b d)) a k = key_row_of d a k)"
  unfolding attempt_def Let_def prod.case assms(2)
  using Complete_rows [OF prod.collapse [symmetric] assms(1)] by blast

lemma resolve_not_pending:
  assumes "db_inv (re_pg env) d" "re_others env n = (\<lambda>d. d)" "status_of d a k \<noteq> Some StatusPending"
  shows "status_of (snd (snd (resolve env rc n c (s, b, d)))) a k \<noteq> Some StatusPending"
proof (cases "decision (re_manifests env n) (re_probe env n) c")
  case None
  then show ?thesis using assms by (simp add: resolve_db)
next
  case (Some dec)
  obtain st result detail where dec: "dec = (st, result, detail)" by (cases dec) auto
  have "recordable st" using decision_recordable Some dec by blast
  then have "st \<noteq> StatusPending" by (auto simp: recordable_def)
  with attempt_rows [OF assms(1,2), of rc c st result detail b] assms(3) Some dec show ?thesis
    by (cases "(a, k) = (st_agentID c, st_key c)") (auto simp: resolve_db status_of_def)
qed













text \<open>
  A sweep takes the oldest stale keys and leaves those whose probe fails where they are, so they come
  first again: as long as the probes of one full batch fail, no other key is settled.
\<close>

lemma resolve_all_stuck:
  assumes "\<And>m. re_others env m = (\<lambda>d. d)" "\<And>m c. c \<in> set cs \<Longrightarrow> decision (re_manifests env m) (re_probe env m) c = None"
  shows "snd (snd (resolve_all env rc n cs (s, b, d))) = d"
  using assms(2)
proof (induction cs arbitrary: n s b)
  case (Cons c cs)
  obtain s1 b1 d1 where r: "resolve env rc n c (s, b, d) = (s1, b1, d1)" by (metis prod.exhaust)
  have "d1 = d" using resolve_db [of env rc n c s b d] Cons.prems [of c n] assms(1) by (simp add: r)
  with Cons.IH [of "Suc n" s1 b1] Cons.prems show ?case by (simp add: r)
qed simp

lemma Run_stuck:
  assumes "\<And>t m. t \<in> set ticks \<Longrightarrow> re_others (sw_env t) m = (\<lambda>d. d)"
    and "\<And>t m c. t \<in> set ticks \<Longrightarrow> c \<in> set (staleKeys rc (sw_now t) d) \<Longrightarrow>
      decision (re_manifests (sw_env t) m) (re_probe (sw_env t) m) c = None"
  shows "snd (Reconciler_Run rc ticks (b, d)) = d"
  using assms
proof (induction ticks arbitrary: b)
  case (Cons t ts)
  have "snd (snd (Sweep (sw_env t) rc (sw_fails t) (sw_now t) b d)) = d"
    using resolve_all_stuck [of "sw_env t" "staleKeys rc (sw_now t) d" rc 0] Cons.prems
    by (auto simp: Sweep_def Let_def split: prod.split) (metis snd_conv)
  then have "snd (Sweep (sw_env t) rc (sw_fails t) (sw_now t) b d) = (fst (snd (Sweep (sw_env t) rc (sw_fails t) (sw_now t) b d)), d)"
    by (metis prod.collapse)
  then show ?case using Cons.IH [of "fst (snd (Sweep (sw_env t) rc (sw_fails t) (sw_now t) b d))"] Cons.prems
    by (metis Reconciler_Run.simps(2) list.set_intros(2))
qed simp

end
