(* ===== verification/Http.thy ===== *)
theory Http
  imports Json_Laws Float64 Config Claim
begin

text \<open>
  What the handlers of \<open>internal/api\<close> share: requests and responses, the caller's identity and
  the form of a key (\<open>identity.go\<close>), the answers the handlers write (the last functions of
  \<open>api.go\<close>), and reading a JSON document from a body that is cut off at a limit. The decoder
  stops at the first byte that cannot continue a document, so whether a body is refused as too
  large or as malformed depends on Go's scanner, which is modelled byte by byte.
\<close>

section \<open>Requests and responses\<close>

text \<open>
  \<open>hr_Header\<close>, \<open>hr_PathValue\<close> and \<open>hr_Query\<close> are the look-ups of the Go library by name. The
  body ends with \<open>hr_BodyError\<close>, or regularly when it is \<open>None\<close>.
\<close>

record http_request =
  hr_Path :: string
  hr_Header :: "string \<Rightarrow> string"
  hr_PathValue :: "string \<Rightarrow> string"
  hr_Query :: "(string \<times> string) list"
  hr_Body :: bytes
  hr_BodyError :: "string option"

definition query_get :: "http_request \<Rightarrow> string \<Rightarrow> string" where
  "query_get r name = (case map_of (hr_Query r) name of None \<Rightarrow> [] | Some v \<Rightarrow> v)"

record response =
  rp_Status :: int
  rp_Header :: "(string \<times> string) list"
  rp_Body :: bytes

definition StatusCreated :: int where [go_consts]: "StatusCreated = 201"
definition StatusAccepted :: int where [go_consts]: "StatusAccepted = 202"
definition StatusBadRequest :: int where [go_consts]: "StatusBadRequest = 400"
definition StatusUnauthorized :: int where [go_consts]: "StatusUnauthorized = 401"
definition StatusForbidden :: int where [go_consts]: "StatusForbidden = 403"
definition StatusNotFound :: int where [go_consts]: "StatusNotFound = 404"
definition StatusConflict :: int where [go_consts]: "StatusConflict = 409"
definition StatusRequestEntityTooLarge :: int where [go_consts]: "StatusRequestEntityTooLarge = 413"
definition StatusUnprocessableEntity :: int where [go_consts]: "StatusUnprocessableEntity = 422"
definition StatusInternalServerError :: int where [go_consts]: "StatusInternalServerError = 500"
definition StatusBadGateway :: int where [go_consts]: "StatusBadGateway = 502"
definition StatusServiceUnavailable :: int where [go_consts]: "StatusServiceUnavailable = 503"

section \<open>Answers\<close>

text \<open>
  An encoder gives up on a raw message that is not JSON, after the status line has gone out. An
  empty raw message stands for a nil one, which is written as \<open>null\<close>.
\<close>

fun raws_ok :: "json \<Rightarrow> bool" where
  "raws_ok (JRaw raw) \<longleftrightarrow> raw = [] \<or> Valid raw"
| "raws_ok (JList js) \<longleftrightarrow> list_all raws_ok js"
| "raws_ok (JObject ms) \<longleftrightarrow> list_all (\<lambda>(k, v). raws_ok v) ms"
| "raws_ok (JStruct ms) \<longleftrightarrow> list_all (\<lambda>(k, v). raws_ok v) ms"
| "raws_ok _ \<longleftrightarrow> True"

definition content_json :: "string \<times> string" where
  "content_json = (''Content-Type'', ''application/json'')"

definition writeJSON :: "int \<Rightarrow> json \<Rightarrow> response" where
  "writeJSON status body =
     \<lparr>rp_Status = status, rp_Header = [content_json],
      rp_Body = (if raws_ok body then marshal body @ [CHR 10] else [])\<rparr>"

definition writeRaw :: "int \<Rightarrow> bytes \<Rightarrow> response" where
  "writeRaw status body = \<lparr>rp_Status = status, rp_Header = [content_json], rp_Body = body\<rparr>"

definition writeProblem :: "int \<Rightarrow> string \<Rightarrow> string \<Rightarrow> string \<Rightarrow> response" where
  "writeProblem status key reason detail =
     writeJSON status (JObject
       ([(''status'', JString ''rejected''), (''reason'', JString reason)] @
        (if key \<noteq> [] then [(''idempotency_key'', JString key)] else []) @
        (if detail \<noteq> [] then [(''detail'', JString detail)] else [])))"

definition writeNotExecuted :: "string \<Rightarrow> string \<Rightarrow> response" where
  "writeNotExecuted key reason =
     writeJSON StatusServiceUnavailable (JObject
       [(''idempotency_key'', JString key),
        (''status'', JString (status_text StatusFailed)),
        (''reason'', JString reason),
        (''retryable'', JBool True),
        (''detail'', JString ''No claim was made and nothing was sent downstream. Retry the same key.'')])"

lemma write_status [simp]:
  "rp_Status (writeJSON st j) = st" "rp_Status (writeRaw st b) = st" "rp_Status (writeProblem st k r d) = st"
  "rp_Status (writeNotExecuted k r) = StatusServiceUnavailable"
  by (simp_all add: writeJSON_def writeRaw_def writeProblem_def writeNotExecuted_def)

section \<open>Identity\<close>

definition HeaderAgentID :: string where "HeaderAgentID = ''X-Idemio-Agent-Id''"
definition HeaderRole :: string where "HeaderRole = ''X-Idemio-Role''"

definition RoleAgent :: string where "RoleAgent = ''agent''"
definition RoleOperator :: string where "RoleOperator = ''operator''"
definition RoleInvestigator :: string where "RoleInvestigator = ''investigator''"

record identity =
  id_AgentID :: string
  id_Role :: string

definition readIdentity :: "http_request \<Rightarrow> identity option" where
  "readIdentity r =
     (let agentID = TrimSpace (hr_Header r HeaderAgentID);
          role = TrimSpace (hr_Header r HeaderRole)
      in if agentID = [] \<or> role = [] then None else Some \<lparr>id_AgentID = agentID, id_Role = role\<rparr>)"

text \<open>
  Go ranges over the runes of the key. A rune beyond ASCII is neither a dash nor a digit wherever
  it starts, so the test is one on bytes.
\<close>

definition isUUID :: "string \<Rightarrow> bool" where
  "isUUID value \<longleftrightarrow> length value = 36 \<and>
     list_all (\<lambda>i. if i \<in> {8, 13, 18, 23} then value ! i = CHR ''-''
                    else is_digit (value ! i) \<or> between 97 102 (value ! i) \<or> between 65 70 (value ! i)) [0..<36]"

text \<open>
  \<open>strings.ToLower\<close> works byte by byte on ASCII text; what it makes of other text, by the
  Unicode tables, is the argument \<open>lower\<close>.
\<close>

definition to_lower :: "(bytes \<Rightarrow> bytes) \<Rightarrow> bytes \<Rightarrow> bytes" where
  "to_lower lower s = (if list_all (between 0 127) s then ToLower s else lower s)"

section \<open>The scanner\<close>

text \<open>
  The states of the scanner of \<open>encoding/json\<close> and the stack of open arrays and objects. A value
  is over at the closing bracket, and in the case of a scalar at the byte after it.
\<close>

datatype scan_ctx = ObjectKey | ObjectValue | ArrayValue

datatype scan_state =
    BeginValue | BeginValueOrEmpty | BeginString | BeginStringOrEmpty
  | InString | InEscape | InUnicode nat
  | Neg | Zero | Digits | Dot | Fraction | Exp | ExpSign | ExpDigits
  | Word string | EndValue

datatype scan_outcome = ScanMore scan_state "scan_ctx list" | ScanEnd | ScanError

definition closed :: "scan_ctx list \<Rightarrow> scan_outcome" where
  "closed stack = (if stack = [] then ScanEnd else ScanMore EndValue stack)"

definition opened :: "scan_state \<Rightarrow> scan_ctx \<Rightarrow> scan_ctx list \<Rightarrow> scan_outcome" where
  "opened st ctx stack = (if maxNestingDepth \<le> length stack then ScanError else ScanMore st (ctx # stack))"

definition end_value :: "scan_ctx list \<Rightarrow> char \<Rightarrow> scan_outcome" where
  "end_value stack c =
     (case stack of
        [] \<Rightarrow> ScanEnd
      | ctx # rest \<Rightarrow>
          if json_space c then ScanMore EndValue stack
          else case ctx of
            ObjectKey \<Rightarrow> if c = CHR '':'' then ScanMore BeginValue (ObjectValue # rest) else ScanError
          | ObjectValue \<Rightarrow>
              if c = CHR '','' then ScanMore BeginString (ObjectKey # rest)
              else if c = CHR ''}'' then closed rest else ScanError
          | ArrayValue \<Rightarrow>
              if c = CHR '','' then ScanMore BeginValue stack
              else if c = CHR '']'' then closed rest else ScanError)"

definition begin_value :: "scan_ctx list \<Rightarrow> char \<Rightarrow> scan_outcome" where
  "begin_value stack c =
     (if json_space c then ScanMore BeginValue stack
      else if c = CHR ''{'' then opened BeginStringOrEmpty ObjectKey stack
      else if c = CHR ''['' then opened BeginValueOrEmpty ArrayValue stack
      else if c = dquote then ScanMore InString stack
      else if c = CHR ''-'' then ScanMore Neg stack
      else if c = CHR ''0'' then ScanMore Zero stack
      else if c = CHR ''t'' then ScanMore (Word ''rue'') stack
      else if c = CHR ''f'' then ScanMore (Word ''alse'') stack
      else if c = CHR ''n'' then ScanMore (Word ''ull'') stack
      else if is_digit c then ScanMore Digits stack
      else ScanError)"

definition begin_string :: "scan_ctx list \<Rightarrow> char \<Rightarrow> scan_outcome" where
  "begin_string stack c =
     (if json_space c then ScanMore BeginString stack
      else if c = dquote then ScanMore InString stack else ScanError)"

definition after_int :: "scan_ctx list \<Rightarrow> char \<Rightarrow> scan_outcome" where
  "after_int stack c =
     (if c = CHR ''.'' then ScanMore Dot stack
      else if exponent_mark c then ScanMore Exp stack else end_value stack c)"

definition exp_digit :: "scan_ctx list \<Rightarrow> char \<Rightarrow> scan_outcome" where
  "exp_digit stack c = (if is_digit c then ScanMore ExpDigits stack else ScanError)"

fun scan_step :: "scan_state \<Rightarrow> scan_ctx list \<Rightarrow> char \<Rightarrow> scan_outcome" where
  "scan_step BeginValue stack c = begin_value stack c"
| "scan_step BeginValueOrEmpty stack c =
     (if json_space c then ScanMore BeginValueOrEmpty stack
      else if c = CHR '']'' then end_value stack c else begin_value stack c)"
| "scan_step BeginString stack c = begin_string stack c"
| "scan_step BeginStringOrEmpty stack c =
     (if json_space c then ScanMore BeginStringOrEmpty stack
      else if c = CHR ''}'' then end_value (ObjectValue # drop 1 stack) c else begin_string stack c)"
| "scan_step InString stack c =
     (if c = dquote then ScanMore EndValue stack
      else if c = backslash then ScanMore InEscape stack
      else if between 0 31 c then ScanError else ScanMore InString stack)"
| "scan_step InEscape stack c =
     (if c \<in> set [CHR ''b'', CHR ''f'', CHR ''n'', CHR ''r'', CHR ''t'', backslash, CHR ''/'', dquote]
      then ScanMore InString stack
      else if c = CHR ''u'' then ScanMore (InUnicode 3) stack else ScanError)"
| "scan_step (InUnicode n) stack c =
     (if hex_value c = None then ScanError
      else ScanMore (if n = 0 then InString else InUnicode (n - 1)) stack)"
| "scan_step Neg stack c =
     (if c = CHR ''0'' then ScanMore Zero stack else if is_digit c then ScanMore Digits stack else ScanError)"
| "scan_step Digits stack c =
     (if is_digit c then ScanMore Digits stack else after_int stack c)"
| "scan_step Zero stack c = after_int stack c"
| "scan_step Dot stack c = (if is_digit c then ScanMore Fraction stack else ScanError)"
| "scan_step Fraction stack c =
     (if is_digit c then ScanMore Fraction stack
      else if exponent_mark c then ScanMore Exp stack else end_value stack c)"
| "scan_step Exp stack c =
     (if c = CHR ''+'' \<or> c = CHR ''-'' then ScanMore ExpSign stack else exp_digit stack c)"
| "scan_step ExpSign stack c = exp_digit stack c"
| "scan_step ExpDigits stack c = (if is_digit c then ScanMore ExpDigits stack else end_value stack c)"
| "scan_step (Word text) stack c =
     (case text of
        [] \<Rightarrow> ScanError
      | x # rest \<Rightarrow> if c = x then ScanMore (if rest = [] then EndValue else Word rest) stack else ScanError)"
| "scan_step EndValue stack c = end_value stack c"

fun scan :: "scan_state \<Rightarrow> scan_ctx list \<Rightarrow> bytes \<Rightarrow> scan_outcome" where
  "scan st stack [] = ScanMore st stack"
| "scan st stack (c # cs) =
     (case scan_step st stack c of ScanMore st' stack' \<Rightarrow> scan st' stack' cs | out \<Rightarrow> out)"

section \<open>Reading a body\<close>

datatype 'a body_result = Decoded 'a | TooLarge | Malformed

text \<open>
  \<open>Decode\<close> over a \<open>MaxBytesReader\<close>: of a longer body the decoder sees the first \<open>limit\<close> bytes and
  then the error of the reader.
\<close>

definition decode_body :: "int \<Rightarrow> 'a decoder \<Rightarrow> 'a \<Rightarrow> bytes \<Rightarrow> string option \<Rightarrow> 'a body_result" where
  "decode_body limit dec zero body failure =
     (let seen = take (nat limit) body;
          decoded = (case Decode dec zero seen of None \<Rightarrow> Malformed | Some v \<Rightarrow> Decoded v)
      in case scan BeginValue [] seen of
           ScanError \<Rightarrow> Malformed
         | ScanEnd \<Rightarrow> decoded
         | ScanMore _ _ \<Rightarrow>
             if length seen < length body then TooLarge
             else if failure = None then decoded else Malformed)"

end
