(* ===== verification/Canonical.thy ===== *)
theory Canonical
  imports Json_Laws Float64 Sha256
begin

text \<open>
  The hash that binds a key to its request (\<open>internal/canonical\<close>). The canonical form of a document
  is the third-party \<open>jcs.Transform\<close>, an argument here. Before it, the numbers of the payload are
  checked: the canonical form writes them as doubles, so an integer that a double cannot hold would
  hash like its neighbours.
\<close>

definition Prefix :: string where
  "Prefix = ''sha256-jcs-v1:''"

definition maxSafeInteger :: nat where
  "maxSafeInteger = 2 ^ 53 - 1"

record canonical_request =
  cq_AgentID :: string
  cq_Operation :: string
  cq_Payload :: bytes
  cq_ResourceID :: string
  cq_ResourceType :: string

text \<open>The errors of the library steps carry its text.\<close>

datatype hash_error =
    InvalidPayload string | NotDouble bytes | UnsafeInteger bytes | EncodeRequest string | NotCanonical string

fun hash_error_text :: "hash_error \<Rightarrow> string" where
  "hash_error_text (InvalidPayload e) = ''payload is not valid JSON: '' @ e"
| "hash_error_text (NotDouble t) = ''number '' @ t @ '' is not representable as a double: strconv.ParseFloat: parsing '' @
     [dquote] @ t @ [dquote] @ '': value out of range''"
| "hash_error_text (UnsafeInteger t) = ''integer '' @ t @ '' is outside the exactly representable range''"
| "hash_error_text (EncodeRequest e) = ''encode request: '' @ e"
| "hash_error_text (NotCanonical e) = ''canonicalize: '' @ e"

section \<open>Numbers\<close>

text \<open>A decoded \<open>any\<close> with \<open>UseNumber\<close>. Of members with one name a map keeps the last.\<close>

datatype any_value =
    ANull
  | ABool bool
  | ANumber bytes
  | AString string
  | AList "any_value list"
  | AMap "(string \<times> any_value) list"

fun any_of :: "jval \<Rightarrow> any_value" where
  "any_of VNull = ANull"
| "any_of (VBool b) = ABool b"
| "any_of (VNumber t) = ANumber t"
| "any_of (VString t) = AString (unquote t)"
| "any_of (VArray es) = AList (map (\<lambda>(raw, v). any_of v) es)"
| "any_of (VObject ms) =
     AMap (foldl (\<lambda>m (name, v). AList.update name v m) []
       (map (\<lambda>(name, raw, v). (unquote name, any_of v)) ms))"

definition isIntegerLiteral :: "bytes \<Rightarrow> bool" where
  "isIntegerLiteral text \<longleftrightarrow> list_all (\<lambda>c. c \<noteq> CHR ''.'' \<and> \<not> exponent_mark c) text"

text \<open>
  A double without a range error is finite, and that of an integer literal is the integer rounded
  to 53 bits.
\<close>

definition checkNumber :: "bytes \<Rightarrow> hash_error option" where
  "checkNumber number =
     (if out_of_range number then Some (NotDouble number)
      else if isIntegerLiteral number \<and> maxSafeInteger < round53 (mantissa number)
      then Some (UnsafeInteger number)
      else None)"

definition first_error :: "'e option list \<Rightarrow> 'e option" where
  "first_error es = (case List.find (\<lambda>e. e \<noteq> None) es of None \<Rightarrow> None | Some e \<Rightarrow> e)"

text \<open>
  Go visits the members of a map in an arbitrary order, so which of several bad numbers is
  reported is open.
\<close>

fun walk :: "any_value \<Rightarrow> hash_error option" where
  "walk (AMap kvs) = first_error (map (\<lambda>(k, v). walk v) kvs)"
| "walk (AList vs) = first_error (map walk vs)"
| "walk (ANumber t) = checkNumber t"
| "walk _ = None"

definition validateNumbers :: "string \<Rightarrow> bytes \<Rightarrow> hash_error option" where
  "validateNumbers syntax_error payload =
     (case Parse payload of
        None \<Rightarrow> Some (InvalidPayload syntax_error)
      | Some (raw, v, r) \<Rightarrow> walk (any_of v))"

section \<open>The hash\<close>

definition hash_document :: "canonical_request \<Rightarrow> bytes \<Rightarrow> json" where
  "hash_document r payload =
     JObject [(''agent_id'', JString (cq_AgentID r)),
              (''operation'', JString (cq_Operation r)),
              (''payload'', JRaw payload),
              (''resource_id'', JString (cq_ResourceID r)),
              (''resource_type'', JString (cq_ResourceType r))]"

text \<open>The texts of the errors the JSON library reports for the payload.\<close>

record json_texts =
  jt_syntax :: string
  jt_encode :: string

definition Canonicalize :: "(bytes \<Rightarrow> string + bytes) \<Rightarrow> bytes \<Rightarrow> hash_error + bytes" where
  "Canonicalize transform document =
     (case transform document of Inl e \<Rightarrow> Inl (NotCanonical e) | Inr canonical \<Rightarrow> Inr canonical)"

definition Hash :: "(bytes \<Rightarrow> string + bytes) \<Rightarrow> json_texts \<Rightarrow> canonical_request \<Rightarrow> hash_error + string" where
  "Hash transform texts r =
     (let payload = (if length (cq_Payload r) = 0 then ''null'' else cq_Payload r) in
      case validateNumbers (jt_syntax texts) payload of
        Some e \<Rightarrow> Inl e
      | None \<Rightarrow>
          if \<not> Valid payload then Inl (EncodeRequest (jt_encode texts))
          else case Canonicalize transform (marshal (hash_document r payload)) of
            Inl e \<Rightarrow> Inl e
          | Inr canonical \<Rightarrow> Inr (Prefix @ hex_encode (sha256 canonical)))"

section \<open>Which numbers are accepted\<close>

fun numbers :: "any_value \<Rightarrow> bytes list" where
  "numbers (AMap kvs) = concat (map (\<lambda>(k, v). numbers v) kvs)"
| "numbers (AList vs) = concat (map numbers vs)"
| "numbers (ANumber t) = [t]"
| "numbers _ = []"

lemma first_error_None: "first_error es = None \<longleftrightarrow> (\<forall>e \<in> set es. e = None)"
proof (cases "List.find (\<lambda>e. e \<noteq> None) es")
  case (Some e)
  then show ?thesis using find_Some_in [OF Some] by (auto simp: first_error_def)
next
  case None
  then have "\<forall>e \<in> set es. e = None" by (simp add: find_None_all)
  then show ?thesis unfolding first_error_def None by simp
qed

lemma walk_numbers: "walk v = None \<longleftrightarrow> list_all (\<lambda>t. checkNumber t = None) (numbers v)"
proof (induction v rule: walk.induct)
  case (1 kvs)
  then show ?case by (force simp: first_error_None list_all_iff)
next
  case (2 vs)
  then show ?case by (auto simp: first_error_None list_all_iff)
qed auto

lemma decimal_literal: "list_all (\<lambda>c. is_digit c \<and> c \<noteq> CHR ''.'' \<and> \<not> exponent_mark c \<and> c \<noteq> CHR ''-'') (decimal n)"
  using decimal_digit by (fastforce simp: list_all_iff is_digit_def between_def exponent_mark_def)

lemma Itoa_literal:
  "isIntegerLiteral (Itoa n)" "mantissa (Itoa n) = nat \<bar>n\<bar>" "exponent (Itoa n) = 0"
proof -
  let ?d = "decimal (nat \<bar>n\<bar>)"
  have d: "\<forall>c \<in> set ?d. is_digit c \<and> c \<noteq> CHR ''.'' \<and> \<not> exponent_mark c \<and> c \<noteq> CHR ''-''"
    using decimal_literal by (simp add: list_all_iff)
  have sign: "Itoa n = (if n < 0 then CHR ''-'' # ?d else ?d)" by (simp add: Itoa_def)
  obtain c cs where hd: "?d = c # cs" using decimal_nonempty [of "nat \<bar>n\<bar>"] by (meson neq_Nil_conv)
  with d have "c \<noteq> CHR ''-''" by (metis list.set_intros(1))
  then have uns: "magnitude_text (Itoa n) = ?d" unfolding sign hd by (simp add: magnitude_text_def)
  have man: "mantissa_text (Itoa n) = ?d" using d by (simp add: mantissa_text_def uns)
  show "isIntegerLiteral (Itoa n)"
    using d by (auto simp: sign isIntegerLiteral_def list_all_iff exponent_mark_def)
  show "mantissa (Itoa n) = nat \<bar>n\<bar>"
    using d by (simp add: mantissa_def man digits_value_decimal filter_id_conv)
  have none: "dropWhile (\<lambda>c. c \<noteq> CHR ''.'') ?d = []" "dropWhile (\<lambda>c. \<not> exponent_mark c) ?d = []" using d by auto
  show "exponent (Itoa n) = 0"
    unfolding exponent_def uns fraction_text_def man none by simp
qed

lemma safe_integer: "\<not> maxSafeInteger < round53 n \<longleftrightarrow> n \<le> maxSafeInteger"
  using round53_exact [of n] round53_large [of n] by (cases "n < 2 ^ 53") (auto simp: maxSafeInteger_def)

lemma overflow_bound_large: "2 ^ 53 \<le> overflow_bound"
  by (simp add: overflow_bound_def)

lemma checkNumber_Itoa: "checkNumber (Itoa n) = None \<longleftrightarrow> \<bar>n\<bar> \<le> 2 ^ 53 - 1"
proof -
  have "n' \<le> maxSafeInteger \<Longrightarrow> \<not> overflow_bound \<le> n'" for n'
    using overflow_bound_large by (simp add: maxSafeInteger_def)
  then have "checkNumber (Itoa n) = None \<longleftrightarrow> nat \<bar>n\<bar> \<le> maxSafeInteger"
    by (auto simp: checkNumber_def out_of_range_def Itoa_literal safe_integer [symmetric])
  then show ?thesis by (simp add: maxSafeInteger_def nat_le_iff)
qed

lemma spelled:
  "mantissa ''9007199254740992.0'' = 90071992547409920" "exponent ''9007199254740992.0'' = - 1"
  "mantissa ''9007199254740993.0'' = 90071992547409930" "exponent ''9007199254740993.0'' = - 1"
  "mantissa ''1e300'' = 1" "exponent ''1e300'' = 300"
  "\<not> isIntegerLiteral ''9007199254740992.0''" "\<not> isIntegerLiteral ''9007199254740993.0''" "\<not> isIntegerLiteral ''1e300''"
  by code_simp+

text \<open>C38: What the number check accepts. It passes exactly when the payload parses and every number that
  is left after members with one name are merged is within the range of a double and, when it is
  written as an integer, within \<open>\<plusminus> (2 ^ 53 - 1)\<close>. An integer accepted as such equals its double, while
  the first one refused shares its double with the next. The bound is on the spelling, not on the value:
  with a point or an exponent a number beyond it passes, as \<open>1e300\<close> does, and \<open>9007199254740993.0\<close>, which
  is not a double and whose double is that of \<open>9007199254740992.0\<close>, accepted too.\<close>

theorem validateNumbers_exact:
  "(validateNumbers e payload = None \<longleftrightarrow>
     (case Parse payload of
        None \<Rightarrow> False
      | Some (raw, v, r) \<Rightarrow>
          list_all (\<lambda>t. \<not> out_of_range t \<and> (if isIntegerLiteral t then mantissa t \<le> maxSafeInteger else True))
            (numbers (any_of v)))) \<and>
   (checkNumber (Itoa n) = None \<longleftrightarrow> \<bar>n\<bar> \<le> 2 ^ 53 - 1) \<and>
   \<not> (isIntegerLiteral t \<and> checkNumber t = None \<and> round53 (mantissa t) \<noteq> mantissa t) \<and>
   round53 (2 ^ 53 + 1) = round53 (2 ^ 53) \<and>
   checkNumber ''9007199254740992'' \<noteq> None \<and> checkNumber ''9007199254740992.0'' = None \<and>
   checkNumber ''9007199254740993.0'' = None \<and> checkNumber ''1e300'' = None"
proof (intro conjI)
  have check: "checkNumber t = None \<longleftrightarrow> \<not> out_of_range t \<and> (if isIntegerLiteral t then mantissa t \<le> maxSafeInteger else True)" for t
    unfolding checkNumber_def by (simp add: safe_integer [symmetric])
  then show "validateNumbers e payload = None \<longleftrightarrow>
     (case Parse payload of
        None \<Rightarrow> False
      | Some (raw, v, r) \<Rightarrow>
          list_all (\<lambda>t. \<not> out_of_range t \<and> (if isIntegerLiteral t then mantissa t \<le> maxSafeInteger else True))
            (numbers (any_of v)))"
    by (simp add: validateNumbers_def walk_numbers split: option.split)
  show "\<not> (isIntegerLiteral t \<and> checkNumber t = None \<and> round53 (mantissa t) \<noteq> mantissa t)"
  proof
    assume "isIntegerLiteral t \<and> checkNumber t = None \<and> round53 (mantissa t) \<noteq> mantissa t"
    then have "mantissa t \<le> maxSafeInteger" "round53 (mantissa t) \<noteq> mantissa t" using check [of t] by simp_all
    then show False using round53_exact [of "mantissa t"] by (simp add: maxSafeInteger_def)
  qed
  show "round53 (2 ^ 53 + 1) = round53 (2 ^ 53)" by code_simp
  have "Itoa 9007199254740992 = ''9007199254740992''" by code_simp
  then show "checkNumber ''9007199254740992'' \<noteq> None" using checkNumber_Itoa [of 9007199254740992] by simp
  show "checkNumber ''9007199254740992.0'' = None" "checkNumber ''9007199254740993.0'' = None" "checkNumber ''1e300'' = None"
    by (simp_all add: checkNumber_def out_of_range_def overflow_bound_def spelled)
qed (rule checkNumber_Itoa)

end
