(* ===== verification/Api.thy ===== *)
theory Api
  imports Http Canonical Downstream Latency
begin

text \<open>
  The write path of the API server (\<open>internal/api/api.go\<close>). A handler is a function of the request
  and of the state it shares with the rest of the process, \<open>world\<close>. What the handler does not decide
  is in the record \<open>env\<close>: it numbers the observations a request makes, and gives for each the clock,
  what other processes have committed to the database in the meantime, the faults of the database
  and of the object store, whether the client has gone, and how the call to the downstream ends.
  The loops that wait for another write end with the clock; they are partial functions, \<open>None\<close>
  standing for a request that is never answered.
\<close>

section \<open>The server and its surroundings\<close>

definition headerIdempotencyKey :: string where
  "headerIdempotencyKey = ''Idempotency-Key''"

definition pendingPollFloor :: duration where
  "pendingPollFloor = 20 * Millisecond"

record server =
  sv_cfg :: config
  sv_manifests :: store
  sv_results :: "result_store option"

text \<open>The instruments the handlers feed, with their labels and the amount observed.\<close>

datatype metric =
    MWrites string | MResponses string | MReplays | MClaimCollisions | MHashMismatches string
  | MOversizedResult | MDownstreamDuration string duration | MRequestDuration string duration
  | MReclaimAttempts int | MConflicts string string int | MLockTimeouts string
  | MSerializationWaits string | MLockWait string duration | MResultsOffloaded | MOffloadFallbacks
  | MResultFetchFailures

text \<open>
  \<open>wd_calls\<close> is the record of the calls handed to the transport, each with the database as the
  request last saw it, and \<open>wd_slept\<close> the time slept between attempts to record an outcome.
\<close>

record world =
  wd_seen :: nat
  wd_db :: db
  wd_bucket :: bucket
  wd_latency :: tracker
  wd_metrics :: "metric list"
  wd_calls :: "(call_request \<times> db) list"
  wd_slept :: duration

record env =
  en_pg :: pg
  en_now :: "nat \<Rightarrow> time"
  en_others :: "nat \<Rightarrow> db \<Rightarrow> db"
  en_faults :: "nat \<Rightarrow> faults"
  en_objects :: "nat \<Rightarrow> object_faults"
  en_done :: "nat \<Rightarrow> bool"
  en_exchange :: "nat \<Rightarrow> wire_call \<Rightarrow> exchange"
  en_build_error :: "string option"
  en_texts :: json_texts
  en_lower :: "bytes \<Rightarrow> bytes"
  en_transform :: "bytes \<Rightarrow> string + bytes"

definition tick :: "world \<Rightarrow> world" where
  "tick w = w\<lparr>wd_seen := Suc (wd_seen w)\<rparr>"

definition now_in :: "env \<Rightarrow> world \<Rightarrow> time" where
  "now_in env w = en_now env (wd_seen w)"

definition db_in :: "env \<Rightarrow> world \<Rightarrow> db" where
  "db_in env w = en_others env (wd_seen w) (wd_db w)"

definition feed :: "metric \<Rightarrow> world \<Rightarrow> world" where
  "feed m w = w\<lparr>wd_metrics := wd_metrics w @ [m]\<rparr>"

definition feed_if :: "bool \<Rightarrow> metric \<Rightarrow> world \<Rightarrow> world" where
  "feed_if b m w = (if b then feed m w else w)"

text \<open>The three operations of \<open>internal/claim\<close> on the database as it is when the request reaches it.\<close>

definition claim_in :: "env \<Rightarrow> request \<Rightarrow> world \<Rightarrow> (claim_error + claim_result) \<times> world" where
  "claim_in env req w =
     (case Claim (en_faults env (wd_seen w)) (en_pg env) (now_in env w) req (db_in env w) of
        (r, d) \<Rightarrow> (r, (tick w)\<lparr>wd_db := d\<rparr>))"

definition lookup_in :: "env \<Rightarrow> string \<Rightarrow> string \<Rightarrow> world \<Rightarrow> (claim_error + key_record option) \<times> world" where
  "lookup_in env agentID key w =
     (Lookup (en_faults env (wd_seen w)) (db_in env w) agentID key, (tick w)\<lparr>wd_db := db_in env w\<rparr>)"

definition complete_in ::
  "env \<Rightarrow> string \<Rightarrow> string \<Rightarrow> status \<Rightarrow> bytes \<Rightarrow> string \<Rightarrow> string \<Rightarrow> world \<Rightarrow> (claim_error + bool) \<times> world" where
  "complete_in env agentID key status result ref detail w =
     (case Complete (en_faults env (wd_seen w)) (en_pg env) (now_in env w) agentID key status result ref detail (db_in env w) of
        (r, d) \<Rightarrow> (r, (tick w)\<lparr>wd_db := d\<rparr>))"

section \<open>The request\<close>

record writeRequest =
  wq_AgentID :: string
  wq_ResourceType :: string
  wq_ResourceID :: string
  wq_Operation :: string
  wq_Payload :: bytes

definition zero_write :: writeRequest where
  "zero_write = \<lparr>wq_AgentID = [], wq_ResourceType = [], wq_ResourceID = [], wq_Operation = [], wq_Payload = []\<rparr>"

definition decode_write :: "writeRequest decoder" where
  "decode_write = decode_struct
     [(''agent_id'', \<lambda>raw v r. map_option (\<lambda>x. r\<lparr>wq_AgentID := x\<rparr>) (decode_string raw v (wq_AgentID r))),
      (''resource_type'', \<lambda>raw v r. map_option (\<lambda>x. r\<lparr>wq_ResourceType := x\<rparr>) (decode_string raw v (wq_ResourceType r))),
      (''resource_id'', \<lambda>raw v r. map_option (\<lambda>x. r\<lparr>wq_ResourceID := x\<rparr>) (decode_string raw v (wq_ResourceID r))),
      (''operation'', \<lambda>raw v r. map_option (\<lambda>x. r\<lparr>wq_Operation := x\<rparr>) (decode_string raw v (wq_Operation r))),
      (''payload'', \<lambda>raw v r. map_option (\<lambda>x. r\<lparr>wq_Payload := x\<rparr>) (decode_raw raw v (wq_Payload r)))]"

definition lookupOperation :: "snapshot \<Rightarrow> string \<Rightarrow> string \<Rightarrow> (mdefinition \<times> operation) option" where
  "lookupOperation snap resourceType opname =
     (case Snapshot_Lookup snap resourceType of
        None \<Rightarrow> None
      | Some def \<Rightarrow> (case map_of (def_Operations def) opname of None \<Rightarrow> None | Some decl \<Rightarrow> Some (def, decl)))"

definition claim_request :: "server \<Rightarrow> string \<Rightarrow> writeRequest \<Rightarrow> string \<Rightarrow> mdefinition \<Rightarrow> operation \<Rightarrow> request" where
  "claim_request s key req hash def decl =
     \<lparr>req_AgentID = wq_AgentID req, req_Key = key, req_RequestHash = hash,
      req_ResourceType = wq_ResourceType req, req_ResourceID = wq_ResourceID req,
      req_Operation = wq_Operation req, req_Declared = decl, req_Payload = wq_Payload req,
      req_Window = def_ConflictWindow def, req_Enforce = def_Enforce def,
      req_ManifestVersion = Version (Current (sv_manifests s)),
      req_LockTimeout = ConflictLockTimeout (sv_cfg s)\<rparr>"

section \<open>Waiting\<close>

partial_function (option) waitForTerminal :: "env \<Rightarrow> blocking \<Rightarrow> time \<Rightarrow> world \<Rightarrow> (bool \<times> world) option" where
  "waitForTerminal env blocking deadline w =
     (if now_in env w < deadline then
        (case lookup_in env (blk_AgentID blocking) (blk_Key blocking) (tick w) of
           (Inl err, w1) \<Rightarrow> Some (False, w1)
         | (Inr found, w1) \<Rightarrow>
             if found = None \<or> rec_Status (the found) \<noteq> StatusPending then Some (True, w1)
             else if en_done env (wd_seen w1) then Some (False, tick w1)
             else waitForTerminal env blocking deadline (tick w1))
      else Some (False, tick w))"

partial_function (option) claim_until :: "env \<Rightarrow> request \<Rightarrow> time \<Rightarrow> world
    \<Rightarrow> ((claim_error + claim_result) \<times> world) option" where
  "claim_until env req deadline w =
     (case claim_in env req w of
        (Inl err, w1) \<Rightarrow> Some (Inl err, w1)
      | (Inr result, w1) \<Rightarrow>
          if res_Verdict result \<noteq> VerdictSerialize then Some (Inr result, w1)
          else
            Option.bind (waitForTerminal env (res_Blocking result) deadline w1) (\<lambda>(finished, w2).
              if \<not> finished
              then Some (Inr (result\<lparr>res_Verdict := VerdictSerializeTimeout\<rparr>), feed (MSerializationWaits ''timeout'') w2)
              else claim_until env req deadline (feed (MSerializationWaits ''resolved'') w2)))"

definition claimWithSerialization ::
  "env \<Rightarrow> server \<Rightarrow> request \<Rightarrow> world \<Rightarrow> ((claim_error + claim_result) \<times> world) option" where
  "claimWithSerialization env s req w =
     claim_until env req (now_in env w + SerializeWait (sv_cfg s)) (tick w)"

partial_function (option) await_until :: "env \<Rightarrow> key_record \<Rightarrow> time \<Rightarrow> world \<Rightarrow> (key_record \<times> world) option" where
  "await_until env rcd deadline w =
     (if now_in env w < deadline then
        (if en_done env (Suc (wd_seen w)) then Some (rcd, tick (tick w))
         else case lookup_in env (rec_AgentID rcd) (rec_Key rcd) (tick (tick w)) of
           (Inl err, w1) \<Rightarrow> Some (rcd, w1)
         | (Inr None, w1) \<Rightarrow> Some (rcd, w1)
         | (Inr (Some current), w1) \<Rightarrow>
             if rec_Status current \<noteq> StatusPending then Some (current, w1)
             else await_until env rcd deadline w1)
      else Some (rcd, tick w))"

definition awaitCompletion :: "env \<Rightarrow> server \<Rightarrow> key_record \<Rightarrow> world \<Rightarrow> (key_record \<times> world) option" where
  "awaitCompletion env s rcd w =
     (if rec_Status rcd \<noteq> StatusPending \<or> ClaimPendingWait (sv_cfg s) \<le> 0 then Some (rcd, w)
      else await_until env rcd (now_in env w + ClaimPendingWait (sv_cfg s)) (tick w))"

section \<open>Executing\<close>

fun statusFor :: "disposition \<Rightarrow> status" where
  "statusFor Done = StatusDone"
| "statusFor Failed = StatusFailed"
| "statusFor Indeterminate = StatusIndeterminate"

definition ObserveResultSize :: "server \<Rightarrow> int \<Rightarrow> world \<Rightarrow> world" where
  "ObserveResultSize s n w = feed_if (ResultInlineBytes (sv_cfg s) < n) MOversizedResult w"

text \<open>The attempts that are left and the pause before the next one.\<close>

fun record_attempts ::
  "env \<Rightarrow> string \<Rightarrow> string \<Rightarrow> status \<Rightarrow> placement \<Rightarrow> string \<Rightarrow> nat \<Rightarrow> duration \<Rightarrow> world \<Rightarrow> bool \<times> world" where
  "record_attempts env agentID key status placement detail 0 backoff w = (False, w)"
| "record_attempts env agentID key status placement detail (Suc n) backoff w =
     (case complete_in env agentID key status (pl_Inline placement) (pl_Ref placement) detail w of
        (Inr updated, w1) \<Rightarrow> (updated, w1)
      | (Inl err, w1) \<Rightarrow>
          record_attempts env agentID key status placement detail n (wrap64 (backoff * 2))
            (if 0 < n then w1\<lparr>wd_slept := wd_slept w1 + max 0 backoff\<rparr> else w1))"

definition persistOutcome ::
  "env \<Rightarrow> server \<Rightarrow> string \<Rightarrow> string \<Rightarrow> status \<Rightarrow> call_outcome \<Rightarrow> world \<Rightarrow> bool \<times> world" where
  "persistOutcome env s agentID key status out w =
     (case Place Client_Put (sv_results s) (en_objects env (wd_seen w)) agentID key (co_Result out) (wd_bucket w) of
        (placement, b) \<Rightarrow>
          (let w1 = feed_if (pl_Offloaded placement) MResultsOffloaded
                      (feed_if (\<not> pl_Offloaded placement \<and> pl_FellBack placement) MOffloadFallbacks
                        ((tick w)\<lparr>wd_bucket := b\<rparr>))
           in record_attempts env agentID key status placement (co_Detail out)
                (nat (OutcomeWriteAttempts (sv_cfg s))) (50 * Millisecond) w1))"

definition downstream_request :: "string \<Rightarrow> writeRequest \<Rightarrow> mdefinition \<Rightarrow> call_request" where
  "downstream_request key req def =
     \<lparr>cr_AgentID = wq_AgentID req, cr_Key = key, cr_ResourceType = wq_ResourceType req,
      cr_ResourceID = wq_ResourceID req, cr_Operation = wq_Operation req, cr_Payload = wq_Payload req,
      cr_Classification = def_Errors def\<rparr>"

text \<open>Whether \<open>Execute\<close> gets as far as the transport.\<close>

definition sent :: "env \<Rightarrow> call_request \<Rightarrow> bool" where
  "sent env req \<longleftrightarrow> (cr_Payload req = [] \<or> Valid (cr_Payload req)) \<and> en_build_error env = None"

definition call_in :: "env \<Rightarrow> call_request \<Rightarrow> world \<Rightarrow> call_outcome \<times> world" where
  "call_in env req w =
     (Execute (jt_encode (en_texts env)) (en_build_error env) (en_exchange env (wd_seen w)) req,
      (tick w)\<lparr>wd_calls := wd_calls w @ (if sent env req then [(req, wd_db w)] else [])\<rparr>)"

definition outcome_body :: "string \<Rightarrow> call_outcome \<Rightarrow> string \<Rightarrow> response" where
  "outcome_body key out intentID =
     (case co_Disposition out of
        Done \<Rightarrow> writeJSON StatusCreated (JObject
          [(''idempotency_key'', JString key), (''status'', JString (status_text StatusDone)),
           (''result'', JRaw (co_Result out)), (''replayed'', JBool False), (''intent_id'', JString intentID)])
      | Failed \<Rightarrow> writeJSON StatusServiceUnavailable (JObject
          [(''idempotency_key'', JString key), (''status'', JString (status_text StatusFailed)),
           (''reason'', JString ''downstream_unreachable''), (''retryable'', JBool True)])
      | Indeterminate \<Rightarrow> writeJSON StatusBadGateway (JObject
          [(''idempotency_key'', JString key), (''status'', JString (status_text StatusIndeterminate)),
           (''reason'', JString ''downstream_timeout_after_send''), (''retryable'', JBool False),
           (''detail'', JString ''The write may or may not have been applied. Do not retry this key.'')]))"

definition execute ::
  "env \<Rightarrow> server \<Rightarrow> string \<Rightarrow> writeRequest \<Rightarrow> mdefinition \<Rightarrow> claim_result \<Rightarrow> world \<Rightarrow> response \<times> world" where
  "execute env s key req def claimed w =
     (let started = now_in env w;
          (out, w1) = call_in env (downstream_request key req def) (tick w);
          took = now_in env w1 - started;
          w2 = ObserveResultSize s (int (length (co_Result out)))
                 (feed (MDownstreamDuration (disposition_text (co_Disposition out)) took) (tick w1));
          w3 = (if co_Disposition out \<noteq> Failed
                then w2\<lparr>wd_latency := Observe (wq_ResourceType req) took (wd_latency w2)\<rparr> else w2);
          status = statusFor (co_Disposition out);
          (_, w4) = persistOutcome env s (wq_AgentID req) key status out (feed (MWrites (status_text status)) w3)
      in (outcome_body key out (res_IntentID claimed), w4))"

section \<open>Answering from the record\<close>

definition unavailable_body :: "string \<Rightarrow> key_record \<Rightarrow> json" where
  "unavailable_body key rcd = JObject
     [(''idempotency_key'', JString key), (''status'', JString (status_text (rec_Status rcd))),
      (''reason'', JString ''result_unavailable''), (''retryable'', JBool True),
      (''detail'', JString (''The write completed and its outcome is recorded, but the stored result '' @
        ''could not be read. Retrying the same key replays it and cannot re-execute.''))]"

text \<open>The result of the record, or the answer that it cannot be read.\<close>

definition resolveResult :: "env \<Rightarrow> server \<Rightarrow> string \<Rightarrow> key_record \<Rightarrow> world \<Rightarrow> (response + bytes) \<times> world" where
  "resolveResult env s key rcd w =
     (case Resolve Client_Get (sv_results s) (en_objects env (wd_seen w)) (rec_Result rcd) (rec_ResultRef rcd) (wd_bucket w) of
        Inl err \<Rightarrow> (Inl (writeJSON StatusInternalServerError (unavailable_body key rcd)), feed MResultFetchFailures (tick w))
      | Inr result \<Rightarrow> (Inr result, tick w))"

text \<open>\<open>Duration.Round\<close> to a second, of a positive duration, in seconds.\<close>

definition round_seconds :: "duration \<Rightarrow> int" where
  "round_seconds d = (let r = d mod Second in (if 2 * r < Second then d - r else d + Second - r) div Second)"

definition writeExisting ::
  "env \<Rightarrow> server \<Rightarrow> string \<Rightarrow> string \<Rightarrow> key_record \<Rightarrow> world \<Rightarrow> response \<times> world" where
  "writeExisting env s key resourceType rcd w =
     (case rec_Status rcd of
        StatusDone \<Rightarrow>
          (case resolveResult env s key rcd w of
             (Inl answer, w1) \<Rightarrow> (answer, w1)
           | (Inr result, w1) \<Rightarrow>
               (writeJSON StatusOK (JObject
                  [(''idempotency_key'', JString key), (''status'', JString (status_text (rec_Status rcd))),
                   (''result'', JRaw result), (''replayed'', JBool True)]), feed MReplays w1))
      | StatusPending \<Rightarrow>
          (let wait = RetryAfter resourceType (wd_latency w);
               answer = writeJSON StatusAccepted (JObject
                 [(''idempotency_key'', JString key), (''status'', JString (status_text (rec_Status rcd))),
                  (''retry_after_ms'', JInt (wait div Millisecond))])
           in (answer\<lparr>rp_Header := [(''Retry-After'', Itoa (max 1 (round_seconds wait))),
                                   (''Location'', ''/v1/writes/'' @ key)] @ rp_Header answer\<rparr>, w))
      | StatusRejected \<Rightarrow>
          (if length (rec_Result rcd) = 0
           then (writeProblem StatusConflict key ''conflicting_write'' (rec_OutcomeDetail rcd), w)
           else (writeRaw StatusConflict (rec_Result rcd), w))
      | StatusIndeterminate \<Rightarrow>
          (writeJSON StatusBadGateway (JObject
             [(''idempotency_key'', JString key), (''status'', JString (status_text (rec_Status rcd))),
              (''reason'', JString ''indeterminate_outcome''), (''retryable'', JBool False),
              (''detail'', JString ''The write may or may not have been applied. Do not retry this key.'')]), w)
      | StatusFailed \<Rightarrow>
          (writeJSON StatusServiceUnavailable (JObject
             [(''idempotency_key'', JString key), (''status'', JString (status_text (rec_Status rcd))),
              (''reason'', JString ''downstream_unreachable''), (''retryable'', JBool True)]), w))"

section \<open>The handlers\<close>

text \<open>The checks before the claim: an answer, or the request and what it is to claim.\<close>

definition admit :: "env \<Rightarrow> server \<Rightarrow> http_request \<Rightarrow> response + string \<times> writeRequest \<times> mdefinition \<times> request" where
  "admit env s r =
     (case readIdentity r of
        None \<Rightarrow> Inl (writeProblem StatusUnauthorized [] ''missing_identity'' [])
      | Some caller \<Rightarrow>
          if id_Role caller \<noteq> RoleAgent then Inl (writeProblem StatusForbidden [] ''role_insufficient'' [])
          else
            let key = to_lower (en_lower env) (hr_Header r headerIdempotencyKey) in
            if \<not> isUUID key
            then Inl (writeProblem StatusUnprocessableEntity key ''malformed_idempotency_key'' ''Idempotency-Key must be a UUID.'')
            else case decode_body (PayloadBytes (sv_cfg s)) decode_write zero_write (hr_Body r) (hr_BodyError r) of
              TooLarge \<Rightarrow> Inl (writeProblem StatusRequestEntityTooLarge key ''payload_too_large'' [])
            | Malformed \<Rightarrow> Inl (writeProblem StatusBadRequest key ''malformed_request'' (jt_syntax (en_texts env)))
            | Decoded req \<Rightarrow>
                if wq_AgentID req = [] \<or> wq_ResourceType req = [] \<or> wq_ResourceID req = [] \<or>
                   wq_Operation req = [] \<or> length (wq_Payload req) = 0
                then Inl (writeProblem StatusBadRequest key ''missing_field'' [])
                else if wq_AgentID req \<noteq> id_AgentID caller
                then Inl (writeProblem StatusForbidden key ''agent_id_mismatch'' [])
                else case lookupOperation (Current (sv_manifests s)) (wq_ResourceType req) (wq_Operation req) of
                  None \<Rightarrow> Inl (writeProblem StatusUnprocessableEntity key ''unknown_operation''
                    (''No manifest declares this operation for this resource_type. A write whose '' @
                     ''downstream responses cannot be classified is never admitted.''))
                | Some (def, decl) \<Rightarrow>
                    (case Hash (en_transform env) (en_texts env)
                       \<lparr>cq_AgentID = wq_AgentID req, cq_Operation = wq_Operation req, cq_Payload = wq_Payload req,
                        cq_ResourceID = wq_ResourceID req, cq_ResourceType = wq_ResourceType req\<rparr> of
                       Inl err \<Rightarrow> Inl (writeProblem StatusUnprocessableEntity key ''unhashable_request'' (hash_error_text err))
                     | Inr hash \<Rightarrow> Inr (key, req, def, claim_request s key req hash def decl)))"

definition count_claim :: "writeRequest \<Rightarrow> claim_result \<Rightarrow> world \<Rightarrow> world" where
  "count_claim req result w =
     feed_if (0 < res_Observed result)
       (MConflicts (wq_ResourceType req) (resolution_text ResolutionObserved) (res_Observed result))
       (feed (MLockWait (wq_ResourceType req) (res_LockWait result))
         (feed_if (res_Collided result) MClaimCollisions w))"

definition answer_claim ::
  "env \<Rightarrow> server \<Rightarrow> string \<Rightarrow> writeRequest \<Rightarrow> mdefinition \<Rightarrow> claim_result \<Rightarrow> world \<Rightarrow> (response \<times> world) option" where
  "answer_claim env s key req def result w =
     (case res_Verdict result of
        VerdictMismatch \<Rightarrow>
          Some (writeProblem StatusUnprocessableEntity key ''request_hash_mismatch''
                  ''This key was previously used with a different request body.'',
                feed (MHashMismatches (wq_ResourceType req)) w)
      | VerdictExisting \<Rightarrow>
          Option.bind (awaitCompletion env s (res_Record result) w)
            (\<lambda>(rcd, w1). Some (writeExisting env s key (wq_ResourceType req) rcd w1))
      | VerdictRejected \<Rightarrow>
          Some (writeRaw StatusConflict (rec_Result (res_Record result)),
                feed (MWrites (status_text StatusRejected))
                  (feed (MConflicts (wq_ResourceType req) (resolution_text ResolutionRejected) 1) w))
      | VerdictLockTimeout \<Rightarrow>
          Some (writeNotExecuted key ''resource_busy'', feed (MLockTimeouts (wq_ResourceType req)) w)
      | VerdictSerializeTimeout \<Rightarrow> Some (writeNotExecuted key ''serialization_wait_expired'', w)
      | _ \<Rightarrow>
          Some (execute env s key req def result
                 (feed_if (1 < rec_AttemptCount (res_Record result))
                   (MReclaimAttempts (rec_AttemptCount (res_Record result))) w)))"

definition handleWrite :: "env \<Rightarrow> server \<Rightarrow> http_request \<Rightarrow> world \<Rightarrow> (response \<times> world) option" where
  "handleWrite env s r w =
     (case admit env s r of
        Inl answer \<Rightarrow> Some (answer, w)
      | Inr (key, req, def, creq) \<Rightarrow>
          Option.bind (claimWithSerialization env s creq w) (\<lambda>(claimed, w1).
            case claimed of
              Inl err \<Rightarrow> Some (writeProblem StatusInternalServerError key ''claim_failed'' [], w1)
            | Inr result \<Rightarrow> answer_claim env s key req def result (count_claim req result w1)))"

definition handleRead :: "env \<Rightarrow> server \<Rightarrow> http_request \<Rightarrow> world \<Rightarrow> response \<times> world" where
  "handleRead env s r w =
     (case readIdentity r of
        None \<Rightarrow> (writeProblem StatusUnauthorized [] ''missing_identity'' [], w)
      | Some caller \<Rightarrow>
          (let key = to_lower (en_lower env) (hr_PathValue r ''key'') in
           if \<not> isUUID key then (writeProblem StatusUnprocessableEntity key ''malformed_idempotency_key'' [], w)
           else case lookup_in env (id_AgentID caller) key w of
             (Inl err, w1) \<Rightarrow> (writeProblem StatusInternalServerError key ''lookup_failed'' [], w1)
           | (Inr None, w1) \<Rightarrow> (writeProblem StatusNotFound key ''unknown_key'' [], w1)
           | (Inr (Some rcd), w1) \<Rightarrow>
               (case resolveResult env s key rcd w1 of
                  (Inl answer, w2) \<Rightarrow> (answer, w2)
                | (Inr result, w2) \<Rightarrow>
                    (writeJSON StatusOK (JObject
                       ([(''idempotency_key'', JString key), (''status'', JString (status_text (rec_Status rcd))),
                         (''attempt_count'', JInt (rec_AttemptCount rcd))] @
                        (if length result > 0 then [(''result'', JRaw result)] else []) @
                        (if rec_OutcomeDetail rcd \<noteq> [] then [(''detail'', JString (rec_OutcomeDetail rcd))] else []))), w2))))"

text \<open>The wrapper around every route but \<open>/metrics\<close>; \<open>pattern\<close> is the pattern that matched.\<close>

definition route :: "string \<Rightarrow> string" where
  "route pattern = (if pattern \<noteq> [] then pattern else ''unmatched'')"

definition countResponses ::
  "env \<Rightarrow> string \<Rightarrow> (http_request \<Rightarrow> world \<Rightarrow> (response \<times> world) option) \<Rightarrow> http_request \<Rightarrow> world \<Rightarrow> (response \<times> world) option" where
  "countResponses env pattern next r w =
     (if hr_Path r = ''/metrics'' then next r w
      else
        let started = now_in env w in
        Option.bind (next r (tick w)) (\<lambda>(answer, w1).
          Some (answer, feed (MRequestDuration (route pattern) (now_in env w1 - started))
                          (feed (MResponses (Itoa (rp_Status answer))) (tick w1)))))"

end
