(* ===== verification/System.thy ===== *)
theory System
  imports Reconcile Ledger Api
begin

text \<open>
  The parts together: requests that claim keys, call the downstream and record outcomes; calls on
  the wire that may outlive the request that sent them; and one reconciler. Every access to the
  database, the wire or the downstream is one step, so steps of different requests interleave
  freely, a request may vanish between any two of its steps, and any claim or completion may fail.
  What is at the other end of the wire is the interface \<open>system_of_record\<close>; it does not answer a call
  with a redirect the HTTP client would follow, so the answer to the POST is what \<open>Execute\<close> sees.

  A deployment bounds how long after its claim a request, or a call it sent, can still act
  (\<open>dp_life\<close>). The central theorem is that a write is executed at most once when that bound stays
  within the stale age of the reconciler and the commit of a completion is never lost from view.
\<close>

section \<open>State\<close>

text \<open>A request that has claimed its key: ready to call, waiting for the reply, or recording.\<close>

datatype phase = Ready | Waiting | Returned call_outcome

type_synonym ident = "nat \<times> string \<times> string"

record worker =
  wk_id :: ident
  wk_claimed :: time
  wk_call :: call_request
  wk_phase :: phase

record wired =
  wr_id :: ident
  wr_claimed :: time
  wr_call :: wire_call

datatype sweeping =
    Idle
  | Sweeping "stale list"
  | Probed "status \<times> bytes \<times> string" stale "stale list"

record 'd sys =
  s_now :: time
  s_db :: db
  s_ds :: 'd
  s_workers :: "worker set"
  s_wire :: "wired set"
  s_replies :: "(ident \<times> int \<times> bytes) set"
  s_recon :: sweeping
  s_next :: nat

text \<open>
  \<open>dp_keys\<close> are the pairs of agent and key in use and \<open>dp_unseen\<close> says whether the commit of a
  completion may take effect without the request learning of it.
\<close>

record ('d, 'e) deployment =
  dp_pg :: pg
  dp_deliver :: "'e \<Rightarrow> 'd \<Rightarrow> wire_call \<Rightarrow> (int \<times> bytes) \<times> 'd"
  dp_answer :: "'d \<Rightarrow> string \<Rightarrow> string \<Rightarrow> probe_exchange"
  dp_admitted :: "error_classification \<Rightarrow> bool"
  dp_manifests :: snapshot
  dp_rc :: reconciler
  dp_life :: duration
  dp_keys :: "(string \<times> string) set"
  dp_unseen :: bool

definition start :: "'d \<Rightarrow> time \<Rightarrow> 'd sys" where
  "start ds now = \<lparr>s_now = now, s_db = empty_db, s_ds = ds, s_workers = {}, s_wire = {}, s_replies = {},
     s_recon = Idle, s_next = 0\<rparr>"

definition active :: "('d, 'e) deployment \<Rightarrow> 'd sys \<Rightarrow> time \<Rightarrow> bool" where
  "active D s t \<longleftrightarrow> s_now s \<le> t + dp_life D"

definition encodable :: "call_request \<Rightarrow> bool" where
  "encodable req \<longleftrightarrow> cr_Payload req = [] \<or> Valid (cr_Payload req)"

definition call_of :: "request \<Rightarrow> error_classification \<Rightarrow> call_request" where
  "call_of req c = \<lparr>cr_AgentID = req_AgentID req, cr_Key = req_Key req, cr_ResourceType = req_ResourceType req,
     cr_ResourceID = req_ResourceID req, cr_Operation = req_Operation req, cr_Payload = req_Payload req,
     cr_Classification = c\<rparr>"

text \<open>A worker moves to another phase.\<close>

definition moved :: "worker \<Rightarrow> phase \<Rightarrow> worker set \<Rightarrow> worker set" where
  "moved w p ws = insert (w\<lparr>wk_phase := p\<rparr>) (ws - {w})"

section \<open>Steps\<close>

inductive step :: "('d, 'e) deployment \<Rightarrow> 'd sys \<Rightarrow> 'd sys \<Rightarrow> bool" for D where
  tick: "s_now s \<le> t \<Longrightarrow> step D s (s\<lparr>s_now := t\<rparr>)"
| claim_won: "(req_AgentID req, req_Key req) \<in> dp_keys D \<Longrightarrow> dp_admitted D c \<Longrightarrow>
    Claim f (dp_pg D) (s_now s) req (s_db s) = (Inr res, d') \<Longrightarrow> res_Verdict res = VerdictClaimed \<Longrightarrow>
    step D s (s\<lparr>s_db := d', s_next := Suc (s_next s),
      s_workers := insert \<lparr>wk_id = (s_next s, req_AgentID req, req_Key req), wk_claimed = s_now s,
                           wk_call = call_of req c, wk_phase = Ready\<rparr> (s_workers s)\<rparr>)"
| claim_other: "(req_AgentID req, req_Key req) \<in> dp_keys D \<Longrightarrow>
    Claim f (dp_pg D) (s_now s) req (s_db s) = (r, d') \<Longrightarrow>
    (\<forall>res. r = Inr res \<longrightarrow> res_Verdict res \<noteq> VerdictClaimed) \<Longrightarrow>
    step D s (s\<lparr>s_db := d'\<rparr>)"
| send: "w \<in> s_workers s \<Longrightarrow> wk_phase w = Ready \<Longrightarrow> active D s (wk_claimed w) \<Longrightarrow> encodable (wk_call w) \<Longrightarrow>
    step D s (s\<lparr>s_workers := moved w Waiting (s_workers s),
      s_wire := insert \<lparr>wr_id = wk_id w, wr_claimed = wk_claimed w, wr_call = wire (wk_call w)\<rparr> (s_wire s)\<rparr>)"
| unsent: "w \<in> s_workers s \<Longrightarrow> wk_phase w = Ready \<Longrightarrow> active D s (wk_claimed w) \<Longrightarrow>
    out = Execute ee be (\<lambda>_. TransportError (NotDialed e)) (wk_call w) \<Longrightarrow>
    step D s (s\<lparr>s_workers := moved w (Returned out) (s_workers s)\<rparr>)"
| deliver: "x \<in> s_wire s \<Longrightarrow> active D s (wr_claimed x) \<Longrightarrow>
    dp_deliver D e (s_ds s) (wr_call x) = ((st, body), ds') \<Longrightarrow>
    step D s (s\<lparr>s_ds := ds', s_wire := s_wire s - {x}, s_replies := insert (wr_id x, st, body) (s_replies s)\<rparr>)"
| lose: "step D s (s\<lparr>s_wire := s_wire s - {x}\<rparr>)"
| reply: "w \<in> s_workers s \<Longrightarrow> wk_phase w = Waiting \<Longrightarrow> encodable (wk_call w) \<Longrightarrow>
    (wk_id w, st, body) \<in> s_replies s \<Longrightarrow> out = Execute ee None (\<lambda>_. Response st body) (wk_call w) \<Longrightarrow>
    step D s (s\<lparr>s_workers := moved w (Returned out) (s_workers s)\<rparr>)"
| give_up: "w \<in> s_workers s \<Longrightarrow> wk_phase w = Waiting \<Longrightarrow> encodable (wk_call w) \<Longrightarrow>
    ex = TransportError (AfterDial e) \<or> ex = BodyError st e \<Longrightarrow> out = Execute ee None (\<lambda>_. ex) (wk_call w) \<Longrightarrow>
    step D s (s\<lparr>s_workers := moved w (Returned out) (s_workers s)\<rparr>)"
| recorded: "w \<in> s_workers s \<Longrightarrow> wk_phase w = Returned out \<Longrightarrow> active D s (wk_claimed w) \<Longrightarrow>
    Complete f (dp_pg D) (s_now s) (cr_AgentID (wk_call w)) (cr_Key (wk_call w)) (statusFor (co_Disposition out))
      inline ref (co_Detail out) (s_db s) = (Inr updated, d') \<Longrightarrow>
    step D s (s\<lparr>s_db := d', s_workers := s_workers s - {w}\<rparr>)"
| unrecorded: "w \<in> s_workers s \<Longrightarrow> wk_phase w = Returned out \<Longrightarrow> active D s (wk_claimed w) \<Longrightarrow>
    Complete f (dp_pg D) (s_now s) (cr_AgentID (wk_call w)) (cr_Key (wk_call w)) (statusFor (co_Disposition out))
      inline ref (co_Detail out) (s_db s) = (Inl err, d') \<Longrightarrow>
    (f_commit f = CommitUnseen \<longrightarrow> dp_unseen D) \<Longrightarrow>
    step D s (s\<lparr>s_db := d'\<rparr>)"
| vanish: "step D s (s\<lparr>s_workers := s_workers s - {w}\<rparr>)"
| sweep: "s_recon s = Idle \<Longrightarrow>
    step D s (s\<lparr>s_recon := Sweeping (staleKeys (dp_rc D) (s_now s) (s_db s))\<rparr>)"
| probe_skip: "s_recon s = Sweeping (c # cs) \<Longrightarrow>
    decision (dp_manifests D) (Probe (dp_answer D (s_ds s))) c = None \<Longrightarrow>
    step D s (s\<lparr>s_recon := Sweeping cs\<rparr>)"
| probe_done: "s_recon s = Sweeping (c # cs) \<Longrightarrow>
    decision (dp_manifests D) (Probe (dp_answer D (s_ds s))) c = Some dec \<Longrightarrow>
    step D s (s\<lparr>s_recon := Probed dec c cs\<rparr>)"
| settle: "s_recon s = Probed (st, result, detail) c cs \<Longrightarrow>
    Complete f (dp_pg D) (s_now s) (st_agentID c) (st_key c) st inline ref detail (s_db s) = (r, d') \<Longrightarrow>
    step D s (s\<lparr>s_db := d', s_recon := Sweeping cs\<rparr>)"
| sweep_ends: "step D s (s\<lparr>s_recon := Idle\<rparr>)"

section \<open>What the invariant says of one key\<close>

text \<open>Where a worker stands, given the executions of its key and the live calls on the wire for it.\<close>

definition phase_ok :: "nat \<Rightarrow> wired set \<Rightarrow> (ident \<times> int \<times> bytes) set \<Rightarrow> worker \<Rightarrow> bool" where
  "phase_ok n W replies w =
     (case wk_phase w of
        Ready \<Rightarrow> n = 0 \<and> W = {} \<and> (\<forall>st b. (wk_id w, st, b) \<notin> replies)
      | Waiting \<Rightarrow> (\<forall>st b. (wk_id w, st, b) \<in> replies \<longrightarrow>
          W = {} \<and> (IsNotExecuted (cr_Classification (wk_call w)) st \<longrightarrow> n = 0))
      | Returned out \<Rightarrow> co_Disposition out = Failed \<longrightarrow> n = 0 \<and> W = {})"

definition lone :: "'a set \<Rightarrow> bool" where
  "lone A \<longleftrightarrow> (\<forall>x \<in> A. A = {x})"

lemma lone_simps [simp]: "lone {}" "lone {x}"
  by (simp_all add: lone_def)

lemma lone_subset: "lone A \<Longrightarrow> B \<subseteq> A \<Longrightarrow> lone B"
  by (auto simp: lone_def)

text \<open>
  \<open>n\<close> executions, the live workers \<open>V\<close> and the live calls \<open>W\<close> of a key with this row: the right
  to execute exists once at most, and not at all once the key is free to be claimed again.
\<close>

definition key_ok ::
  "key_row option \<Rightarrow> nat \<Rightarrow> worker set \<Rightarrow> wired set \<Rightarrow> (ident \<times> int \<times> bytes) set \<Rightarrow> bool" where
  "key_ok row n V W replies \<longleftrightarrow>
     n \<le> 1 \<and> (W \<noteq> {} \<longrightarrow> n = 0) \<and> lone W \<and> lone V \<and>
     (V \<noteq> {} \<longrightarrow> row_status row = Some StatusPending) \<and>
     (row_status row \<in> {None, Some StatusFailed, Some StatusRejected} \<longrightarrow> n = 0 \<and> W = {}) \<and>
     (\<forall>r. row = Some r \<and> k_status r = StatusPending \<longrightarrow>
        (\<forall>w \<in> V. wk_claimed w = k_claimed_at r) \<and> (\<forall>x \<in> W. wr_claimed x = k_claimed_at r)) \<and>
     (\<forall>w \<in> V. \<forall>x \<in> W. wr_id x = wk_id w) \<and>
     (\<forall>w \<in> V. phase_ok n W replies w)"

lemma phase_ok_mono:
  "phase_ok n W replies w \<Longrightarrow> W' \<subseteq> W \<Longrightarrow> (\<And>st b. (wk_id w, st, b) \<in> replies' \<longleftrightarrow> (wk_id w, st, b) \<in> replies) \<Longrightarrow>
   phase_ok n W' replies' w"
  by (auto simp: phase_ok_def split: phase.splits)

lemma key_ok_mono:
  assumes "key_ok row n V W replies" "V' \<subseteq> V" "W' \<subseteq> W"
    and "\<And>w st b. w \<in> V' \<Longrightarrow> (wk_id w, st, b) \<in> replies' \<longleftrightarrow> (wk_id w, st, b) \<in> replies"
  shows "key_ok row n V' W' replies'"
proof -
  have "phase_ok n W' replies' w" if "w \<in> V'" for w
  proof (rule phase_ok_mono [OF _ assms(3)])
    show "phase_ok n W replies w" using assms(1,2) that by (auto simp: key_ok_def)
    show "(wk_id w, st, b) \<in> replies' \<longleftrightarrow> (wk_id w, st, b) \<in> replies" for st b using assms(4) that .
  qed
  moreover have "V' \<noteq> {} \<Longrightarrow> V \<noteq> {}" "W' \<noteq> {} \<Longrightarrow> W \<noteq> {}" "W = {} \<Longrightarrow> W' = {}" using assms(2,3) by auto
  moreover have "lone W \<Longrightarrow> lone W'" "lone V \<Longrightarrow> lone V'" using lone_subset assms(2,3) by blast+
  ultimately show ?thesis using assms(1) subsetD [OF assms(2)] subsetD [OF assms(3)]
    unfolding key_ok_def by (elim conjE, intro conjI) simp_all
qed

section \<open>The invariant\<close>

definition workers_of :: "('d, 'e) deployment \<Rightarrow> 'd sys \<Rightarrow> string \<Rightarrow> string \<Rightarrow> worker set" where
  "workers_of D s a k = {w \<in> s_workers s. snd (wk_id w) = (a, k) \<and> active D s (wk_claimed w)}"

definition wires_of :: "('d, 'e) deployment \<Rightarrow> 'd sys \<Rightarrow> string \<Rightarrow> string \<Rightarrow> wired set" where
  "wires_of D s a k = {x \<in> s_wire s. snd (wr_id x) = (a, k) \<and> active D s (wr_claimed x)}"

text \<open>Workers, calls and replies carry the identity of the claim they come from.\<close>

definition worker_linked :: "('d, 'e) deployment \<Rightarrow> nat \<Rightarrow> worker \<Rightarrow> bool" where
  "worker_linked D next w \<longleftrightarrow> snd (wk_id w) = (cr_AgentID (wk_call w), cr_Key (wk_call w)) \<and>
     snd (wk_id w) \<in> dp_keys D \<and> dp_admitted D (cr_Classification (wk_call w)) \<and> fst (wk_id w) < next"

definition wire_linked :: "('d, 'e) deployment \<Rightarrow> nat \<Rightarrow> wired \<Rightarrow> bool" where
  "wire_linked D next x \<longleftrightarrow> snd (wr_id x) \<in> dp_keys D \<and> fst (wr_id x) < next \<and>
     wc_correlation (wr_call x) = ID (fst (snd (wr_id x))) (snd (snd (wr_id x)))"

definition linked :: "('d, 'e) deployment \<Rightarrow> 'd sys \<Rightarrow> bool" where
  "linked D s \<longleftrightarrow> (\<forall>w \<in> s_workers s. worker_linked D (s_next s) w) \<and> (\<forall>x \<in> s_wire s. wire_linked D (s_next s) x) \<and>
     (\<forall>i st b. (i, st, b) \<in> s_replies s \<longrightarrow> fst i < s_next s)"

text \<open>The candidates of a running sweep stay pending and stale until the sweep settles them.\<close>

fun queued :: "sweeping \<Rightarrow> stale list" where
  "queued Idle = []"
| "queued (Sweeping cs) = cs"
| "queued (Probed dec c cs) = c # cs"

definition stale_key :: "stale \<Rightarrow> string \<times> string" where
  "stale_key c = (st_agentID c, st_key c)"

definition abandoned :: "duration \<Rightarrow> time \<Rightarrow> key_row option \<Rightarrow> bool" where
  "abandoned staleAfter now row \<longleftrightarrow> (\<exists>r. row = Some r \<and> is_stale staleAfter now r)"

definition recon_ok :: "('d, 'e) deployment \<Rightarrow> ('d \<Rightarrow> string \<Rightarrow> nat) \<Rightarrow> 'd sys \<Rightarrow> bool" where
  "recon_ok D ex s \<longleftrightarrow>
     distinct (map stale_key (queued (s_recon s))) \<and>
     (\<forall>c \<in> set (queued (s_recon s)).
        abandoned (rc_staleAfter (dp_rc D)) (s_now s) (key_row_of (s_db s) (st_agentID c) (st_key c))) \<and>
     (\<forall>st result detail c cs. s_recon s = Probed (st, result, detail) c cs \<longrightarrow>
        recordable st \<and> (st = StatusFailed \<and> stale_key c \<in> dp_keys D \<longrightarrow> ex (s_ds s) (ID (st_agentID c) (st_key c)) = 0))"

definition keys_ok :: "('d, 'e) deployment \<Rightarrow> ('d \<Rightarrow> string \<Rightarrow> nat) \<Rightarrow> 'd sys \<Rightarrow> bool" where
  "keys_ok D ex s \<longleftrightarrow> (\<forall>a k. (a, k) \<in> dp_keys D \<longrightarrow>
     key_ok (key_row_of (s_db s) a k) (ex (s_ds s) (ID a k)) (workers_of D s a k) (wires_of D s a k) (s_replies s))"

lemma keys_okD: "keys_ok D ex s \<Longrightarrow> (a, k) \<in> dp_keys D \<Longrightarrow>
  key_ok (key_row_of (s_db s) a k) (ex (s_ds s) (ID a k)) (workers_of D s a k) (wires_of D s a k) (s_replies s)"
  by (simp add: keys_ok_def)

section \<open>What claims and completions do to rows\<close>

lemma Complete_failed_unchanged:
  assumes "Complete f pgs now a k st result ref detail d = (Inl err, d')" "f_commit f \<noteq> CommitUnseen"
  shows "d' = d"
  using assms by (auto simp: Complete_def Let_def split: if_splits commit_outcome.splits)

lemma statusFor_simps [simp]:
  "recordable (statusFor x)" "statusFor x \<noteq> StatusPending" "statusFor x \<noteq> StatusRejected"
  "statusFor x = StatusFailed \<longleftrightarrow> x = Failed"
proof -
  have "recordable (statusFor x) \<and> statusFor x \<noteq> StatusPending \<and> statusFor x \<noteq> StatusRejected \<and>
      (statusFor x = StatusFailed \<longleftrightarrow> x = Failed)"
    by (cases x) (simp_all add: recordable_def)
  then show "recordable (statusFor x)" "statusFor x \<noteq> StatusPending" "statusFor x \<noteq> StatusRejected"
    "statusFor x = StatusFailed \<longleftrightarrow> x = Failed" by blast+
qed

section \<open>Keys without a live worker or call\<close>

lemma key_ok_free:
  assumes "key_ok row n V W replies" "row_status row \<in> {None, Some StatusFailed, Some StatusRejected}"
  shows "n = 0 \<and> V = {} \<and> W = {}"
  using assms unfolding key_ok_def by (elim conjE) auto

lemma key_ok_empty:
  "n \<le> 1 \<Longrightarrow> (row_status row \<in> {None, Some StatusFailed, Some StatusRejected} \<Longrightarrow> n = 0) \<Longrightarrow>
   key_ok row n {} {} replies"
  by (simp add: key_ok_def)

lemma key_ok_settled:
  assumes "key_ok row n V W replies" "row_status row' = Some st" "recordable st" "st = StatusFailed \<Longrightarrow> n = 0 \<and> W = {}"
  shows "key_ok row' n {} W replies"
  using assms unfolding key_ok_def by (elim conjE) (auto simp: recordable_def row_status_def)

lemma key_ok_one:
  "key_ok row n {w} W replies \<longleftrightarrow>
     n \<le> 1 \<and> (W \<noteq> {} \<longrightarrow> n = 0) \<and> lone W \<and>
     (\<exists>r. row = Some r \<and> k_status r = StatusPending \<and> wk_claimed w = k_claimed_at r \<and>
        (\<forall>x \<in> W. wr_claimed x = k_claimed_at r)) \<and>
     (\<forall>x \<in> W. wr_id x = wk_id w) \<and> phase_ok n W replies w"
  by (auto simp: key_ok_def row_status_def)

lemma key_ok_unique: "key_ok row n V W replies \<Longrightarrow> w \<in> V \<Longrightarrow> V = {w}"
  by (simp add: key_ok_def lone_def)

text \<open>A stale key has neither: what could act on it has expired.\<close>

lemma abandoned_quiet:
  assumes "abandoned staleAfter (s_now s) (key_row_of (s_db s) a k)" "dp_life D \<le> staleAfter"
    and "key_ok (key_row_of (s_db s) a k) n (workers_of D s a k) (wires_of D s a k) replies"
  shows "workers_of D s a k = {} \<and> wires_of D s a k = {}"
proof -
  obtain r where r: "key_row_of (s_db s) a k = Some r" "k_status r = StatusPending" "k_claimed_at r + dp_life D < s_now s"
    using assms(1,2) by (auto simp: abandoned_def is_stale_def)
  then have "\<forall>w \<in> workers_of D s a k. wk_claimed w = k_claimed_at r" "\<forall>x \<in> wires_of D s a k. wr_claimed x = k_claimed_at r"
    using assms(3) by (auto simp: key_ok_def)
  with r(3) show ?thesis by (auto simp: workers_of_def wires_of_def active_def)
qed

section \<open>The invariant is kept\<close>

lemma workers_of_moved:
  assumes "w \<in> s_workers s" "s_workers s' = moved w p (s_workers s)" "s_now s' = s_now s"
  shows "workers_of D s' a k =
    (if w \<in> workers_of D s a k then insert (w\<lparr>wk_phase := p\<rparr>) (workers_of D s a k - {w}) else workers_of D s a k)"
  using assms by (auto simp: workers_of_def moved_def active_def)

lemma keys_ok_moved:
  assumes "keys_ok D ex s" "w \<in> s_workers s"
    and "s' = s\<lparr>s_workers := moved w p (s_workers s)\<rparr>"
    and "\<And>a k. w \<in> workers_of D s a k \<Longrightarrow> phase_ok (ex (s_ds s) (ID a k)) (wires_of D s a k) (s_replies s) w \<Longrightarrow>
      phase_ok (ex (s_ds s) (ID a k)) (wires_of D s a k) (s_replies s) (w\<lparr>wk_phase := p\<rparr>)"
  shows "keys_ok D ex s'"
  unfolding keys_ok_def
proof (intro allI impI)
  fix a k assume k: "(a, k) \<in> dp_keys D"
  note ok = keys_okD [OF assms(1) k]
  have W: "wires_of D s' a k = wires_of D s a k" by (simp add: assms(3) wires_of_def active_def)
  have V: "workers_of D s' a k =
      (if w \<in> workers_of D s a k then insert (w\<lparr>wk_phase := p\<rparr>) (workers_of D s a k - {w}) else workers_of D s a k)"
    by (rule workers_of_moved [OF assms(2)]) (simp_all add: assms(3))
  show "key_ok (key_row_of (s_db s') a k) (ex (s_ds s') (ID a k)) (workers_of D s' a k) (wires_of D s' a k) (s_replies s')"
  proof (cases "w \<in> workers_of D s a k")
    case True
    then have "workers_of D s a k = {w}" using ok key_ok_unique by blast
    moreover from this have "workers_of D s' a k = {w\<lparr>wk_phase := p\<rparr>}" using V by simp
    ultimately show ?thesis using ok assms(4) [OF True] unfolding W by (simp add: key_ok_one assms(3))
  next
    case False
    then show ?thesis using ok V unfolding W by (simp add: assms(3))
  qed
qed

text \<open>Steps that only take live workers and calls away.\<close>

lemma keys_ok_fewer:
  assumes "keys_ok D ex s" "s_db s' = s_db s" "s_ds s' = s_ds s" "s_replies s' = s_replies s"
    and "s_workers s' \<subseteq> s_workers s" "s_wire s' \<subseteq> s_wire s" "s_now s \<le> s_now s'"
  shows "keys_ok D ex s'"
  unfolding keys_ok_def
proof (intro allI impI)
  fix a k assume k: "(a, k) \<in> dp_keys D"
  show "key_ok (key_row_of (s_db s') a k) (ex (s_ds s') (ID a k)) (workers_of D s' a k) (wires_of D s' a k) (s_replies s')"
    using assms(2-7) by (intro key_ok_mono [OF keys_okD [OF assms(1) k, unfolded assms(2,3) [symmetric]]])
      (auto simp: workers_of_def wires_of_def active_def)
qed

lemma keys_ok_claim_won:
  assumes "keys_ok D ex s" "linked D s" "db_inv (dp_pg D) (s_db s)" "0 \<le> dp_life D"
    and c: "Claim f (dp_pg D) (s_now s) req (s_db s) = (Inr res, d')" "res_Verdict res = VerdictClaimed"
    and own: "(req_AgentID req, req_Key req) \<in> dp_keys D"
    and w: "w = \<lparr>wk_id = (s_next s, req_AgentID req, req_Key req), wk_claimed = s_now s, wk_call = call, wk_phase = Ready\<rparr>"
    and s': "s' = s\<lparr>s_db := d', s_next := Suc (s_next s), s_workers := insert w (s_workers s)\<rparr>"
  shows "keys_ok D ex s'"
  unfolding keys_ok_def
proof (intro allI impI)
  fix a k assume k: "(a, k) \<in> dp_keys D"
  note ok = keys_okD [OF assms(1) k]
  have W: "wires_of D s' a k = wires_of D s a k" by (simp add: s' wires_of_def active_def)
  have V: "workers_of D s' a k = (if (a, k) = (req_AgentID req, req_Key req) then insert w (workers_of D s a k) else workers_of D s a k)"
    using assms(4) by (auto simp: s' workers_of_def active_def w)
  from Claim_rows [OF c(1) assms(3)] c(2) obtain row where
    free: "row_status (key_row_of (s_db s) (req_AgentID req) (req_Key req)) \<in> {None, Some StatusFailed}" and
    others: "\<And>a k. (a, k) \<noteq> (req_AgentID req, req_Key req) \<Longrightarrow> key_row_of d' a k = key_row_of (s_db s) a k" and
    row: "key_row_of d' (req_AgentID req) (req_Key req) = Some row" "k_status row = StatusPending" "k_claimed_at row = s_now s"
    by auto
  show "key_ok (key_row_of (s_db s') a k) (ex (s_ds s') (ID a k)) (workers_of D s' a k) (wires_of D s' a k) (s_replies s')"
  proof (cases "(a, k) = (req_AgentID req, req_Key req)")
    case True
    then have "ex (s_ds s) (ID a k) = 0" "workers_of D s a k = {}" "wires_of D s a k = {}"
      using key_ok_free [OF ok] free by auto
    moreover have "(wk_id w, st, b) \<notin> s_replies s" for st b
      using assms(2) by (force simp: linked_def w)
    ultimately show ?thesis using True row W V
      by (simp add: key_ok_one phase_ok_def s') (simp add: w)
  next
    case False
    then have "workers_of D s' a k = workers_of D s a k" using V by auto
    then show ?thesis using ok others [OF False] W by (simp add: s')
  qed
qed

lemma keys_ok_claim_other:
  assumes "keys_ok D ex s" "db_inv (dp_pg D) (s_db s)"
    and c: "Claim f (dp_pg D) (s_now s) req (s_db s) = (r, d')"
    and s': "s' = s\<lparr>s_db := d'\<rparr>"
  shows "keys_ok D ex s'"
  unfolding keys_ok_def
proof (intro allI impI)
  fix a k assume k: "(a, k) \<in> dp_keys D"
  note ok = keys_okD [OF assms(1) k]
  have V: "workers_of D s' a k = workers_of D s a k" "wires_of D s' a k = wires_of D s a k"
    by (simp_all add: s' wires_of_def workers_of_def active_def)
  show "key_ok (key_row_of (s_db s') a k) (ex (s_ds s') (ID a k)) (workers_of D s' a k) (wires_of D s' a k) (s_replies s')"
  proof (cases "key_row_of d' a k = key_row_of (s_db s) a k")
    case True
    then show ?thesis using ok V by (simp add: s')
  next
    case False
    then have changed: "d' \<noteq> s_db s" by auto
    with Claim_rows [OF c assms(2)] False have "(a, k) = (req_AgentID req, req_Key req)" by metis
    moreover have "row_status (key_row_of (s_db s) (req_AgentID req) (req_Key req)) \<in> {None, Some StatusFailed}"
      using Claim_rows [OF c assms(2)] changed by (elim disjE conjE) simp_all
    ultimately have "row_status (key_row_of (s_db s) a k) \<in> {None, Some StatusFailed}" by simp
    with key_ok_free [OF ok] have "ex (s_ds s) (ID a k) = 0 \<and> workers_of D s a k = {} \<and> wires_of D s a k = {}" by auto
    then show ?thesis using V by (simp add: s' key_ok_empty)
  qed
qed

lemma keys_ok_send:
  assumes "keys_ok D ex s" "linked D s" "w \<in> s_workers s" "wk_phase w = Ready" "active D s (wk_claimed w)"
    and x: "x = \<lparr>wr_id = wk_id w, wr_claimed = wk_claimed w, wr_call = call\<rparr>"
    and s': "s' = s\<lparr>s_workers := moved w Waiting (s_workers s), s_wire := insert x (s_wire s)\<rparr>"
  shows "keys_ok D ex s'"
  unfolding keys_ok_def
proof (intro allI impI)
  fix a k assume k: "(a, k) \<in> dp_keys D"
  note ok = keys_okD [OF assms(1) k]
  have V: "workers_of D s' a k = (if w \<in> workers_of D s a k
      then insert (w\<lparr>wk_phase := Waiting\<rparr>) (workers_of D s a k - {w}) else workers_of D s a k)"
    by (rule workers_of_moved [OF assms(3)]) (simp_all add: s')
  have W: "wires_of D s' a k = (if w \<in> workers_of D s a k then insert x (wires_of D s a k) else wires_of D s a k)"
    using assms(3,5) by (auto simp: s' wires_of_def workers_of_def active_def x)
  show "key_ok (key_row_of (s_db s') a k) (ex (s_ds s') (ID a k)) (workers_of D s' a k) (wires_of D s' a k) (s_replies s')"
  proof (cases "w \<in> workers_of D s a k")
    case True
    then have one: "workers_of D s a k = {w}" using ok key_ok_unique by blast
    have "ex (s_ds s) (ID a k) = 0" "wires_of D s a k = {}" "\<forall>st b. (wk_id w, st, b) \<notin> s_replies s"
      "\<exists>r. key_row_of (s_db s) a k = Some r \<and> k_status r = StatusPending \<and> wk_claimed w = k_claimed_at r"
      using ok assms(4) unfolding one key_ok_one by (auto simp: phase_ok_def)
    then show ?thesis using True V W one by (simp add: key_ok_one phase_ok_def s') (simp add: x)
  next
    case False
    then show ?thesis using ok V W by (simp add: s')
  qed
qed

text \<open>A completion by the last one who could act on the key.\<close>

lemma keys_ok_completed:
  assumes "keys_ok D ex s" "db_inv (dp_pg D) (s_db s)" "recordable st"
    and c: "Complete f (dp_pg D) (s_now s) a0 k0 st inline ref detail (s_db s) = (r, d')"
    and last: "\<And>w. (a0, k0) \<in> dp_keys D \<Longrightarrow> status_of (s_db s) a0 k0 = Some StatusPending \<Longrightarrow> w \<in> workers_of D s a0 k0 \<Longrightarrow> w \<notin> s_workers s'"
    and failed: "(a0, k0) \<in> dp_keys D \<Longrightarrow> status_of (s_db s) a0 k0 = Some StatusPending \<Longrightarrow> st = StatusFailed \<Longrightarrow>
      ex (s_ds s) (ID a0 k0) = 0 \<and> wires_of D s a0 k0 = {}"
    and s': "s_db s' = d'" "s_ds s' = s_ds s" "s_wire s' = s_wire s" "s_replies s' = s_replies s" "s_now s' = s_now s"
      "s_workers s' \<subseteq> s_workers s"
  shows "keys_ok D ex s'"
  unfolding keys_ok_def
proof (intro allI impI)
  fix a k assume k: "(a, k) \<in> dp_keys D"
  note ok = keys_okD [OF assms(1) k]
  have W: "wires_of D s' a k = wires_of D s a k" and V: "workers_of D s' a k \<subseteq> workers_of D s a k"
    using s' by (auto simp: wires_of_def workers_of_def active_def)
  show "key_ok (key_row_of (s_db s') a k) (ex (s_ds s') (ID a k)) (workers_of D s' a k) (wires_of D s' a k) (s_replies s')"
  proof (cases "d' = s_db s \<or> (a, k) \<noteq> (a0, k0)")
    case True
    then have "key_row_of d' a k = key_row_of (s_db s) a k" using Complete_rows [OF c assms(2)] by blast
    then show ?thesis using key_ok_mono [OF ok V subset_refl] by (simp add: s' W)
  next
    case False
    then have st: "status_of (s_db s) a k = Some StatusPending" "row_status (key_row_of d' a k) = Some st"
      and ak: "a = a0" "k = k0"
      using Complete_rows [OF c assms(2)] by (auto simp: status_of_def row_status_def)
    have "workers_of D s' a k = {}" using last k st(1) V by (auto simp: ak workers_of_def)
    moreover have "key_ok (key_row_of d' a k) (ex (s_ds s) (ID a k)) {} (wires_of D s a k) (s_replies s)"
      using ok st(2) assms(3) by (rule key_ok_settled) (use failed k st(1) in \<open>auto simp: ak\<close>)
    ultimately show ?thesis by (simp add: s' W)
  qed
qed

lemma step_linked:
  assumes "step D s s'" "linked D s"
  shows "linked D s'"
  using assms
proof cases
  case (deliver x e st body ds')
  then show ?thesis using assms(2) by (auto simp: linked_def wire_linked_def)
qed (auto simp: linked_def worker_linked_def wire_linked_def call_of_def wire_def moved_def less_Suc_eq)

lemma step_db_inv:
  assumes "step D s s'" "db_inv (dp_pg D) (s_db s)" "recon_ok D ex s"
  shows "db_inv (dp_pg D) (s_db s')"
  using assms(1)
proof cases
  case claim_won
  then show ?thesis using store_step_inv [OF assms(2) store_step.claim] by simp
next
  case claim_other
  then show ?thesis using store_step_inv [OF assms(2) store_step.claim] by simp
next
  case recorded
  then show ?thesis using store_step_inv [OF assms(2) store_step.complete] by simp
next
  case unrecorded
  then show ?thesis using store_step_inv [OF assms(2) store_step.complete] by simp
next
  case (settle st result detail c cs f inline ref r d')
  then have "recordable st" using assms(3) by (simp add: recon_ok_def)
  with settle show ?thesis using store_step_inv [OF assms(2) store_step.complete] by simp
qed (use assms(2) in simp_all)

text \<open>The queue of a sweep is untouched by whoever acts on other keys, or only adds rows.\<close>

lemma recon_ok_rows:
  assumes "recon_ok D ex s" "s_recon s' = s_recon s" "s_now s \<le> s_now s'"
    and "\<And>c. c \<in> set (queued (s_recon s)) \<Longrightarrow>
      key_row_of (s_db s') (st_agentID c) (st_key c) = key_row_of (s_db s) (st_agentID c) (st_key c)"
    and "\<And>c cs dec. s_recon s = Probed dec c cs \<Longrightarrow> stale_key c \<in> dp_keys D \<Longrightarrow> ex (s_ds s') (ID (st_agentID c) (st_key c)) = ex (s_ds s) (ID (st_agentID c) (st_key c))"
  shows "recon_ok D ex s'"
  using assms by (fastforce simp: recon_ok_def abandoned_def is_stale_def)

lemma recon_ok_same:
  "recon_ok D ex s \<Longrightarrow> s_recon s' = s_recon s \<Longrightarrow> s_now s \<le> s_now s' \<Longrightarrow> s_db s' = s_db s \<Longrightarrow> s_ds s' = s_ds s \<Longrightarrow>
   recon_ok D ex s'"
  by (rule recon_ok_rows) simp_all

lemma recon_ok_claim:
  assumes "recon_ok D ex s" "db_inv (dp_pg D) (s_db s)"
    and "Claim f (dp_pg D) (s_now s) req (s_db s) = (r, s_db s')"
    and "s_recon s' = s_recon s" "s_now s' = s_now s" "s_ds s' = s_ds s"
  shows "recon_ok D ex s'"
proof (rule recon_ok_rows [OF assms(1,4)])
  fix c assume c: "c \<in> set (queued (s_recon s))"
  then have "row_status (key_row_of (s_db s) (st_agentID c) (st_key c)) = Some StatusPending"
    using assms(1) by (auto simp: recon_ok_def abandoned_def is_stale_def row_status_def)
  then show "key_row_of (s_db s') (st_agentID c) (st_key c) = key_row_of (s_db s) (st_agentID c) (st_key c)"
    using Claim_rows [OF assms(3,2)]
    by (cases "(st_agentID c, st_key c) = (req_AgentID req, req_Key req)") auto
qed (simp_all add: assms)

lemma recon_ok_worker:
  assumes "recon_ok D ex s" "db_inv (dp_pg D) (s_db s)" "keys_ok D ex s" "linked D s"
    and w: "w \<in> s_workers s" "active D s (wk_claimed w)" and life: "dp_life D \<le> rc_staleAfter (dp_rc D)"
    and c: "Complete f (dp_pg D) (s_now s) (cr_AgentID (wk_call w)) (cr_Key (wk_call w)) st inline ref detail (s_db s) = (r, s_db s')"
    and "s_recon s' = s_recon s" "s_now s' = s_now s" "s_ds s' = s_ds s"
  shows "recon_ok D ex s'"
proof (rule recon_ok_rows [OF assms(1) assms(9)])
  fix q assume q: "q \<in> set (queued (s_recon s))"
  let ?a = "cr_AgentID (wk_call w)" and ?k = "cr_Key (wk_call w)"
  have link: "snd (wk_id w) = (?a, ?k)" "(?a, ?k) \<in> dp_keys D" using assms(4) w(1) by (auto simp: linked_def worker_linked_def)
  then have "w \<in> workers_of D s ?a ?k" using w by (simp add: workers_of_def)
  moreover have "abandoned (rc_staleAfter (dp_rc D)) (s_now s) (key_row_of (s_db s) (st_agentID q) (st_key q))"
    using assms(1) q by (simp add: recon_ok_def)
  ultimately have "(st_agentID q, st_key q) \<noteq> (?a, ?k)"
    using abandoned_quiet [OF _ life keys_okD [OF assms(3) link(2)]] by auto
  then show "key_row_of (s_db s') (st_agentID q) (st_key q) = key_row_of (s_db s) (st_agentID q) (st_key q)"
    using Complete_rows [OF c assms(2)] by auto
qed (simp_all add: assms)

lemma recon_ok_settle:
  assumes "recon_ok D ex s" "db_inv (dp_pg D) (s_db s)" "s_recon s = Probed (st, result, detail) c cs"
    and "Complete f (dp_pg D) (s_now s) (st_agentID c) (st_key c) st inline ref detail (s_db s) = (r, d')"
  shows "recon_ok D ex (s\<lparr>s_db := d', s_recon := Sweeping cs\<rparr>)"
proof -
  have "key_row_of d' (st_agentID q) (st_key q) = key_row_of (s_db s) (st_agentID q) (st_key q)" if "q \<in> set cs" for q
  proof -
    have "stale_key c \<notin> stale_key ` set cs" using assms(1,3) by (simp add: recon_ok_def)
    with that have "stale_key q \<noteq> stale_key c" by (metis imageI)
    then show ?thesis using Complete_rows [OF assms(4,2)] by (auto simp: stale_key_def)
  qed
  with assms(1,3) show ?thesis by (auto simp: recon_ok_def)
qed

lemma recon_ok_sweep:
  assumes "db_inv (dp_pg D) (s_db s)"
  shows "recon_ok D ex (s\<lparr>s_recon := Sweeping (staleKeys (dp_rc D) (s_now s) (s_db s))\<rparr>)"
proof -
  let ?st = "is_stale (rc_staleAfter (dp_rc D)) (s_now s)"
  let ?rows = "sort_key k_claimed_at (filter ?st (idempotency_keys (s_db s)))"
  have d: "distinct (map pk (idempotency_keys (s_db s)))" using db_inv_distinct [OF assms] .
  have "map stale_key (staleKeys (dp_rc D) (s_now s) (s_db s)) = take (rc_batch (dp_rc D)) (map pk ?rows)"
    by (simp add: staleKeys_def stale_key_def stale_of_def pk_def comp_def take_map)
  moreover have "distinct (map pk ?rows)" using d by (simp add: distinct_map inj_on_def)
  ultimately have "distinct (map stale_key (staleKeys (dp_rc D) (s_now s) (s_db s)))" by simp
  moreover have "abandoned (rc_staleAfter (dp_rc D)) (s_now s) (key_row_of (s_db s) (st_agentID c) (st_key c))"
    if "c \<in> set (staleKeys (dp_rc D) (s_now s) (s_db s))" for c
    using that set_staleKeys [of "dp_rc D"] key_row_of_unique [OF d] by (fastforce simp: abandoned_def stale_of_def)
  ultimately show ?thesis by (simp add: recon_ok_def)
qed

text \<open>The bounds under which a deployment executes at most once.\<close>

definition bounded :: "('d, 'e) deployment \<Rightarrow> bool" where
  "bounded D \<longleftrightarrow> 0 \<le> dp_life D \<and> dp_life D \<le> rc_staleAfter (dp_rc D) \<and> \<not> dp_unseen D \<and>
     inj_on (\<lambda>(a, k). ID a k) (dp_keys D)"

lemma Execute_not_dialed: "co_Disposition (Execute ee be (\<lambda>_. TransportError (NotDialed e)) req) = Failed"
  by (simp add: Execute_def classifyTransportError_def split: option.split)

lemma Execute_reply:
  "encodable req \<Longrightarrow> co_Disposition (Execute ee None (\<lambda>_. Response st body) req) = Failed \<Longrightarrow>
   IsNotExecuted (cr_Classification req) st"
  by (auto simp: encodable_def Execute_def classifyResponse_def split: if_splits)

lemma Execute_gave_up:
  "encodable req \<Longrightarrow> ex = TransportError (AfterDial e) \<or> ex = BodyError st e \<Longrightarrow>
   co_Disposition (Execute ee None (\<lambda>_. ex) req) = Indeterminate"
  by (auto simp: encodable_def Execute_def classifyTransportError_def)

lemma workers_linked:
  "linked D s \<Longrightarrow> w \<in> s_workers s \<Longrightarrow> active D s (wk_claimed w) \<Longrightarrow>
   w \<in> workers_of D s (cr_AgentID (wk_call w)) (cr_Key (wk_call w)) \<and>
   (cr_AgentID (wk_call w), cr_Key (wk_call w)) \<in> dp_keys D"
  by (auto simp: linked_def worker_linked_def workers_of_def)

lemma keys_ok_recorded:
  assumes "keys_ok D ex s" "db_inv (dp_pg D) (s_db s)" "linked D s"
    and w: "w \<in> s_workers s" "wk_phase w = Returned out" "active D s (wk_claimed w)"
    and c: "Complete f (dp_pg D) (s_now s) (cr_AgentID (wk_call w)) (cr_Key (wk_call w)) (statusFor (co_Disposition out))
      inline ref detail (s_db s) = (r, d')"
  shows "keys_ok D ex (s\<lparr>s_db := d', s_workers := s_workers s - {w}\<rparr>)"
proof -
  let ?a = "cr_AgentID (wk_call w)" and ?k = "cr_Key (wk_call w)"
  have mine: "w \<in> workers_of D s ?a ?k" "(?a, ?k) \<in> dp_keys D" using workers_linked [OF assms(3) w(1,3)] by auto
  note ok = keys_okD [OF assms(1) mine(2)]
  have one: "workers_of D s ?a ?k = {w}" using key_ok_unique [OF ok mine(1)] .
  have "phase_ok (ex (s_ds s) (ID ?a ?k)) (wires_of D s ?a ?k) (s_replies s) w" using ok by (simp add: one key_ok_one)
  then have "co_Disposition out = Failed \<Longrightarrow> ex (s_ds s) (ID ?a ?k) = 0 \<and> wires_of D s ?a ?k = {}"
    by (simp add: phase_ok_def w(2))
  then show ?thesis by (intro keys_ok_completed [OF assms(1,2) statusFor_simps(1) c]) (auto simp: one)
qed

lemma keys_ok_settle:
  assumes "keys_ok D ex s" "db_inv (dp_pg D) (s_db s)" "recon_ok D ex s" "bounded D"
    and r: "s_recon s = Probed (st, result, detail) c cs"
    and c: "Complete f (dp_pg D) (s_now s) (st_agentID c) (st_key c) st inline ref detail (s_db s) = (r, d')"
  shows "keys_ok D ex (s\<lparr>s_db := d', s_recon := Sweeping cs\<rparr>)"
proof -
  have st: "recordable st"
    "(st_agentID c, st_key c) \<in> dp_keys D \<Longrightarrow> st = StatusFailed \<Longrightarrow> ex (s_ds s) (ID (st_agentID c) (st_key c)) = 0"
    using assms(3) r by (simp_all add: recon_ok_def stale_key_def)
  have ab: "abandoned (rc_staleAfter (dp_rc D)) (s_now s) (key_row_of (s_db s) (st_agentID c) (st_key c))"
    using assms(3) r by (simp add: recon_ok_def)
  have life: "dp_life D \<le> rc_staleAfter (dp_rc D)" using assms(4) by (simp add: bounded_def)
  have quiet: "workers_of D s (st_agentID c) (st_key c) = {} \<and> wires_of D s (st_agentID c) (st_key c) = {}"
    if "(st_agentID c, st_key c) \<in> dp_keys D"
    by (rule abandoned_quiet [OF ab life keys_okD [OF assms(1) that]])
  show ?thesis by (intro keys_ok_completed [OF assms(1,2) st(1) c]) (use quiet st(2) in auto)
qed

context system_of_record
begin

lemma keys_ok_deliver:
  assumes "keys_ok D executions s" "linked D s" "inv (s_ds s)" "bounded D" "dp_admitted D = admitted"
    and x: "x \<in> s_wire s" "active D s (wr_claimed x)"
    and d: "deliver e (s_ds s) (wr_call x) = ((st, body), ds')"
    and s': "s' = s\<lparr>s_ds := ds', s_wire := s_wire s - {x}, s_replies := insert (wr_id x, st, body) (s_replies s)\<rparr>"
  shows "keys_ok D executions s'"
  unfolding keys_ok_def
proof (intro allI impI)
  fix a k assume k: "(a, k) \<in> dp_keys D"
  note ok = keys_okD [OF assms(1) k]
  have V: "workers_of D s' a k = workers_of D s a k" by (simp add: s' workers_of_def active_def)
  have W: "wires_of D s' a k = wires_of D s a k - {x}" by (auto simp: s' wires_of_def active_def)
  obtain i a0 k0 where i: "wr_id x = (i, a0, k0)" by (cases "wr_id x") auto
  have link: "(a0, k0) \<in> dp_keys D" "wc_correlation (wr_call x) = ID a0 k0"
    using assms(2) x(1) by (auto simp: linked_def wire_linked_def i)
  show "key_ok (key_row_of (s_db s') a k) (executions (s_ds s') (ID a k)) (workers_of D s' a k) (wires_of D s' a k) (s_replies s')"
  proof (cases "(a, k) = (a0, k0)")
    case True
    then have mine: "x \<in> wires_of D s a k" using x by (simp add: wires_of_def i)
    then have only: "wires_of D s a k = {x}" "wires_of D s' a k = {}" and none: "executions (s_ds s) (ID a k) = 0"
      using ok W by (auto simp: key_ok_def lone_def)
    have le: "executions ds' (ID a k) \<le> 1"
      using deliver_own [OF assms(3), of e "wr_call x"] none True by (simp add: d link(2))
    have "phase_ok (executions ds' (ID a k)) {} (insert (wr_id x, st, body) (s_replies s)) w" if w: "w \<in> workers_of D s a k" for w
    proof -
      have "phase_ok 0 {x} (s_replies s) w" "wr_id x = wk_id w" using ok w none only by (auto simp: key_ok_def)
      moreover have "admitted (cr_Classification (wk_call w))"
        using w assms(2,5) by (auto simp: workers_of_def linked_def worker_linked_def)
      then have "IsNotExecuted (cr_Classification (wk_call w)) st \<Longrightarrow> executions ds' (ID a k) = 0"
        using deliver_declined [OF assms(3), of _ e "wr_call x" "ID a k"] none by (simp add: d)
      ultimately show ?thesis by (auto simp: phase_ok_def split: phase.splits)
    qed
    then show ?thesis using ok le only unfolding V by (auto simp: key_ok_def s')
  next
    case False
    have "ID a k \<noteq> ID a0 k0" using assms(4) k link(1) False inj_onD [of "\<lambda>(a, k). ID a k" "dp_keys D" "(a, k)" "(a0, k0)"]
      by (auto simp: bounded_def)
    then have "executions ds' (ID a k) = executions (s_ds s) (ID a k)"
      using deliver_other [OF assms(3), of "ID a k" "wr_call x" e] link(2) by (simp add: d)
    moreover have "wk_id w \<noteq> wr_id x" if "w \<in> workers_of D s a k" for w using that False by (auto simp: workers_of_def i)
    ultimately show ?thesis using key_ok_mono [OF ok subset_refl, of "wires_of D s' a k"] unfolding V W by (auto simp: s')
  qed
qed

definition sys_inv :: "('d, 'e) deployment \<Rightarrow> 'd sys \<Rightarrow> bool" where
  "sys_inv D s \<longleftrightarrow> db_inv (dp_pg D) (s_db s) \<and> inv (s_ds s) \<and> linked D s \<and> recon_ok D executions s \<and> keys_ok D executions s"

lemma recon_ok_probe:
  assumes "recon_ok D executions s" "inv (s_ds s)" "dp_answer D = answer" "s_recon s = Sweeping (c # cs)"
    and "decision (dp_manifests D) (Probe (dp_answer D (s_ds s))) c = Some dec"
  shows "recon_ok D executions (s\<lparr>s_recon := Probed dec c cs\<rparr>)"
proof -
  obtain st result detail where dec: "dec = (st, result, detail)" by (cases dec) auto
  have "recordable st" using assms(5) decision_recordable dec by blast
  moreover have "executions (s_ds s) (ID (st_agentID c) (st_key c)) = 0" if "st = StatusFailed"
    using assms(5) that probe_none [OF assms(2)]
    by (auto simp: decision_def dec assms(3) split: option.splits sum.splits prod.splits probe_outcome.splits)
  ultimately show ?thesis using assms(1,4) by (simp add: recon_ok_def dec)
qed

lemma recon_ok_deliver:
  assumes "recon_ok D executions s" "keys_ok D executions s" "linked D s" "inv (s_ds s)" "bounded D"
    and x: "x \<in> s_wire s" "active D s (wr_claimed x)"
    and d: "deliver e (s_ds s) (wr_call x) = ((st, body), ds')"
    and s': "s_ds s' = ds'" "s_db s' = s_db s" "s_recon s' = s_recon s" "s_now s' = s_now s"
  shows "recon_ok D executions s'"
proof (rule recon_ok_rows [OF assms(1)])
  fix c cs dec assume q: "s_recon s = Probed dec c cs" "stale_key c \<in> dp_keys D"
  obtain i a0 k0 where i: "wr_id x = (i, a0, k0)" by (cases "wr_id x") auto
  have link: "(a0, k0) \<in> dp_keys D" "wc_correlation (wr_call x) = ID a0 k0"
    using assms(3) x(1) by (auto simp: linked_def wire_linked_def i)
  have "x \<in> wires_of D s a0 k0" using x by (simp add: wires_of_def i)
  moreover have "abandoned (rc_staleAfter (dp_rc D)) (s_now s) (key_row_of (s_db s) (st_agentID c) (st_key c))"
    using assms(1) q(1) by (simp add: recon_ok_def)
  ultimately have "(st_agentID c, st_key c) \<noteq> (a0, k0)"
    using abandoned_quiet [OF _ _ keys_okD [OF assms(2) link(1)]] assms(5) by (auto simp: bounded_def)
  then have "ID (st_agentID c) (st_key c) \<noteq> ID a0 k0"
    using assms(5) link(1) q(2) inj_onD [of "\<lambda>(a, k). ID a k" "dp_keys D" "(st_agentID c, st_key c)" "(a0, k0)"]
    by (auto simp: bounded_def stale_key_def)
  then show "executions (s_ds s') (ID (st_agentID c) (st_key c)) = executions (s_ds s) (ID (st_agentID c) (st_key c))"
    using deliver_other [OF assms(4), of _ "wr_call x" e] link(2) by (simp add: d s')
qed (simp_all add: s')

lemma step_recon_ok:
  assumes "step D s s'" "sys_inv D s" "bounded D" "dp_deliver D = deliver" "dp_answer D = answer"
  shows "recon_ok D executions s'"
proof -
  have ok: "db_inv (dp_pg D) (s_db s)" "inv (s_ds s)" "linked D s" "recon_ok D executions s" "keys_ok D executions s"
    using assms(2) by (simp_all add: sys_inv_def)
  have life: "dp_life D \<le> rc_staleAfter (dp_rc D)" using assms(3) by (simp add: bounded_def)
  show ?thesis using assms(1)
  proof cases
    case (claim_won req c f res d')
    then show ?thesis by (intro recon_ok_claim [OF ok(4,1)]) simp_all
  next
    case (claim_other req f r d')
    then show ?thesis by (intro recon_ok_claim [OF ok(4,1)]) simp_all
  next
    case (deliver x e st body ds')
    then show ?thesis using assms(4) by (intro recon_ok_deliver [OF ok(4,5,3,2) assms(3)]) auto
  next
    case (recorded w out f inline ref updated d')
    then show ?thesis by (intro recon_ok_worker [OF ok(4,1,5,3) _ _ life]) simp_all
  next
    case (unrecorded w out f inline ref err d')
    then show ?thesis by (intro recon_ok_worker [OF ok(4,1,5,3) _ _ life]) simp_all
  next
    case sweep
    then show ?thesis using recon_ok_sweep [OF ok(1)] by simp
  next
    case (probe_skip c cs)
    then show ?thesis using ok(4) by (simp add: recon_ok_def)
  next
    case (probe_done c cs dec)
    then show ?thesis using recon_ok_probe [OF ok(4,2) assms(5)] by simp
  next
    case (settle st result detail c cs f inline ref r d')
    then show ?thesis using recon_ok_settle [OF ok(4,1)] by simp
  next
    case sweep_ends
    then show ?thesis by (simp add: recon_ok_def)
  qed (rule recon_ok_same [OF ok(4)]; simp)+
qed

lemma step_keys_ok:
  assumes "step D s s'" "sys_inv D s" "bounded D" "dp_deliver D = deliver" "dp_admitted D = admitted"
  shows "keys_ok D executions s'"
proof -
  have ok: "db_inv (dp_pg D) (s_db s)" "inv (s_ds s)" "linked D s" "recon_ok D executions s" "keys_ok D executions s"
    using assms(2) by (simp_all add: sys_inv_def)
  show ?thesis using assms(1)
  proof cases
    case (claim_won req c f res d')
    then show ?thesis using assms(3) by (intro keys_ok_claim_won [OF ok(5,3,1)]) (simp_all add: bounded_def)
  next
    case (claim_other req f r d')
    then show ?thesis by (intro keys_ok_claim_other [OF ok(5,1)]) simp_all
  next
    case (send w)
    then show ?thesis by (intro keys_ok_send [OF ok(5,3)]) simp_all
  next
    case (unsent w out ee be e)
    show ?thesis unfolding unsent(1)
      by (rule keys_ok_moved [OF ok(5) unsent(2) refl]) (use unsent in \<open>auto simp: phase_ok_def\<close>)
  next
    case (deliver x e st body ds')
    then show ?thesis using assms(4) by (intro keys_ok_deliver [OF ok(5,3,2) assms(3,5)]) auto
  next
    case (reply w st body out ee)
    show ?thesis unfolding reply(1)
      by (rule keys_ok_moved [OF ok(5) reply(2) refl])
         (use reply Execute_reply in \<open>auto simp: phase_ok_def\<close>)
  next
    case (give_up w ex e st out ee)
    show ?thesis unfolding give_up(1)
      by (rule keys_ok_moved [OF ok(5) give_up(2) refl])
         (use give_up Execute_gave_up in \<open>auto simp: phase_ok_def\<close>)
  next
    case (recorded w out f inline ref updated d')
    then show ?thesis using keys_ok_recorded [OF ok(5,1,3)] by simp
  next
    case (unrecorded w out f inline ref err d')
    then have "d' = s_db s" using Complete_failed_unchanged assms(3) by (auto simp: bounded_def)
    then show ?thesis using unrecorded(1) ok(5) by simp
  next
    case (settle st result detail c cs f inline ref r d')
    then show ?thesis using keys_ok_settle [OF ok(5,1,4) assms(3)] by simp
  qed (rule keys_ok_fewer [OF ok(5)]; auto)+
qed

lemma step_sys_inv:
  assumes "step D s s'" "sys_inv D s" "bounded D" "dp_deliver D = deliver" "dp_answer D = answer" "dp_admitted D = admitted"
  shows "sys_inv D s'"
proof -
  have "inv (s_ds s')" using assms(1)
  proof cases
    case (deliver x e st body ds')
    then show ?thesis using inv_deliver [of "s_ds s" e "wr_call x"] assms(2,4) by (simp add: sys_inv_def)
  qed (use assms(2) in \<open>simp_all add: sys_inv_def\<close>)
  then show ?thesis
    using step_db_inv [OF assms(1)] step_linked [OF assms(1)] step_recon_ok [OF assms(1-5)]
      step_keys_ok [OF assms(1-4,6)] assms(2)
    unfolding sys_inv_def by blast
qed

text \<open>From an untouched downstream every reachable state keeps the promise.\<close>

lemma at_most_one_execution:
  assumes "(step D)\<^sup>*\<^sup>* (start ds now) s" "bounded D" "inj (uuidv7 (dp_pg D))"
    and "dp_deliver D = deliver" "dp_answer D = answer" "dp_admitted D = admitted"
    and "inv ds" "\<And>a k. (a, k) \<in> dp_keys D \<Longrightarrow> executions ds (ID a k) = 0" "(a, k) \<in> dp_keys D"
  shows "executions (s_ds s) (ID a k) \<le> 1 \<and>
    (status_of (s_db s) a k \<in> {None, Some StatusFailed, Some StatusRejected} \<longrightarrow> executions (s_ds s) (ID a k) = 0)"
proof -
  have "keys_ok D executions (start ds now)"
    using assms(8) by (auto simp: keys_ok_def start_def workers_of_def wires_of_def intro!: key_ok_empty)
  then have "sys_inv D (start ds now)"
    using assms(3,7) wf_empty_db
    by (simp add: sys_inv_def start_def db_inv_def linked_def recon_ok_def)
  with assms(1) have "sys_inv D s"
    by (induction rule: rtranclp_induct) (auto intro: step_sys_inv assms)
  then have "key_ok (key_row_of (s_db s) a k) (executions (s_ds s) (ID a k)) (workers_of D s a k) (wires_of D s a k) (s_replies s)"
    using keys_okD assms(9) by (auto simp: sys_inv_def)
  then show ?thesis by (simp add: key_ok_def row_status_def status_of_def)
qed

end

section \<open>The deployment on the scripted system of record\<close>

definition fake_deployment ::
  "pg \<Rightarrow> snapshot \<Rightarrow> reconciler \<Rightarrow> duration \<Rightarrow> (string \<times> string) set \<Rightarrow> bool
   \<Rightarrow> (fake, ledger_fault option \<times> string) deployment" where
  "fake_deployment pgs manifests rc life keys unseen =
     \<lparr>dp_pg = pgs, dp_deliver = fake_deliver, dp_answer = fake_probe, dp_admitted = fake_admitted,
      dp_manifests = manifests, dp_rc = rc, dp_life = life, dp_keys = keys, dp_unseen = unseen\<rparr>"

text \<open>C1: A write is executed at most once. Take any number of requests for any keys, any
  interleaving of their steps with each other and with one reconciler, requests that vanish half
  way, calls that arrive after their sender has given up, replies that are lost, and faults in
  every transaction. As long as no request and no call acts on a key longer after its claim than the
  stale age of the reconciler, commits of completions are not lost from view and correlation
  identifiers do not collide, the system of record executes a write at most once; and while a key is
  absent, failed or rejected, so that a client may send it again, it was not executed at all.\<close>

theorem at_most_once:
  assumes "(step (fake_deployment pgs manifests rc life keys False))\<^sup>*\<^sup>* (start empty_fake now) s"
    and "inj (uuidv7 pgs)" "inj_on (\<lambda>(a, k). ID a k) keys" "0 \<le> life" "life \<le> rc_staleAfter rc"
    and "(a, k) \<in> keys"
  shows "fake_executions (s_ds s) (ID a k) \<le> 1 \<and>
    (status_of (s_db s) a k \<in> {None, Some StatusFailed, Some StatusRejected} \<longrightarrow>
       fake_executions (s_ds s) (ID a k) = 0)"
proof (rule fakes.at_most_one_execution [OF assms(1)])
  show "bounded (fake_deployment pgs manifests rc life keys False)"
    using assms(3-5) by (simp add: bounded_def fake_deployment_def)
  show "ledger_ok (f_ledger empty_fake)" by (simp add: empty_fake_def ledger_ok_open)
qed (simp_all add: assms fake_deployment_def fake_executions_def empty_fake_def executions_of_def openLedger_def)

text \<open>A concrete run: one agent, one key, one invoice.\<close>

abbreviation the_key :: "string \<times> string" where
  "the_key \<equiv> (''billing-agent'', ''k1'')"

definition run_deployment :: "bool \<Rightarrow> (fake, ledger_fault option \<times> string) deployment" where
  "run_deployment unseen = fake_deployment pg0 shipped_snapshot rc0 200 {the_key} unseen"

definition run_call :: call_request where
  "run_call = call_of req0 (doc_Errors invoice_manifest)"

definition run_worker :: "nat \<Rightarrow> phase \<Rightarrow> worker" where
  "run_worker n p = \<lparr>wk_id = (n, the_key), wk_claimed = 100, wk_call = run_call, wk_phase = p\<rparr>"

definition run_wired :: "nat \<Rightarrow> wired" where
  "run_wired n = \<lparr>wr_id = (n, the_key), wr_claimed = 100, wr_call = wire run_call\<rparr>"

definition run_state ::
  "db \<Rightarrow> fake \<Rightarrow> worker set \<Rightarrow> wired set \<Rightarrow> (ident \<times> int \<times> bytes) set \<Rightarrow> nat \<Rightarrow> fake sys" where
  "run_state d f ws xs rs n = \<lparr>s_now = 100, s_db = d, s_ds = f, s_workers = ws, s_wire = xs, s_replies = rs,
     s_recon = Idle, s_next = n\<rparr>"

lemma run_claim:
  assumes "case Claim no_faults pg0 100 req0 d of (Inr res, d'') \<Rightarrow> res_Verdict res = VerdictClaimed \<and> d'' = d' | _ \<Rightarrow> False"
  shows "step (run_deployment u) (run_state d f ws xs rs n) (run_state d' f (insert (run_worker n Ready) ws) xs rs (Suc n))"
proof -
  obtain r d'' where r: "Claim no_faults pg0 100 req0 d = (r, d'')" by fastforce
  then obtain res where c: "Claim no_faults pg0 100 req0 d = (Inr res, d')" "res_Verdict res = VerdictClaimed"
    using assms by (cases r) auto
  have "fake_admitted (doc_Errors invoice_manifest)" by code_simp
  then show ?thesis
    using step.claim_won [of req0 "run_deployment u" "doc_Errors invoice_manifest" no_faults "run_state d f ws xs rs n" res d'] c
    by (simp add: run_state_def run_deployment_def fake_deployment_def run_worker_def run_call_def req0_def)
qed

lemma run_send:
  assumes "run_worker n Ready \<in> ws"
  shows "step (run_deployment u) (run_state d f ws xs rs m)
    (run_state d f (moved (run_worker n Ready) Waiting ws) (insert (run_wired n) xs) rs m)"
proof -
  have "encodable run_call" by code_simp
  then show ?thesis
    using step.send [of "run_worker n Ready" "run_state d f ws xs rs m" "run_deployment u"] assms
    by (simp add: run_state_def run_deployment_def fake_deployment_def run_worker_def run_wired_def active_def)
qed

lemma run_deliver:
  assumes "run_wired n \<in> xs"
  shows "\<exists>st body. step (run_deployment u) (run_state d f ws xs rs m)
    (run_state d (snd (fake_deliver (None, []) f (wire run_call))) ws (xs - {run_wired n}) (insert ((n, the_key), st, body) rs) m)"
proof -
  obtain st body f' where d: "fake_deliver (None, []) f (wire run_call) = ((st, body), f')"
    by (metis prod.collapse)
  then show ?thesis
    using step.deliver [of "run_wired n" "run_state d f ws xs rs m" "run_deployment u" "(None, [])" st body f'] assms
    by (auto simp: run_state_def run_deployment_def fake_deployment_def run_wired_def active_def)
qed

theorem at_most_once_witness:
  "fake_executions (snd (fake_deliver (None, []) empty_fake (wire run_call))) (ID ''billing-agent'' ''k1'') \<le> 1"
proof -
  let ?D = "run_deployment False"
  have "case Claim no_faults pg0 100 req0 empty_db of (Inr res, d'') \<Rightarrow> res_Verdict res = VerdictClaimed \<and> d'' = db1 | _ \<Rightarrow> False"
    by code_simp
  note c = run_claim [OF this, of False empty_fake "{}" "{}" "{}" 0]
  note s = run_send [of 0 "{run_worker 0 Ready}" False db1 empty_fake "{}" "{}" 1]
  obtain st body where d: "step ?D (run_state db1 empty_fake (moved (run_worker 0 Ready) Waiting {run_worker 0 Ready}) {run_wired 0} {} 1)
      (run_state db1 (snd (fake_deliver (None, []) empty_fake (wire run_call)))
         (moved (run_worker 0 Ready) Waiting {run_worker 0 Ready}) {} {((0, the_key), st, body)} 1)"
    using run_deliver [of 0 "{run_wired 0}" False db1 empty_fake _ "{}" 1] by fastforce
  have "start empty_fake 100 = run_state empty_db empty_fake {} {} {} 0" by (simp add: start_def run_state_def)
  then have "(step ?D)\<^sup>*\<^sup>* (start empty_fake 100)
      (run_state db1 (snd (fake_deliver (None, []) empty_fake (wire run_call)))
         (moved (run_worker 0 Ready) Waiting {run_worker 0 Ready}) {} {((0, the_key), st, body)} 1)"
    using c s d by (auto intro: converse_rtranclp_into_rtranclp)
  from at_most_once [OF this [unfolded run_deployment_def], of "''billing-agent''" "''k1''"] show ?thesis
    by (simp add: run_state_def pg0_def rc0_def NewReconciler_def inj_def)
qed

section \<open>A commit lost from view\<close>

text \<open>
  The bounds are needed. Below a request cannot reach the downstream and records the failure, but
  the commit of that completion is lost from view, so it tries again. In between the client sends the
  key again; the second request claims it and calls. The first request's second completion finds
  the key pending, as the second claim left it, and marks it failed while that call is under way, so
  that a third request executes the write once more. \<open>Complete\<close> matches on the key and its pending
  status alone, not on the attempt that owns it.
\<close>

definition lost_commit :: faults where
  "lost_commit = no_faults\<lparr>f_commit := CommitUnseen\<rparr>"

definition refused :: call_outcome where
  "refused = Execute [] None (\<lambda>_. TransportError (NotDialed ''refused'')) run_call"

definition fail_run :: "faults \<Rightarrow> db \<Rightarrow> (claim_error + bool) \<times> db" where
  "fail_run f d = Complete f pg0 100 ''billing-agent'' ''k1'' StatusFailed [] [] (co_Detail refused) d"

definition dbs :: "db \<times> db \<times> db \<times> db" where
  "dbs = (let failed1 = snd (fail_run lost_commit db1); claimed2 = snd (Claim no_faults pg0 100 req0 failed1);
              failed2 = snd (fail_run no_faults claimed2); claimed3 = snd (Claim no_faults pg0 100 req0 failed2)
          in (failed1, claimed2, failed2, claimed3))"

lemma fake_deliver_executes:
  assumes "f_scripts f = Map.empty"
  shows "f_scripts (snd (fake_deliver (None, now) f (wire run_call))) = Map.empty \<and>
    fake_executions (snd (fake_deliver (None, now) f (wire run_call))) (ID ''billing-agent'' ''k1'') =
      Suc (fake_executions f (ID ''billing-agent'' ''k1''))"
proof -
  have "decode_execute (marshal (request_body run_call)) =
      Some \<lparr>er_ResourceType = ''invoice'', er_ResourceID = ''inv-1'', er_Operation = ''set_memo'', er_Payload = ''{}''\<rparr>"
    by code_simp
  then show ?thesis
    using assms
    by (simp add: handleExecute_def wire_def pop_script_def ledger_record_def behaviorSucceed_def behaviorRefuse_def
        fake_executions_def executions_of_def Let_def) (simp add: run_call_def call_of_def req0_def)
qed

lemma run_unsent:
  assumes "run_worker n Ready \<in> ws"
  shows "step (run_deployment u) (run_state d f ws xs rs m)
    (run_state d f (moved (run_worker n Ready) (Returned refused) ws) xs rs m)"
  using step.unsent [of "run_worker n Ready" "run_state d f ws xs rs m" "run_deployment u" refused "[]" None "''refused''"] assms
  by (simp add: run_state_def run_deployment_def fake_deployment_def run_worker_def active_def refused_def)

lemma refused_failed: "statusFor (co_Disposition refused) = StatusFailed"
  by (simp add: refused_def Execute_not_dialed)

lemma run_record:
  assumes "run_worker n (Returned refused) \<in> ws"
  shows "fail_run lost_commit d = (Inl e, d') \<Longrightarrow>
      step (run_deployment True) (run_state d f ws xs rs m) (run_state d' f ws xs rs m)"
    and "fail_run no_faults d = (Inr True, d') \<Longrightarrow>
      step (run_deployment True) (run_state d f ws xs rs m) (run_state d' f (ws - {run_worker n (Returned refused)}) xs rs m)"
  using assms refused_failed
    step.unrecorded [of "run_worker n (Returned refused)" "run_state d f ws xs rs m" refused "run_deployment True" lost_commit "[]" "[]" e d']
    step.recorded [of "run_worker n (Returned refused)" "run_state d f ws xs rs m" refused "run_deployment True" no_faults "[]" "[]" True d']
  by (simp_all add: run_state_def run_deployment_def fake_deployment_def run_worker_def active_def fail_run_def
      run_call_def call_of_def req0_def)

lemma moved_worker:
  "m \<noteq> n \<Longrightarrow> moved (run_worker n p) q {run_worker n p, run_worker m r} = {run_worker n q, run_worker m r}"
  "moved (run_worker n p) q {run_worker n p} = {run_worker n q}"
  by (auto simp: moved_def run_worker_def)

lemma dbs_run:
  assumes "dbs = (failed1, claimed2, failed2, claimed3)"
  shows "fail_run lost_commit db1 = (Inl CommitError, failed1)" "fail_run no_faults claimed2 = (Inr True, failed2)"
    and "case Claim no_faults pg0 100 req0 failed1 of (Inr res, d'') \<Rightarrow> res_Verdict res = VerdictClaimed \<and> d'' = claimed2 | _ \<Rightarrow> False"
    and "case Claim no_faults pg0 100 req0 failed2 of (Inr res, d'') \<Rightarrow> res_Verdict res = VerdictClaimed \<and> d'' = claimed3 | _ \<Rightarrow> False"
proof -
  have "case dbs of (f1, c2, f2, c3) \<Rightarrow>
      fail_run lost_commit db1 = (Inl CommitError, f1) \<and> fail_run no_faults c2 = (Inr True, f2)" by code_simp
  then show "fail_run lost_commit db1 = (Inl CommitError, failed1)" "fail_run no_faults claimed2 = (Inr True, failed2)"
    by (simp_all add: assms)
  have "case dbs of (f1, c2, f2, c3) \<Rightarrow>
      (case Claim no_faults pg0 100 req0 f1 of (Inr res, d'') \<Rightarrow> res_Verdict res = VerdictClaimed \<and> d'' = c2 | _ \<Rightarrow> False) \<and>
      (case Claim no_faults pg0 100 req0 f2 of (Inr res, d'') \<Rightarrow> res_Verdict res = VerdictClaimed \<and> d'' = c3 | _ \<Rightarrow> False)"
    by code_simp
  then show "case Claim no_faults pg0 100 req0 failed1 of (Inr res, d'') \<Rightarrow> res_Verdict res = VerdictClaimed \<and> d'' = claimed2 | _ \<Rightarrow> False"
    "case Claim no_faults pg0 100 req0 failed2 of (Inr res, d'') \<Rightarrow> res_Verdict res = VerdictClaimed \<and> d'' = claimed3 | _ \<Rightarrow> False"
    by (simp_all add: assms)
qed

text \<open>C37: The hypothesis on commits cannot be dropped. When the commit of a completion may take effect
  without the request seeing it, so that the request completes again, there is a run on the scripted
  system of record, within all time bounds, in which one key is executed twice.\<close>

theorem lost_commit_executes_twice:
  "\<exists>s. (step (fake_deployment pg0 shipped_snapshot rc0 200 {the_key} True))\<^sup>*\<^sup>* (start empty_fake 100) s \<and>
     200 \<le> rc_staleAfter rc0 \<and> fake_executions (s_ds s) (ID ''billing-agent'' ''k1'') = 2"
proof -
  let ?D = "run_deployment True" and ?W = run_worker
  obtain failed1 claimed2 failed2 claimed3 where dbs: "dbs = (failed1, claimed2, failed2, claimed3)" by (cases dbs) auto
  note db = dbs_run [OF dbs]
  define f1 where "f1 = snd (fake_deliver (None, []) empty_fake (wire run_call))"
  define f2 where "f2 = snd (fake_deliver (None, []) f1 (wire run_call))"
  have first: "case Claim no_faults pg0 100 req0 empty_db of (Inr res, d'') \<Rightarrow> res_Verdict res = VerdictClaimed \<and> d'' = db1 | _ \<Rightarrow> False"
    by code_simp
  have "step ?D (start empty_fake 100) (run_state db1 empty_fake {?W 0 Ready} {} {} 1)"
    using run_claim [OF first] by (simp add: start_def run_state_def)
  moreover have "step ?D (run_state db1 empty_fake {?W 0 Ready} {} {} 1) (run_state db1 empty_fake {?W 0 (Returned refused)} {} {} 1)"
    using run_unsent [of 0 "{?W 0 Ready}"] by (simp add: moved_worker)
  moreover have "step ?D (run_state db1 empty_fake {?W 0 (Returned refused)} {} {} 1) (run_state failed1 empty_fake {?W 0 (Returned refused)} {} {} 1)"
    by (rule run_record(1) [OF _ db(1)]) simp
  moreover have "step ?D (run_state failed1 empty_fake {?W 0 (Returned refused)} {} {} 1)
      (run_state claimed2 empty_fake {?W 1 Ready, ?W 0 (Returned refused)} {} {} 2)"
    using run_claim [OF db(3)] by (simp add: numeral_2_eq_2)
  moreover have "step ?D (run_state claimed2 empty_fake {?W 1 Ready, ?W 0 (Returned refused)} {} {} 2)
      (run_state claimed2 empty_fake {?W 1 Waiting, ?W 0 (Returned refused)} {run_wired 1} {} 2)"
    using run_send [of 1 "{?W 1 Ready, ?W 0 (Returned refused)}"] by (simp add: moved_worker)
  moreover have "step ?D (run_state claimed2 empty_fake {?W 1 Waiting, ?W 0 (Returned refused)} {run_wired 1} {} 2)
      (run_state failed2 empty_fake {?W 1 Waiting} {run_wired 1} {} 2)"
    using run_record(2) [OF _ db(2), of 0 "{?W 1 Waiting, ?W 0 (Returned refused)}"]
    by (simp add: run_worker_def insert_Diff_if)
  moreover obtain rs where "step ?D (run_state failed2 empty_fake {?W 1 Waiting} {run_wired 1} {} 2) (run_state failed2 f1 {?W 1 Waiting} {} rs 2)"
    using run_deliver [of 1 "{run_wired 1}"] by (fastforce simp: f1_def)
  moreover have "step ?D (run_state failed2 f1 {?W 1 Waiting} {} rs 2) (run_state claimed3 f1 {?W 2 Ready, ?W 1 Waiting} {} rs 3)"
    using run_claim [OF db(4), of True f1 "{?W 1 Waiting}" "{}" rs 2] by (simp add: numeral_3_eq_3 numeral_2_eq_2)
  moreover have "step ?D (run_state claimed3 f1 {?W 2 Ready, ?W 1 Waiting} {} rs 3) (run_state claimed3 f1 {?W 2 Waiting, ?W 1 Waiting} {run_wired 2} rs 3)"
    using run_send [of 2 "{?W 2 Ready, ?W 1 Waiting}"] by (simp add: moved_worker)
  moreover obtain rs' where "step ?D (run_state claimed3 f1 {?W 2 Waiting, ?W 1 Waiting} {run_wired 2} rs 3)
      (run_state claimed3 f2 {?W 2 Waiting, ?W 1 Waiting} {} rs' 3)"
    using run_deliver [of 2 "{run_wired 2}"] by (fastforce simp: f2_def)
  ultimately have run: "(step ?D)\<^sup>*\<^sup>* (start empty_fake 100) (run_state claimed3 f2 {?W 2 Waiting, ?W 1 Waiting} {} rs' 3)"
    by (meson converse_rtranclp_into_rtranclp rtranclp.rtrancl_refl)
  have "f_scripts empty_fake = Map.empty" "fake_executions empty_fake (ID ''billing-agent'' ''k1'') = 0"
    by (simp_all add: empty_fake_def fake_executions_def executions_of_def openLedger_def)
  then have "fake_executions f2 (ID ''billing-agent'' ''k1'') = 2"
    using fake_deliver_executes [of empty_fake "[]"] fake_deliver_executes [of f1 "[]"] by (simp add: f1_def f2_def)
  with run show ?thesis
    by (auto simp: run_deployment_def run_state_def rc0_def NewReconciler_def)
qed

end
