(* ===== verification/Api_Laws.thy ===== *)
theory Api_Laws
  imports Api Reconcile
begin

text \<open>
  What the write path guarantees: it answers every request, it calls the downstream only for a key
  it has just claimed and at most once, the status of the answer tells what became of that call, and
  a settled key is answered from its record.
\<close>

section \<open>What a step leaves alone\<close>

text \<open>The parts of the world that only \<open>execute\<close> changes.\<close>

definition calls_kept :: "world \<Rightarrow> world \<Rightarrow> bool" where
  "calls_kept w w' \<longleftrightarrow> wd_calls w' = wd_calls w \<and> wd_bucket w' = wd_bucket w \<and> wd_latency w' = wd_latency w \<and>
     wd_slept w' = wd_slept w"

lemma calls_kept_refl [simp]: "calls_kept w w"
  by (simp add: calls_kept_def)

lemma calls_kept_trans: "calls_kept u v \<Longrightarrow> calls_kept v w \<Longrightarrow> calls_kept u w"
  by (simp add: calls_kept_def)

lemma calls_kept_steps [simp]:
  "calls_kept u (tick w) \<longleftrightarrow> calls_kept u w" "calls_kept u (feed m w) \<longleftrightarrow> calls_kept u w"
  "calls_kept u (feed_if b m w) \<longleftrightarrow> calls_kept u w" "calls_kept u (w\<lparr>wd_db := d\<rparr>) \<longleftrightarrow> calls_kept u w"
  by (simp_all add: calls_kept_def tick_def feed_def feed_if_def)

lemma db_steps [simp]:
  "wd_db (tick w) = wd_db w" "wd_db (feed m w) = wd_db w" "wd_db (feed_if b m w) = wd_db w"
  by (simp_all add: tick_def feed_def feed_if_def)

lemma seen_steps [simp]:
  "wd_seen (tick w) = Suc (wd_seen w)" "wd_seen (feed m w) = wd_seen w" "wd_seen (feed_if b m w) = wd_seen w"
  by (simp_all add: tick_def feed_def feed_if_def)

lemma calls_steps [simp]:
  "wd_calls (tick w) = wd_calls w" "wd_calls (feed m w) = wd_calls w" "wd_calls (feed_if b m w) = wd_calls w"
  by (simp_all add: tick_def feed_def feed_if_def)

lemma claim_in_kept: "claim_in env req w = (r, w') \<Longrightarrow> calls_kept w w' \<and> wd_seen w' = Suc (wd_seen w)"
  by (auto simp: claim_in_def split: prod.splits)

lemma lookup_in_kept: "lookup_in env a k w = (r, w') \<Longrightarrow>
  calls_kept w w' \<and> wd_seen w' = Suc (wd_seen w) \<and> wd_db w' = db_in env w"
  by (auto simp: lookup_in_def)

section \<open>Termination\<close>

text \<open>The clock passes every point in time and stays past it.\<close>

definition passes :: "env \<Rightarrow> bool" where
  "passes env \<longleftrightarrow> (\<forall>t. \<exists>n. \<forall>m \<ge> n. t \<le> en_now env m)"

lemma waitForTerminal_late: "deadline \<le> now_in env w \<Longrightarrow> waitForTerminal env b deadline w = Some (False, tick w)"
  by (subst waitForTerminal.simps) simp

lemma waitForTerminal_ends:
  assumes "\<forall>m \<ge> n. deadline \<le> en_now env m"
  shows "\<exists>ok w'. waitForTerminal env b deadline w = Some (ok, w') \<and> wd_seen w < wd_seen w'"
proof (induction "n - wd_seen w" arbitrary: w rule: less_induct)
  case less
  show ?case
  proof (cases "now_in env w < deadline")
    case True
    with assms have "wd_seen w < n" by (metis leI leD now_in_def)
    obtain r w1 where r: "lookup_in env (blk_AgentID b) (blk_Key b) (tick w) = (r, w1)" by force
    have seen: "wd_seen w1 = Suc (Suc (wd_seen w))" using lookup_in_kept [OF r] by simp
    have "\<exists>ok w'. waitForTerminal env b deadline (tick w1) = Some (ok, w') \<and> wd_seen (tick w1) < wd_seen w'"
      using \<open>wd_seen w < n\<close> by (intro less) (simp add: seen)
    with True r seen show ?thesis by (subst waitForTerminal.simps) (auto split: sum.split)
  qed (auto simp: waitForTerminal_late)
qed

lemma claim_until_ends:
  assumes "\<forall>m \<ge> n. deadline \<le> en_now env m"
  shows "\<exists>r w'. claim_until env req deadline w = Some (r, w')"
proof (induction "n - wd_seen w" arbitrary: w rule: less_induct)
  case less
  obtain r w1 where r: "claim_in env req w = (r, w1)" by force
  have seen: "wd_seen w1 = Suc (wd_seen w)" using claim_in_kept [OF r] by simp
  show ?case
  proof (cases r)
    case (Inr result)
    obtain ok w2 where wait: "waitForTerminal env (res_Blocking result) deadline w1 = Some (ok, w2)" "wd_seen w1 < wd_seen w2"
      using waitForTerminal_ends [OF assms] by blast
    have "\<exists>r w'. claim_until env req deadline (feed (MSerializationWaits ''resolved'') w2) = Some (r, w')" if ok
    proof (rule less)
      have "wd_seen w < n"
        using waitForTerminal_late [of deadline env w1] wait(1) that assms seen
        by (metis le_SucI leI option.inject prod.inject now_in_def)
      then show "n - wd_seen (feed (MSerializationWaits ''resolved'') w2) < n - wd_seen w" using wait(2) seen by simp
    qed
    with r Inr wait(1) show ?thesis by (subst claim_until.simps) auto
  qed (subst claim_until.simps, simp add: r)
qed

lemma await_until_ends:
  assumes "\<forall>m \<ge> n. deadline \<le> en_now env m"
  shows "\<exists>c w'. await_until env rcd deadline w = Some (c, w')"
proof (induction "n - wd_seen w" arbitrary: w rule: less_induct)
  case less
  show ?case
  proof (cases "now_in env w < deadline")
    case True
    with assms have "wd_seen w < n" by (metis leI leD now_in_def)
    obtain r w1 where r: "lookup_in env (rec_AgentID rcd) (rec_Key rcd) (tick (tick w)) = (r, w1)" by force
    have "\<exists>c w'. await_until env rcd deadline w1 = Some (c, w')"
      using \<open>wd_seen w < n\<close> lookup_in_kept [OF r] by (intro less) simp
    with r show ?thesis by (subst await_until.simps) (auto split: sum.split option.split)
  qed (subst await_until.simps, simp)
qed

lemma answer_claim_ends:
  assumes "\<And>rcd u. \<exists>c v. awaitCompletion env s rcd u = Some (c, v)"
  shows "\<exists>x. answer_claim env s key req def result u = Some x"
proof -
  obtain c v where "awaitCompletion env s (res_Record result) u = Some (c, v)" using assms by blast
  then show ?thesis by (cases "res_Verdict result") (simp_all add: answer_claim_def)
qed

text \<open>C4: Every write request is answered. Whatever other requests do to the database, however often
  the write it waits for is replaced by another, and whatever fails, the handler returns once the
  clock has passed the deadlines it set.\<close>

theorem handleWrite_returns:
  assumes "passes env"
  shows "\<exists>answer w'. handleWrite env s r w = Some (answer, w')"
proof (cases "admit env s r")
  case (Inr a)
  obtain key req "def" creq where a: "a = (key, req, def, creq)" by (metis prod_cases4)
  have late: "\<exists>n. \<forall>m \<ge> n. t \<le> en_now env m" for t using assms by (simp add: passes_def)
  obtain claimed w1 where claimed: "claimWithSerialization env s creq w = Some (claimed, w1)"
    unfolding claimWithSerialization_def using late claim_until_ends by meson
  have "\<exists>c v. awaitCompletion env s rcd u = Some (c, v)" for rcd u
    unfolding awaitCompletion_def using late await_until_ends by (metis (full_types))
  then have "\<exists>x. answer_claim env s key req def result u = Some x" for result u
    by (rule answer_claim_ends)
  with claimed show ?thesis
    unfolding handleWrite_def Inr a by (cases claimed) auto
qed (simp add: handleWrite_def)

section \<open>What the waiting and the claim do\<close>

text \<open>Other processes keep the invariant of the database.\<close>

definition respectful :: "env \<Rightarrow> bool" where
  "respectful env \<longleftrightarrow> (\<forall>n d. db_inv (en_pg env) d \<longrightarrow> db_inv (en_pg env) (en_others env n d))"

definition sound :: "env \<Rightarrow> world \<Rightarrow> bool" where
  "sound env w \<longleftrightarrow> db_inv (en_pg env) (wd_db w)"

lemma sound_steps [simp]:
  "sound env (tick w) = sound env w" "sound env (feed m w) = sound env w" "sound env (feed_if b m w) = sound env w"
  by (simp_all add: sound_def)

lemma sound_db_in: "respectful env \<Longrightarrow> sound env w \<Longrightarrow> db_inv (en_pg env) (db_in env w)"
  by (simp add: respectful_def sound_def db_in_def)

lemma lookup_in_sound: "lookup_in env a k w = (r, w') \<Longrightarrow> respectful env \<Longrightarrow> sound env w \<Longrightarrow> sound env w'"
  using sound_db_in by (auto simp: lookup_in_def sound_def)

lemma claim_in_sound:
  assumes "claim_in env req w = (r, w')" "respectful env" "sound env w"
  shows "sound env w'"
proof -
  obtain d where c: "Claim (en_faults env (wd_seen w)) (en_pg env) (now_in env w) req (db_in env w) = (r, d)" "wd_db w' = d"
    using assms(1) by (auto simp: claim_in_def split: prod.splits)
  then have "store_step (en_pg env) (db_in env w) d" by (auto intro: store_step.intros)
  with c(2) store_step_inv sound_db_in [OF assms(2,3)] show ?thesis by (auto simp: sound_def)
qed

definition kept :: "env \<Rightarrow> world \<Rightarrow> world \<Rightarrow> bool" where
  "kept env w w' \<longleftrightarrow> calls_kept w w' \<and> (respectful env \<longrightarrow> sound env w \<longrightarrow> sound env w')"

lemma kept_simps [simp]:
  "kept env w w" "kept env u (tick w) = kept env u w" "kept env (tick u) w = kept env u w"
  "kept env u (feed m w) = kept env u w" "kept env (feed m u) w = kept env u w"
  "kept env u (feed_if b m w) = kept env u w"
  by (auto simp: kept_def calls_kept_def tick_def feed_def feed_if_def sound_def)

lemma kept_trans: "kept env u v \<Longrightarrow> kept env v w \<Longrightarrow> kept env u w"
  by (auto simp: kept_def calls_kept_def)

lemma lookup_in_kept': "lookup_in env a k w = (r, w') \<Longrightarrow> kept env w w'"
  using lookup_in_kept lookup_in_sound by (auto simp: kept_def)

lemma claim_in_kept': "claim_in env req w = (r, w') \<Longrightarrow> kept env w w'"
  using claim_in_kept claim_in_sound by (auto simp: kept_def)

lemma waitForTerminal_kept:
  assumes "waitForTerminal env b deadline w = Some y"
  shows "kept env w (snd y)"
proof (rule waitForTerminal.raw_induct [where P = "\<lambda>env b dl w y. kept env w (snd y)", OF _ assms], goal_cases)
  case (1 f env b deadline w y)
  obtain r w1 where r: "lookup_in env (blk_AgentID b) (blk_Key b) (tick w) = (r, w1)" by force
  have w1: "kept env w w1" using lookup_in_kept' [OF r] by simp
  have "f env b deadline (tick w1) = Some y \<Longrightarrow> kept env w1 (snd y)" using 1(1) [of env b deadline "tick w1" y] by simp
  then show ?case using 1(2) r w1 kept_trans [OF w1] by (auto split: if_splits sum.splits)
qed

lemma await_until_kept:
  assumes "await_until env rcd deadline w = Some y"
  shows "kept env w (snd y)"
proof (rule await_until.raw_induct [where P = "\<lambda>env rcd dl w y. kept env w (snd y)", OF _ assms], goal_cases)
  case (1 f env rcd deadline w y)
  obtain r w1 where r: "lookup_in env (rec_AgentID rcd) (rec_Key rcd) (tick (tick w)) = (r, w1)" by force
  have w1: "kept env w w1" using lookup_in_kept' [OF r] by simp
  have "f env rcd deadline w1 = Some y \<Longrightarrow> kept env w1 (snd y)" using 1(1) .
  then show ?case using 1(2) r w1 kept_trans [OF w1] by (auto split: if_splits sum.splits option.splits)
qed

lemma awaitCompletion_kept: "awaitCompletion env s rcd w = Some y \<Longrightarrow> kept env w (snd y)"
  using await_until_kept [of env rcd _ "tick w" y] by (auto simp: awaitCompletion_def split: if_splits)

text \<open>The claim that ends the loop, and the world in which it ran.\<close>

definition last_claim :: "env \<Rightarrow> request \<Rightarrow> world \<Rightarrow> (claim_error + claim_result) \<times> world \<Rightarrow> bool" where
  "last_claim env req w y \<longleftrightarrow>
     (\<exists>v. kept env w v \<and> claim_in env req v = y \<and> (\<forall>res. fst y = Inr res \<longrightarrow> res_Verdict res \<noteq> VerdictSerialize)) \<or>
     (\<exists>res. fst y = Inr res \<and> res_Verdict res = VerdictSerializeTimeout)"

lemma last_claim_later: "kept env w v \<Longrightarrow> last_claim env req v y \<Longrightarrow> last_claim env req w y"
  unfolding last_claim_def using kept_trans by blast

lemma claim_until_last:
  assumes "claim_until env req deadline w = Some y"
  shows "kept env w (snd y) \<and> last_claim env req w y"
proof (rule claim_until.raw_induct [where P = "\<lambda>env req dl w y. kept env w (snd y) \<and> last_claim env req w y", OF _ assms], goal_cases)
  case (1 f env req deadline w y)
  obtain r w1 where r: "claim_in env req w = (r, w1)" by force
  have w1: "kept env w w1" using claim_in_kept' [OF r] by simp
  show ?case
  proof (cases "\<exists>res. r = Inr res \<and> res_Verdict res = VerdictSerialize")
    case True
    then obtain res where res: "r = Inr res" "res_Verdict res = VerdictSerialize" by blast
    with 1(2) r obtain ok w2 where wait: "waitForTerminal env (res_Blocking res) deadline w1 = Some (ok, w2)"
      by (auto split: bind_splits)
    have w2: "kept env w w2" using kept_trans [OF w1] waitForTerminal_kept [OF wait] by simp
    show ?thesis
    proof (cases ok)
      case True
      then have "f env req deadline (feed (MSerializationWaits ''resolved'') w2) = Some y" using 1(2) r res wait by simp
      from 1(1) [OF this] show ?thesis
        using kept_trans [OF w2] last_claim_later [of env w "feed (MSerializationWaits ''resolved'') w2"] w2 by auto
    qed (use 1(2) r res wait w2 in \<open>auto simp: last_claim_def\<close>)
  next
    case False
    then have "y = (r, w1)" using 1(2) r by (cases r) auto
    with False r w1 show ?thesis unfolding last_claim_def by (intro conjI disjI1 exI [of _ w]) auto
  qed
qed

section \<open>Calls\<close>

lemma record_attempts_calls:
  "wd_calls (snd (record_attempts env a k st pl detail n backoff w)) = wd_calls w"
proof (induction n arbitrary: backoff w)
  case (Suc n)
  have "wd_calls w1 = wd_calls w" if "complete_in env a k st (pl_Inline pl) (pl_Ref pl) detail w = (r, w1)" for r w1
    using that by (auto simp: complete_in_def tick_def split: prod.splits)
  then show ?case by (auto simp: Suc split: prod.split sum.split)
qed simp

lemma persistOutcome_calls: "persistOutcome env s a k st out w = (ok, w') \<Longrightarrow> wd_calls w' = wd_calls w"
  using record_attempts_calls
  by (auto simp: persistOutcome_def Let_def tick_def split: prod.splits
      dest!: arg_cong [where f = "\<lambda>x. wd_calls (snd x)"])

definition status_code :: "disposition \<Rightarrow> int" where
  "status_code disp = (case disp of Done \<Rightarrow> StatusCreated | Failed \<Rightarrow> StatusServiceUnavailable | Indeterminate \<Rightarrow> StatusBadGateway)"

text \<open>What \<open>Execute\<close> makes of the call a request sends at observation \<open>n\<close>.\<close>

definition called :: "env \<Rightarrow> nat \<Rightarrow> call_request \<Rightarrow> call_outcome" where
  "called env n call = Execute (jt_encode (en_texts env)) (en_build_error env) (en_exchange env n) call"

lemma execute_calls:
  assumes "execute env s key req def res w = (answer, w')"
  defines "call \<equiv> downstream_request key req def"
  shows "wd_calls w' = wd_calls w @ (if sent env call then [(call, wd_db w)] else [])"
    and "rp_Status answer = status_code (co_Disposition (called env (Suc (wd_seen w)) call))"
proof -
  have "wd_calls w' = wd_calls (snd (call_in env call (tick w)))"
    using assms(1) unfolding execute_def call_def
    by (auto simp: Let_def ObserveResultSize_def split: prod.splits dest!: persistOutcome_calls)
  then show "wd_calls w' = wd_calls w @ (if sent env call then [(call, wd_db w)] else [])"
    by (simp add: call_in_def tick_def)
  show "rp_Status answer = status_code (co_Disposition (called env (Suc (wd_seen w)) call))"
    using assms(1) unfolding execute_def call_def
    by (auto simp: Let_def call_in_def called_def outcome_body_def status_code_def split: prod.splits disposition.splits)
qed

lemma unsent_failed: "\<not> sent env call \<Longrightarrow> co_Disposition (called env n call) = Failed"
  by (auto simp: sent_def called_def Execute_def split: option.splits)

lemma writeExisting_calls:
  assumes "writeExisting env s key ty rcd w = (answer, w')"
  shows "wd_calls w' = wd_calls w \<and> rp_Status answer \<noteq> StatusCreated"
  using assms
  by (auto simp: writeExisting_def resolveResult_def Let_def feed_def tick_def go_consts split: status.splits sum.splits if_splits)

lemma answer_claim_calls:
  assumes "answer_claim env s key req def res w = Some (answer, w')"
  shows "(wd_calls w' = wd_calls w \<and> rp_Status answer \<noteq> StatusCreated) \<or>
    (res_Verdict res \<in> {VerdictClaimed, VerdictSerialize} \<and>
     (\<exists>v. wd_db v = wd_db w \<and> wd_calls v = wd_calls w \<and> execute env s key req def res v = (answer, w')))"
proof (cases "res_Verdict res \<in> {VerdictClaimed, VerdictSerialize}")
  case True
  then have "execute env s key req def res (feed_if (1 < rec_AttemptCount (res_Record res))
      (MReclaimAttempts (rec_AttemptCount (res_Record res))) w) = (answer, w')"
    using assms by (auto simp: answer_claim_def)
  then show ?thesis using True db_steps(3) calls_steps(3) by blast
next
  case False
  have "wd_calls w' = wd_calls w \<and> rp_Status answer \<noteq> StatusCreated" if existing: "res_Verdict res = VerdictExisting"
  proof -
    obtain rcd w1 where a: "awaitCompletion env s (res_Record res) w = Some (rcd, w1)"
      and e: "writeExisting env s key (wq_ResourceType req) rcd w1 = (answer, w')"
      using assms unfolding answer_claim_def existing verdict.case by (auto split: bind_splits)
    show ?thesis using awaitCompletion_kept [OF a] writeExisting_calls [OF e] by (simp add: kept_def calls_kept_def)
  qed
  with False assms show ?thesis
    by (cases "res_Verdict res") (auto simp: answer_claim_def go_consts)
qed

lemma admit_Inr:
  assumes "admit env s r = Inr (key, req, def, creq)"
  shows "wq_AgentID req = TrimSpace (hr_Header r HeaderAgentID)"
    and "key = to_lower (en_lower env) (hr_Header r headerIdempotencyKey)" and "isUUID key"
    and "req_AgentID creq = wq_AgentID req" "req_Key creq = key" "req_Payload creq = wq_Payload req"
  using assms unfolding admit_def
  by (auto simp: Let_def readIdentity_def claim_request_def split: option.splits if_splits body_result.splits sum.splits)

lemma admit_status: "admit env s r = Inl answer \<Longrightarrow> rp_Status answer \<noteq> StatusCreated"
  by (auto simp: admit_def Let_def go_consts split: option.splits if_splits body_result.splits sum.splits)

text \<open>What the theorem says of a request that called: the call, and the claim it rests on.\<close>

definition called_once :: "env \<Rightarrow> http_request \<Rightarrow> world \<Rightarrow> world \<Rightarrow> response \<Rightarrow> bool" where
  "called_once env r w w' answer \<longleftrightarrow>
     (\<exists>call d n f now req before res.
       wd_calls w' = wd_calls w @ [(call, d)] \<and>
       cr_AgentID call = TrimSpace (hr_Header r HeaderAgentID) \<and>
       cr_Key call = to_lower (en_lower env) (hr_Header r headerIdempotencyKey) \<and>
       Claim f (en_pg env) now req before = (Inr res, d) \<and> res_Verdict res = VerdictClaimed \<and>
       req_AgentID req = cr_AgentID call \<and> req_Key req = cr_Key call \<and>
       status_of d (cr_AgentID call) (cr_Key call) = Some StatusPending \<and>
       rp_Status answer = status_code (co_Disposition (called env n call)))"

lemma execute_called_once:
  assumes "admit env s r = Inr (key, req, def, creq)" "execute env s key req def res v = (answer, w')"
    and "wd_calls v = wd_calls w" "wd_calls w' = wd_calls w \<Longrightarrow> rp_Status answer = StatusCreated"
    and "Claim f (en_pg env) now creq before = (Inr res, wd_db v)" "res_Verdict res = VerdictClaimed"
    and "db_inv (en_pg env) before"
  shows "called_once env r w w' answer"
proof -
  note ad = admit_Inr [OF assms(1)] note ex = execute_calls [OF assms(2)]
  have pending: "status_of (wd_db v) (req_AgentID creq) (req_Key creq) = Some StatusPending"
    using Claim_rows [OF assms(5,7)] assms(6) by (auto simp: status_of_def)
  have "sent env (downstream_request key req def)"
  proof (rule ccontr)
    assume no: "\<not> sent env (downstream_request key req def)"
    then have "rp_Status answer = StatusServiceUnavailable" using ex(2) unsent_failed by (simp add: status_code_def)
    with no assms(3,4) ex(1) show False by (simp add: go_consts)
  qed
  then show ?thesis
    unfolding called_once_def using ex pending assms(3,5,6) ad by (fastforce simp: downstream_request_def)
qed

lemma answer_called_once:
  assumes "admit env s r = Inr (key, req, def, creq)" "kept env w w1" "last_claim env creq (tick w) (Inr res, w1)"
    and "answer_claim env s key req def res (count_claim req res w1) = Some (answer, w')"
    and "respectful env" "sound env w"
  shows "(wd_calls w' = wd_calls w \<and> rp_Status answer \<noteq> StatusCreated) \<or> called_once env r w w' answer"
proof (rule disjCI)
  assume no: "\<not> called_once env r w w' answer"
  have fed: "wd_calls (count_claim req res w1) = wd_calls w" "wd_db (count_claim req res w1) = wd_db w1"
    using assms(2) by (simp_all add: count_claim_def kept_def calls_kept_def)
  show "wd_calls w' = wd_calls w \<and> rp_Status answer \<noteq> StatusCreated"
  proof (rule ccontr)
    assume sent: "\<not> (wd_calls w' = wd_calls w \<and> rp_Status answer \<noteq> StatusCreated)"
    then obtain v where v: "res_Verdict res \<in> {VerdictClaimed, VerdictSerialize}" "wd_db v = wd_db w1"
        "wd_calls v = wd_calls w" "execute env s key req def res v = (answer, w')"
      using answer_claim_calls [OF assms(4)] fed by auto
    then obtain u where u: "kept env w u" "claim_in env creq u = (Inr res, w1)" "res_Verdict res = VerdictClaimed"
      using assms(3) by (auto simp: last_claim_def)
    then obtain f now where cl: "Claim f (en_pg env) now creq (db_in env u) = (Inr res, wd_db v)"
      using v(2) by (auto simp: claim_in_def split: prod.splits)
    have "db_inv (en_pg env) (db_in env u)" using u(1) assms(5,6) sound_db_in by (simp add: kept_def)
    from execute_called_once [OF assms(1) v(4,3) _ cl u(3) this] sent no show False by blast
  qed
qed

text \<open>C3: The status of the answer tells what became of the write. A request hands at most one call to
  the transport, and only for the key of its header, under the caller's identity, in the state its own
  claim committed, in which the key is pending. It then answers 201 for a definitive response, 503 when
  nothing can have been executed and 502 otherwise. A request that sends nothing never answers 201.\<close>

theorem handleWrite_truthful:
  assumes "handleWrite env s r w = Some (answer, w')" "respectful env" "db_inv (en_pg env) (wd_db w)"
  shows "(wd_calls w' = wd_calls w \<and> rp_Status answer \<noteq> StatusCreated) \<or>
    (\<exists>call d n f now req before res.
       wd_calls w' = wd_calls w @ [(call, d)] \<and>
       cr_AgentID call = TrimSpace (hr_Header r HeaderAgentID) \<and>
       cr_Key call = to_lower (en_lower env) (hr_Header r headerIdempotencyKey) \<and>
       Claim f (en_pg env) now req before = (Inr res, d) \<and> res_Verdict res = VerdictClaimed \<and>
       req_AgentID req = cr_AgentID call \<and> req_Key req = cr_Key call \<and>
       status_of d (cr_AgentID call) (cr_Key call) = Some StatusPending \<and>
       rp_Status answer = status_code (co_Disposition (called env n call)))"
  unfolding called_once_def [symmetric]
proof (cases "admit env s r")
  case (Inl a)
  then show "(wd_calls w' = wd_calls w \<and> rp_Status answer \<noteq> StatusCreated) \<or> called_once env r w w' answer"
    using assms(1) admit_status [OF Inl] by (simp add: handleWrite_def)
next
  case (Inr a)
  obtain key req "def" creq where a: "a = (key, req, def, creq)" by (metis prod_cases4)
  obtain claimed w1 where c: "claimWithSerialization env s creq w = Some (claimed, w1)"
    using assms(1) by (auto simp: handleWrite_def Inr a split: bind_splits)
  have last: "kept env w w1" "last_claim env creq (tick w) (claimed, w1)"
    using claim_until_last [OF c [unfolded claimWithSerialization_def]] by simp_all
  show "(wd_calls w' = wd_calls w \<and> rp_Status answer \<noteq> StatusCreated) \<or> called_once env r w w' answer"
  proof (cases claimed)
    case (Inl e)
    then show ?thesis using assms(1) c last(1) by (auto simp: handleWrite_def Inr a go_consts kept_def calls_kept_def)
  next
    case res: (Inr res)
    have "answer_claim env s key req def res (count_claim req res w1) = Some (answer, w')"
      using assms(1) c res by (simp add: handleWrite_def Inr a)
    from answer_called_once [OF Inr [unfolded a] last(1) last(2) [unfolded res] this assms(2)] assms(3) show ?thesis
      by (simp add: sound_def)
  qed
qed

section \<open>Answers from the record\<close>

text \<open>
  The result a row stands for: the one it keeps, or the object its reference names, when there is an
  object store and the object is there and can be read.
\<close>

definition stored_result :: "object_faults \<Rightarrow> result_store option \<Rightarrow> bucket \<Rightarrow> key_row \<Rightarrow> bytes option" where
  "stored_result f results b row =
     (case k_result_ref row of
        Some (c # cs) \<Rightarrow>
          (case results of
             Some st \<Rightarrow> if rs_objects st \<and> \<not> of_get f \<and> \<not> of_read f then map_of b (c # cs) else None
           | None \<Rightarrow> None)
      | _ \<Rightarrow> Some (coalesce (k_result row)))"

text \<open>The answer a settled row determines, given its result.\<close>

definition recorded_answer :: "string \<Rightarrow> key_row \<Rightarrow> bytes option \<Rightarrow> response" where
  "recorded_answer key row found =
     (case k_status row of
        StatusDone \<Rightarrow>
          (case found of
             Some result \<Rightarrow> writeJSON StatusOK (JObject
               [(''idempotency_key'', JString key), (''status'', JString ''done''),
                (''result'', JRaw result), (''replayed'', JBool True)])
           | None \<Rightarrow> writeJSON StatusInternalServerError (JObject
               [(''idempotency_key'', JString key), (''status'', JString ''done''),
                (''reason'', JString ''result_unavailable''), (''retryable'', JBool True),
                (''detail'', JString (''The write completed and its outcome is recorded, but the stored result '' @
                  ''could not be read. Retrying the same key replays it and cannot re-execute.''))]))
      | StatusRejected \<Rightarrow>
          (case k_result row of
             Some (c # cs) \<Rightarrow> writeRaw StatusConflict (c # cs)
           | _ \<Rightarrow> writeProblem StatusConflict key ''conflicting_write'' (coalesce (k_outcome_detail row)))
      | _ \<Rightarrow> writeJSON StatusBadGateway (JObject
          [(''idempotency_key'', JString key), (''status'', JString ''indeterminate''),
           (''reason'', JString ''indeterminate_outcome''), (''retryable'', JBool False),
           (''detail'', JString ''The write may or may not have been applied. Do not retry this key.'')]))"

lemma stored_resolves:
  "stored_result f results b row =
     (case Resolve Client_Get results f (coalesce (k_result row)) (coalesce (k_result_ref row)) b of
        Inl _ \<Rightarrow> None | Inr result \<Rightarrow> Some result)"
  by (auto simp: stored_result_def Resolve_def Client_Get_def no_objects_def coalesce_def split: option.split list.split)

lemma writeExisting_recorded:
  assumes "settled (k_status row)"
  shows "\<exists>w'. writeExisting env s key ty (record_of_row row) w =
      (recorded_answer key row (stored_result (en_objects env (wd_seen w)) (sv_results s) (wd_bucket w) row), w') \<and>
    wd_calls w' = wd_calls w \<and> wd_db w' = wd_db w"
proof (cases "k_status row = StatusDone")
  case True
  let ?r = "Resolve Client_Get (sv_results s) (en_objects env (wd_seen w)) (coalesce (k_result row)) (coalesce (k_result_ref row)) (wd_bucket w)"
  show ?thesis using True
    by (cases ?r) (auto simp: stored_resolves writeExisting_def recorded_answer_def record_of_row_def resolveResult_def
        unavailable_body_def)
next
  case False
  then show ?thesis using assms
    by (cases "k_status row"; cases "k_result row")
       (auto simp: writeExisting_def recorded_answer_def record_of_row_def coalesce_def settled_def split: list.split)
qed

text \<open>C5: A settled key is answered from its record, and nothing is sent. When the row of the key is done,
  rejected or indeterminate, a request repeated under the key gets the answer the row determines: the
  stored result, whether the row keeps it or refers to an object, the stored refusal, or the advice not
  to retry. A result that cannot be read, because there is no object store, the store fails or the object
  is gone, is reported as such and not as a failure of the write. A request whose hash is not that of
  the row is refused as a mismatch, whatever the row says. In every case the database is left as it was
  found.\<close>

theorem handleWrite_replays:
  assumes "admit env s r = Inr (key, req, def, creq)" "healthy (en_faults env (Suc (wd_seen w)))"
    and "key_row_of (en_others env (Suc (wd_seen w)) (wd_db w)) (req_AgentID creq) key = Some row" "settled (k_status row)"
  shows "\<exists>w'. handleWrite env s r w = Some
      (if k_request_hash row = req_RequestHash creq
       then recorded_answer key row (stored_result (en_objects env (Suc (Suc (wd_seen w)))) (sv_results s) (wd_bucket w) row)
       else writeProblem StatusUnprocessableEntity key ''request_hash_mismatch''
              ''This key was previously used with a different request body.'', w') \<and>
    wd_calls w' = wd_calls w \<and> wd_db w' = en_others env (Suc (wd_seen w)) (wd_db w)"
proof -
  let ?d = "en_others env (Suc (wd_seen w)) (wd_db w)"
  let ?w1 = "(tick (tick w))\<lparr>wd_db := ?d\<rparr>"
  have key: "req_Key creq = key" using admit_Inr [OF assms(1)] by simp
  have d: "db_in env (tick w) = ?d" by (simp add: db_in_def)
  have pending: "k_status row \<noteq> StatusFailed" "k_status row \<noteq> StatusPending" using assms(4) by (auto simp: settled_def)
  have claimed: "claimWithSerialization env s creq w = Some (Inr res, ?w1)"
    if "claim_in env creq (tick w) = (Inr res, ?w1)" "res_Verdict res \<noteq> VerdictSerialize" for res
    using that unfolding claimWithSerialization_def by (subst claim_until.simps) simp
  show ?thesis
  proof (cases "k_request_hash row = req_RequestHash creq")
    case True
    obtain res where res: "claim_in env creq (tick w) = (Inr res, ?w1)"
        "res_Verdict res = VerdictExisting" "res_Record res = record_of_row row"
      using Claim_existing [OF assms(2), of ?d creq row "en_pg env" "now_in env (tick w)"] assms(3) True pending
      by (auto simp: claim_in_def d key)
    define w2 where "w2 = count_claim req res ?w1"
    have w2: "wd_calls w2 = wd_calls w" "wd_db w2 = ?d" "wd_seen w2 = Suc (Suc (wd_seen w))" "wd_bucket w2 = wd_bucket w"
      by (simp_all add: w2_def count_claim_def feed_def feed_if_def tick_def)
    have "awaitCompletion env s (record_of_row row) w2 = Some (record_of_row row, w2)"
      using pending by (simp add: awaitCompletion_def record_of_row_def)
    moreover obtain w' where "writeExisting env s key (wq_ResourceType req) (record_of_row row) w2 =
        (recorded_answer key row (stored_result (en_objects env (Suc (Suc (wd_seen w)))) (sv_results s) (wd_bucket w) row), w')"
        "wd_calls w' = wd_calls w" "wd_db w' = ?d"
      using writeExisting_recorded [OF assms(4), of env s key "wq_ResourceType req" w2] unfolding w2 by blast
    ultimately show ?thesis
      using claimed [OF res(1)] True by (simp add: handleWrite_def assms(1) answer_claim_def res flip: w2_def)
  next
    case False
    obtain res where res: "claim_in env creq (tick w) = (Inr res, ?w1)" "res_Verdict res = VerdictMismatch"
      using Claim_mismatch [OF assms(2), of ?d creq row "en_pg env" "now_in env (tick w)"] assms(3) False
      by (auto simp: claim_in_def d key)
    then show ?thesis using claimed [OF res(1)] False
      by (simp add: handleWrite_def assms(1) answer_claim_def count_claim_def feed_def)
  qed
qed

section \<open>An example\<close>

text \<open>A write of a charge on a fresh deployment, whose downstream answers 200.\<close>

definition demo_key :: string where
  "demo_key = ''0190a000-0000-7000-8000-00000000000a''"

definition demo_write :: writeRequest where
  "demo_write = \<lparr>wq_AgentID = ''billing-agent'', wq_ResourceType = ''invoice'', wq_ResourceID = ''inv-1'',
     wq_Operation = ''create_charge'', wq_Payload = ''{}''\<rparr>"

definition demo_post :: http_request where
  "demo_post = \<lparr>hr_Path = ''/v1/writes'',
     hr_Header = (\<lambda>_. [])(HeaderAgentID := '' billing-agent'', HeaderRole := ''agent'',
       headerIdempotencyKey := ''0190A000-0000-7000-8000-00000000000A''),
     hr_PathValue = (\<lambda>_. []), hr_Query = [],
     hr_Body = marshal (JObject [(''agent_id'', JString ''billing-agent''), (''resource_type'', JString ''invoice''),
       (''resource_id'', JString ''inv-1''), (''operation'', JString ''create_charge''), (''payload'', JRaw ''{}'')]),
     hr_BodyError = None\<rparr>"

definition demo_server :: server where
  "demo_server = \<lparr>sv_cfg = default_config, sv_manifests = \<lparr>store_current = shipped_snapshot\<rparr>, sv_results = None\<rparr>"

definition demo_env :: env where
  "demo_env = \<lparr>en_pg = pg0, en_now = int, en_others = (\<lambda>_ d. d), en_faults = (\<lambda>_. no_faults),
     en_objects = (\<lambda>_. ok_objects), en_done = (\<lambda>_. False), en_exchange = (\<lambda>_ _. Response 200 ''{}''),
     en_build_error = None, en_texts = \<lparr>jt_syntax = [], jt_encode = []\<rparr>, en_lower = (\<lambda>s. s), en_transform = Inr\<rparr>"

definition demo_world :: "db \<Rightarrow> world" where
  "demo_world d = \<lparr>wd_seen = 0, wd_db = d, wd_bucket = [], wd_latency = NewTracker, wd_metrics = [],
     wd_calls = [], wd_slept = 0\<rparr>"

definition invoice_def :: mdefinition where
  "invoice_def = doc_definition invoice_manifest"

definition demo_claim :: "string \<Rightarrow> request" where
  "demo_claim hash = claim_request demo_server demo_key demo_write hash invoice_def \<lparr>op_Class = ''create'', op_Scope = None\<rparr>"

lemma demo_hash: "\<exists>hash. Hash (en_transform demo_env) (en_texts demo_env)
  \<lparr>cq_AgentID = wq_AgentID demo_write, cq_Operation = wq_Operation demo_write, cq_Payload = wq_Payload demo_write,
   cq_ResourceID = wq_ResourceID demo_write, cq_ResourceType = wq_ResourceType demo_write\<rparr> = Inr hash"
proof -
  have "validateNumbers e ''{}'' = None" for e by code_simp
  moreover have "Valid ''{}''" by code_simp
  ultimately show ?thesis by (simp add: Hash_def Canonicalize_def demo_env_def demo_write_def Let_def)
qed

lemma demo_admitted: "\<exists>hash. admit demo_env demo_server demo_post = Inr (demo_key, demo_write, invoice_def, demo_claim hash)"
proof -
  have "readIdentity demo_post = Some \<lparr>id_AgentID = ''billing-agent'', id_Role = ''agent''\<rparr>" by code_simp
  moreover have "to_lower f (hr_Header demo_post headerIdempotencyKey) = demo_key" for f by code_simp
  moreover have "isUUID demo_key" by code_simp
  moreover have "decode_body 262144 decode_write zero_write (hr_Body demo_post) (hr_BodyError demo_post) = Decoded demo_write"
    by code_simp
  moreover have "PayloadBytes (sv_cfg demo_server) = 262144" by (simp add: demo_server_def default_config_def)
  moreover have "lookupOperation (Current (sv_manifests demo_server)) (wq_ResourceType demo_write) (wq_Operation demo_write) =
      Some (invoice_def, \<lparr>op_Class = ''create'', op_Scope = None\<rparr>)"
    by (simp add: lookupOperation_def demo_server_def Current_def Snapshot_Lookup_def shipped_snapshot_def
        demo_write_def invoice_def_def doc_definition_def invoice_manifest_def)
  moreover obtain hash where "Hash (en_transform demo_env) (en_texts demo_env)
      \<lparr>cq_AgentID = wq_AgentID demo_write, cq_Operation = wq_Operation demo_write, cq_Payload = wq_Payload demo_write,
       cq_ResourceID = wq_ResourceID demo_write, cq_ResourceType = wq_ResourceType demo_write\<rparr> = Inr hash"
    using demo_hash by blast
  ultimately show ?thesis
    by (intro exI [of _ hash]) (simp add: admit_def Let_def demo_claim_def RoleAgent_def, simp add: demo_write_def)
qed

lemma demo_calm: "passes demo_env" "respectful demo_env"
proof -
  show "passes demo_env"
    unfolding passes_def demo_env_def by (auto intro!: exI [of _ "nat _"] simp: nat_le_iff)
  show "respectful demo_env" by (simp add: respectful_def demo_env_def)
qed

theorem handleWrite_returns_witness:
  "\<exists>answer w'. handleWrite demo_env demo_server demo_post (demo_world empty_db) = Some (answer, w')"
  by (rule handleWrite_returns [OF demo_calm(1)])

lemma demo_claimed:
  "\<exists>res w1. claimWithSerialization demo_env demo_server (demo_claim hash) (demo_world empty_db) = Some (Inr res, w1) \<and>
     res_Verdict res = VerdictClaimed"
proof -
  have "case Claim no_faults pg0 1
      \<lparr>req_AgentID = ''billing-agent'', req_Key = demo_key, req_RequestHash = hash, req_ResourceType = ''invoice'',
       req_ResourceID = ''inv-1'', req_Operation = ''create_charge'', req_Declared = \<lparr>op_Class = ''create'', op_Scope = None\<rparr>,
       req_Payload = ''{}'', req_Window = 5000000000, req_Enforce = False, req_ManifestVersion = version, req_LockTimeout = lock\<rparr>
      empty_db of (Inr res, d) \<Rightarrow> res_Verdict res = VerdictClaimed | _ \<Rightarrow> False" for version lock
    by code_simp
  moreover have "def_ConflictWindow invoice_def = 5000000000" "\<not> def_Enforce invoice_def" by code_simp+
  ultimately have "case Claim no_faults pg0 1 (demo_claim hash) empty_db of (Inr res, d) \<Rightarrow> res_Verdict res = VerdictClaimed | _ \<Rightarrow> False"
    by (simp add: demo_claim_def claim_request_def demo_write_def)
  then obtain res d where "Claim no_faults pg0 1 (demo_claim hash) empty_db = (Inr res, d)" "res_Verdict res = VerdictClaimed"
    by (auto split: prod.splits sum.splits)
  then show ?thesis
    unfolding claimWithSerialization_def
    by (subst claim_until.simps) (simp add: claim_in_def now_in_def db_in_def demo_env_def demo_world_def)
qed

theorem handleWrite_truthful_witness:
  "\<exists>answer w'. handleWrite demo_env demo_server demo_post (demo_world empty_db) = Some (answer, w') \<and>
     rp_Status answer = 201 \<and> length (wd_calls w') = 1"
proof -
  obtain hash where ad: "admit demo_env demo_server demo_post = Inr (demo_key, demo_write, invoice_def, demo_claim hash)"
    using demo_admitted by blast
  obtain res w1 where cl: "claimWithSerialization demo_env demo_server (demo_claim hash) (demo_world empty_db) = Some (Inr res, w1)"
      "res_Verdict res = VerdictClaimed" using demo_claimed by blast
  obtain v where "answer_claim demo_env demo_server demo_key demo_write invoice_def res (count_claim demo_write res w1) =
      Some (execute demo_env demo_server demo_key demo_write invoice_def res v)"
    by (simp add: answer_claim_def cl(2))
  then obtain answer w' where run: "handleWrite demo_env demo_server demo_post (demo_world empty_db) = Some (answer, w')"
      and ex: "execute demo_env demo_server demo_key demo_write invoice_def res v = (answer, w')"
    by (cases "execute demo_env demo_server demo_key demo_write invoice_def res v") (simp add: handleWrite_def ad cl(1))
  have "Valid ''{}''" "IsDefinitive (def_Errors invoice_def) 200" by code_simp+
  then have "co_Disposition (called demo_env n (downstream_request demo_key demo_write invoice_def)) = Done" for n
    by (simp add: called_def Execute_def demo_env_def downstream_request_def demo_write_def classifyResponse_def)
  then have created: "rp_Status answer = StatusCreated" using execute_calls(2) [OF ex] by (simp add: status_code_def)
  have "wd_calls (demo_world empty_db) = []" by (simp add: demo_world_def)
  with handleWrite_truthful [OF run demo_calm(2)] created have "length (wd_calls w') = 1"
    by (auto simp: demo_world_def demo_env_def pg0_inv)
  with run created show ?thesis by (auto simp: StatusCreated_def)
qed

definition kept_server :: server where
  "kept_server = demo_server\<lparr>sv_results := Some (NewWith 1)\<rparr>"

theorem handleWrite_replays_witness:
  "\<exists>row w'. k_status row = StatusDone \<and> k_result_ref row = Some ''results/r.json'' \<and>
     handleWrite demo_env kept_server demo_post
       ((demo_world (empty_db\<lparr>idempotency_keys := [row]\<rparr>))\<lparr>wd_bucket := [(''results/r.json'', ''{}'')]\<rparr>) =
       Some (recorded_answer demo_key row (Some ''{}''), w') \<and> wd_calls w' = []"
proof -
  obtain hash where ad: "admit demo_env demo_server demo_post = Inr (demo_key, demo_write, invoice_def, demo_claim hash)"
    using demo_admitted by blast
  have sv: "sv_cfg kept_server = sv_cfg demo_server" "sv_manifests kept_server = sv_manifests demo_server"
    by (simp_all add: kept_server_def)
  then have "claim_request kept_server = claim_request demo_server" by (intro ext) (simp add: claim_request_def)
  then have "admit demo_env kept_server demo_post = admit demo_env demo_server demo_post" unfolding admit_def sv by (rule ssubst) (rule refl)
  with ad have ad': "admit demo_env kept_server demo_post = Inr (demo_key, demo_write, invoice_def, demo_claim hash)" by simp
  define row where "row = \<lparr>k_agent_id = ''billing-agent'', k_idempotency_key = demo_key, k_request_hash = hash,
    k_status = StatusDone, k_resource_type = ''invoice'', k_resource_id = ''inv-1'', k_operation = ''create_charge'',
    k_result = None, k_result_ref = Some ''results/r.json'', k_outcome_detail = None, k_attempt_count = 1, k_created_at = 0,
    k_claimed_at = 0, k_completed_at = Some 0\<rparr>"
  let ?w = "(demo_world (empty_db\<lparr>idempotency_keys := [row]\<rparr>))\<lparr>wd_bucket := [(''results/r.json'', ''{}'')]\<rparr>"
  have "key_row_of (en_others demo_env (Suc (wd_seen ?w)) (wd_db ?w)) (req_AgentID (demo_claim hash)) demo_key = Some row"
    by (simp add: demo_env_def demo_world_def demo_claim_def claim_request_def demo_write_def key_row_of_def row_def key_is_def)
  moreover have "healthy (en_faults demo_env (Suc (wd_seen ?w)))" by (simp add: demo_env_def healthy_def no_faults_def)
  moreover have row: "k_request_hash row = req_RequestHash (demo_claim hash)" "settled (k_status row)" "k_status row = StatusDone"
      "k_result_ref row = Some ''results/r.json''"
    by (simp_all add: row_def demo_claim_def claim_request_def settled_def)
  moreover have "stored_result (en_objects demo_env n) (sv_results kept_server) (wd_bucket ?w) row = Some ''{}''" for n
    by (simp add: stored_result_def row(4) kept_server_def NewWith_def demo_env_def ok_objects_def)
  moreover have "wd_calls ?w = []" by (simp add: demo_world_def)
  ultimately show ?thesis using handleWrite_replays [OF ad', of ?w row] by auto
qed

end
