(* ===== verification/Calendar.thy ===== *)
theory Calendar
  imports Json_Parse
begin

text \<open>
  The part of Go's \<open>time\<close> package the program uses on calendar dates: the civil date of a point in
  time (nanoseconds since 1970, UTC), \<open>AddDate\<close>, the layouts \<open>RFC3339\<close>, \<open>RFC3339Nano\<close>,
  \<open>20060102\<close> and \<open>200601\<close>, and \<open>time.Parse\<close> with the first two, which accept the same
  texts. Parsing inverts formatting for the years that have four digits.
\<close>

section \<open>Days\<close>

definition leap :: "int \<Rightarrow> bool" where
  "leap y \<longleftrightarrow> 4 dvd y \<and> (\<not> 100 dvd y \<or> 400 dvd y)"

text \<open>The number of the first day of a year, counted from 1970.\<close>

definition year_start :: "int \<Rightarrow> int" where
  "year_start y = 365 * (y - 1970) + ((y - 1) div 4 - (y - 1) div 100 + (y - 1) div 400) - 477"

definition month_lengths :: "int \<Rightarrow> int list" where
  "month_lengths y = [31, if leap y then 29 else 28, 31, 30, 31, 30, 31, 31, 30, 31, 30, 31]"

lemma length_month_lengths [simp]: "length (month_lengths y) = 12"
  by (simp add: month_lengths_def)

definition day_number :: "int \<Rightarrow> int \<Rightarrow> int \<Rightarrow> int" where
  "day_number y m d = year_start y + sum_list (take (nat (m - 1)) (month_lengths y)) + (d - 1)"

lemma div_step:
  assumes "0 < (k::int)"
  shows "y div k = (y - 1) div k + (if k dvd y then 1 else 0)"
proof -
  have y: "y = y div k * k + y mod k" by simp
  show ?thesis
  proof (cases "k dvd y")
    case True
    then have "y - 1 = (y div k - 1) * k + (k - 1)" by (simp add: algebra_simps)
    then have "(y - 1) div k = y div k - 1" using assms by (metis div_mult_self3 div_pos_pos_trivial add.commute add_0_right
      diff_add_cancel diff_ge_0_iff_ge int_one_le_iff_zero_less less_add_one less_le)
    with True show ?thesis by simp
  next
    case False
    then have "0 < y mod k" using assms by (simp add: dvd_eq_mod_eq_0 order_less_le)
    then have "(y - 1) div k = y div k"
      using assms pos_mod_bound [OF assms, of y] y by (intro int_div_pos_eq [of _ _ _ "y mod k - 1"]) (simp_all add: mult.commute)
    with False show ?thesis by simp
  qed
qed

lemma leap_flags:
  assumes "a = a' + (if b4 then 1 else 0)" "b = b' + (if b100 then 1 else 0)" "c = c' + (if b400 then 1 else 0 :: int)"
    and "b400 \<Longrightarrow> b100" "b100 \<Longrightarrow> b4"
  shows "365 * (y + 1 - 1970) + (a - b + c) - 477 =
    365 * (y - 1970) + (a' - b' + c') - 477 + (if b4 \<and> (\<not> b100 \<or> b400) then 366 else 365)"
  using assms by (cases b4; cases b100; cases b400) simp_all

lemma year_start_Suc: "year_start (y + 1) = year_start y + (if leap y then 366 else 365)"
proof -
  have "(4::int) dvd 100" "(100::int) dvd 400" by simp_all
  then have "400 dvd y \<Longrightarrow> 100 dvd y" "100 dvd y \<Longrightarrow> 4 dvd y" using dvd_trans by blast+
  from leap_flags [OF div_step [of 4 y] div_step [of 100 y] div_step [of 400 y] this] show ?thesis
    by (simp only: year_start_def leap_def add_diff_cancel_right' zero_less_numeral)
qed

lemma sum_month_lengths: "sum_list (month_lengths y) = year_start (y + 1) - year_start y"
  by (simp add: month_lengths_def year_start_Suc)

lemma year_start_mono: "a \<le> b \<Longrightarrow> year_start a + 365 * (b - a) \<le> year_start b \<and> year_start b \<le> year_start a + 366 * (b - a)"
proof (induction "nat (b - a)" arbitrary: b)
  case (Suc n)
  then have "year_start a + 365 * (b - 1 - a) \<le> year_start (b - 1) \<and> year_start (b - 1) \<le> year_start a + 366 * (b - 1 - a)"
    by (intro Suc) simp_all
  with year_start_Suc [of "b - 1"] show ?case by (auto split: if_splits)
qed simp

text \<open>The year a day falls in, searched from an estimate that is not too late.\<close>

function year_from :: "int \<Rightarrow> int \<Rightarrow> int" where
  "year_from n y = (if year_start (y + 1) \<le> n then year_from n (y + 1) else y)"
  by pat_completeness auto
termination
proof (relation "measure (\<lambda>(n, y). nat (n - year_start y + 1))")
  show "((n, y + 1), (n, y)) \<in> measure (\<lambda>(n, y). nat (n - year_start y + 1))" if "year_start (y + 1) \<le> n" for n y
    using that by (auto simp: year_start_Suc split: if_splits)
qed simp

declare year_from.simps [simp del]

definition year_of :: "int \<Rightarrow> int" where
  "year_of n = year_from n (1970 + (if 0 \<le> n then n div 366 else n div 365))"

lemma year_from_bounds: "year_start y \<le> n \<Longrightarrow> year_start (year_from n y) \<le> n \<and> n < year_start (year_from n y + 1)"
proof (induction n y rule: year_from.induct)
  case (1 n y)
  show ?case
  proof (cases "year_start (y + 1) \<le> n")
    case True
    with 1(1) [OF True True] show ?thesis by (simp add: year_from.simps [of n y])
  next
    case False
    with 1(2) show ?thesis by (simp add: year_from.simps [of n y])
  qed
qed

lemma year_of_bounds: "year_start (year_of n) \<le> n" "n < year_start (year_of n + 1)"
proof -
  have "year_start (1970 + (if 0 \<le> n then n div 366 else n div 365)) \<le> n"
  proof (cases "0 \<le> n")
    case True
    then have "year_start (1970 + n div 366) \<le> 366 * (n div 366)"
      using year_start_mono [of 1970 "1970 + n div 366"] by (simp add: year_start_def pos_imp_zdiv_nonneg_iff)
    also have "366 * (n div 366) \<le> n" using minus_mod_eq_mult_div [of n 366] pos_mod_sign [of 366 n] by linarith
    finally show ?thesis using True by simp
  next
    case False
    then have "n div 365 \<le> 0" by (simp add: div_int_pos_iff zdiv_mono1 [of n 0 365, simplified])
    then have "year_start (1970 + n div 365) \<le> 365 * (n div 365)"
      using year_start_mono [of "1970 + n div 365" 1970] by (simp add: year_start_def)
    also have "365 * (n div 365) \<le> n" using minus_mod_eq_mult_div [of n 365] pos_mod_sign [of 365 n] by linarith
    finally show ?thesis using False by simp
  qed
  then show "year_start (year_of n) \<le> n" "n < year_start (year_of n + 1)"
    unfolding year_of_def using year_from_bounds by blast+
qed

fun month_day :: "int \<Rightarrow> int list \<Rightarrow> int \<Rightarrow> int \<times> int" where
  "month_day m [] d = (m, d + 1)"
| "month_day m (l # ls) d = (if d < l then (m, d + 1) else month_day (m + 1) ls (d - l))"

definition civil :: "int \<Rightarrow> int \<times> int \<times> int" where
  "civil n =
     (let y = year_of n; (m, d) = month_day 1 (month_lengths y) (n - year_start y) in (y, m, d))"

lemma month_day_sound:
  assumes "0 \<le> d" "d < sum_list ls" "month_day m ls d = (m', d')"
  shows "m \<le> m' \<and> m' < m + int (length ls) \<and> sum_list (take (nat (m' - m)) ls) + (d' - 1) = d \<and>
    1 \<le> d' \<and> d' \<le> ls ! nat (m' - m)"
  using assms
proof (induction m ls d arbitrary: m' d' rule: month_day.induct)
  case (2 m l ls d)
  show ?case
  proof (cases "d < l")
    case False
    with 2 have "m + 1 \<le> m' \<and> m' < m + 1 + int (length ls) \<and> sum_list (take (nat (m' - (m + 1))) ls) + (d' - 1) = d - l \<and>
        1 \<le> d' \<and> d' \<le> ls ! nat (m' - (m + 1))" by simp
    moreover from this have "nat (m' - m) = Suc (nat (m' - (m + 1)))" by linarith
    ultimately show ?thesis by auto
  qed (use 2 in auto)
qed simp

definition days_in :: "int \<Rightarrow> int \<Rightarrow> int" where
  "days_in y m = month_lengths y ! nat (m - 1)"

definition valid_date :: "int \<Rightarrow> int \<Rightarrow> int \<Rightarrow> bool" where
  "valid_date y m d \<longleftrightarrow> 1 \<le> m \<and> m \<le> 12 \<and> 1 \<le> d \<and> d \<le> days_in y m"

lemma civil_sound:
  assumes "civil n = (y, m, d)"
  shows "day_number y m d = n \<and> valid_date y m d"
proof -
  have y: "y = year_of n" and md: "month_day 1 (month_lengths y) (n - year_start y) = (m, d)"
    using assms by (auto simp: civil_def Let_def split: prod.splits)
  have "0 \<le> n - year_start y" "n - year_start y < sum_list (month_lengths y)"
    using year_of_bounds [of n] by (simp_all add: y sum_month_lengths)
  from month_day_sound [OF this md] show ?thesis
    by (simp add: day_number_def valid_date_def days_in_def)
qed

section \<open>Points in time\<close>

definition date_of :: "time \<Rightarrow> int \<times> int \<times> int" where
  "date_of t = civil (t div Day)"

definition year_number :: "time \<Rightarrow> int" where
  "year_number t = fst (date_of t)"

definition at_date :: "int \<Rightarrow> int \<Rightarrow> int \<Rightarrow> time \<Rightarrow> time" where
  "at_date y m d clock = day_number y m d * Day + clock"

text \<open>\<open>AddDate(0, months, days)\<close>: months past the twelfth carry into the year, days past the last
  into the next month.\<close>

definition AddDate :: "int \<Rightarrow> int \<Rightarrow> time \<Rightarrow> time" where
  "AddDate months days t =
     (let (y, m, d) = date_of t; k = m - 1 + months in
      at_date (y + k div 12) (k mod 12 + 1) (d + days) (t mod Day))"

lemma Day_value: "Day = 86400000000000"
  by (simp add: go_consts)

lemma AddDate_days: "AddDate 0 k t = t + k * Day"
proof -
  obtain y m d where c: "date_of t = (y, m, d)" by (metis prod_cases3)
  have "day_number y m d = t div Day" "valid_date y m d" using civil_sound [of "t div Day" y m d] c by (simp_all add: date_of_def)
  moreover from this have "(m - 1) div 12 = 0" "(m - 1) mod 12 = m - 1" by (simp_all add: valid_date_def div_pos_pos_trivial mod_pos_pos_trivial)
  moreover have "day_number y m (d + k) = day_number y m d + k" by (simp add: day_number_def)
  ultimately have "AddDate 0 k t = (t div Day + k) * Day + t mod Day"
    by (simp add: AddDate_def c at_date_def)
  then show ?thesis by (simp add: distrib_right)
qed

lemma date_sound:
  "date_of t = (y, m, d) \<Longrightarrow> day_number y m d = t div Day" "date_of t = (y, m, d) \<Longrightarrow> valid_date y m d"
  using civil_sound [of "t div Day" y m d] by (simp_all add: date_of_def)

lemma days_in_bounds:
  assumes "valid_date y m d"
  shows "28 \<le> days_in y m" "days_in y m \<le> 31"
proof -
  have "nat (m - 1) < length (month_lengths y)" using assms by (auto simp: valid_date_def)
  then have "days_in y m \<in> set (month_lengths y)" by (simp add: days_in_def)
  then show "28 \<le> days_in y m" "days_in y m \<le> 31" by (auto simp: month_lengths_def split: if_splits)
qed

lemma next_month_day:
  assumes "valid_date y m d"
  shows "day_number (y + m div 12) (m mod 12 + 1) d = day_number y m d + days_in y m"
proof (cases "m = 12")
  case True
  have "sum_list (take 11 (month_lengths y)) + days_in y 12 = year_start (y + 1) - year_start y"
    unfolding sum_month_lengths [symmetric] by (simp add: month_lengths_def days_in_def)
  then show ?thesis by (simp add: True day_number_def)
next
  case False
  then have "1 \<le> m" "m < 12" using assms by (simp_all add: valid_date_def)
  moreover from this have "nat m = Suc (nat (m - 1))" by linarith
  moreover have "nat (m - 1) < length (month_lengths y)" using calculation by simp
  moreover have "m div 12 = 0" "m mod 12 = m" using calculation by simp_all
  ultimately show ?thesis by (simp add: day_number_def take_Suc_conv_app_nth days_in_def)
qed

lemma AddDate_month:
  assumes "date_of t = (y, m, d)"
  shows "AddDate 1 0 t = t + days_in y m * Day"
proof -
  have "AddDate 1 0 t = (t div Day + days_in y m) * Day + t mod Day"
    by (simp add: AddDate_def assms at_date_def next_month_day [OF date_sound(2) [OF assms]] date_sound(1) [OF assms])
  then show ?thesis by (simp add: distrib_right)
qed

text \<open>A month, or a day, that has passed is not the current one.\<close>

lemma div_Day_add: "(t + k * Day) div Day = t div Day + k"
  by (simp add: Day_value)

lemma month_left:
  assumes "date_of t = (y, m, d)" "t + days_in y m * Day \<le> t'" "date_of t' = (y', m', d')"
  shows "(y', m') \<noteq> (y, m)"
proof
  assume eq: "(y', m') = (y, m)"
  have "t div Day + days_in y m \<le> t' div Day"
    using zdiv_mono1 [OF assms(2), of Day] by (simp add: div_Day_add) (simp add: Day_value)
  moreover have "d' \<le> days_in y m" "1 \<le> d" using date_sound(2) [OF assms(1)] date_sound(2) [OF assms(3)] eq
    by (simp_all add: valid_date_def)
  ultimately show False
    using date_sound(1) [OF assms(1)] date_sound(1) [OF assms(3)] eq by (simp add: day_number_def)
qed

lemma day_left:
  assumes "t + Day \<le> t'"
  shows "date_of t \<noteq> date_of t'"
proof
  assume eq: "date_of t = date_of t'"
  obtain y m d where c: "date_of t = (y, m, d)" by (metis prod_cases3)
  have "t div Day + 1 \<le> t' div Day"
    using zdiv_mono1 [OF assms, of Day] div_Day_add [of t 1] by (simp add: Day_value)
  with date_sound(1) [OF c] date_sound(1) [OF c [unfolded eq]] show False by simp
qed

text \<open>From 1970 to the last year with four digits.\<close>

definition four_digit_years :: "time \<Rightarrow> bool" where
  "four_digit_years t \<longleftrightarrow> 0 \<le> t \<and> t < 2932897 * Day"

lemma four_digit_years:
  assumes "four_digit_years t"
  shows "0 \<le> year_number t" "year_number t < 10000"
proof -
  define n where "n = t div Day"
  have y: "year_number t = year_of n" by (simp add: year_number_def date_of_def civil_def n_def Let_def split: prod.split)
  have t: "t = n * Day + t mod Day" "0 \<le> t mod Day" "t mod Day < Day" by (simp_all add: n_def Day_value)
  have n: "0 \<le> n" "n < 2932897" using assms t unfolding four_digit_years_def Day_value by linarith+
  have "year_start 10000 = 2932897" "year_start 0 \<le> 0" by (simp_all add: year_start_def)
  then show "0 \<le> year_number t" "year_number t < 10000"
    using year_of_bounds [of n] year_start_mono [of "year_of n + 1" 0] year_start_mono [of 10000 "year_of n"] n y by linarith+
qed

section \<open>Layouts\<close>

text \<open>The last digits of a number, with leading zeros.\<close>

fun pad :: "nat \<Rightarrow> nat \<Rightarrow> string" where
  "pad 0 n = []"
| "pad (Suc w) n = pad w (n div 10) @ [char_of (48 + n mod 10)]"

definition year_text :: "int \<Rightarrow> string" where
  "year_text y = (if 0 \<le> y \<and> y < 10000 then pad 4 (nat y) else if y < 0 then ''-'' @ pad 4 (nat (- y)) else Itoa y)"

definition trim_zeros :: "string \<Rightarrow> string" where
  "trim_zeros s = rev (dropWhile (\<lambda>c. c = CHR ''0'') (rev s))"

definition nano_text :: "nat \<Rightarrow> string" where
  "nano_text ns = (if ns = 0 then [] else CHR ''.'' # trim_zeros (pad 9 ns))"

definition clock_text :: "time \<Rightarrow> string" where
  "clock_text c =
     pad 2 (nat (c div Hour)) @ '':'' @ pad 2 (nat (c div Minute mod 60)) @ '':'' @ pad 2 (nat (c div Second mod 60))"

definition date_text :: "time \<Rightarrow> string \<Rightarrow> string" where
  "date_text t sep = (let (y, m, d) = date_of t in year_text y @ sep @ pad 2 (nat m) @ sep @ pad 2 (nat d))"

definition Format_RFC3339 :: "time \<Rightarrow> string" where
  "Format_RFC3339 t = date_text t ''-'' @ ''T'' @ clock_text (t mod Day) @ ''Z''"

definition Format_RFC3339Nano :: "time \<Rightarrow> string" where
  "Format_RFC3339Nano t =
     date_text t ''-'' @ ''T'' @ clock_text (t mod Day) @ nano_text (nat (t mod Second)) @ ''Z''"

definition Format_day :: "time \<Rightarrow> string" where
  "Format_day t = date_text t []"

definition Format_month :: "time \<Rightarrow> string" where
  "Format_month t = (let (y, m, d) = date_of t in year_text y @ pad 2 (nat m))"

text \<open>\<open>Duration.String\<close> and \<open>Duration.Round\<close>; the fraction carries no trailing zeros.\<close>

definition frac_text :: "nat \<Rightarrow> nat \<Rightarrow> string" where
  "frac_text w n = (let ds = trim_zeros (pad w n) in if ds = [] then [] else CHR ''.'' # ds)"

definition Duration_String :: "duration \<Rightarrow> string" where
  "Duration_String d =
     (let u = nat \<bar>d\<bar>; s = u div 1000000000 in
      (if d < 0 then ''-'' else []) @
      (if u = 0 then ''0s''
       else if u < 1000 then decimal u @ ''ns''
       else if u < 1000000 then decimal (u div 1000) @ frac_text 3 u @ [CHR 194, CHR 181, CHR ''s'']
       else if u < 1000000000 then decimal (u div 1000000) @ frac_text 6 u @ ''ms''
       else (if 3600 \<le> s then decimal (s div 3600) @ ''h'' else []) @
            (if 60 \<le> s then decimal (s div 60 mod 60) @ ''m'' else []) @
            decimal (s mod 60) @ frac_text 9 u @ ''s''))"

definition Duration_Round :: "duration \<Rightarrow> duration \<Rightarrow> duration" where
  "Duration_Round d m = (let r = d mod m in if 2 * r < m then d - r else d + m - r)"

section \<open>Parsing\<close>

text \<open>Two digits, or one where the layout does not fix the width; exactly four for the year.\<close>

definition getnum :: "bool \<Rightarrow> string \<Rightarrow> (int \<times> string) option" where
  "getnum fixed s =
     (case s of
        a # b # r \<Rightarrow>
          if is_digit a \<and> is_digit b then Some (digits_value [a, b], r)
          else if is_digit a \<and> \<not> fixed then Some (digits_value [a], b # r) else None
      | [a] \<Rightarrow> if is_digit a \<and> \<not> fixed then Some (digits_value [a], []) else None
      | [] \<Rightarrow> None)"

definition getyear :: "string \<Rightarrow> (int \<times> string) option" where
  "getyear s = (if 4 \<le> length s \<and> list_all is_digit (take 4 s) then Some (digits_value (take 4 s), drop 4 s) else None)"

definition expect :: "char \<Rightarrow> string \<Rightarrow> string option" where
  "expect c s = (case s of x # r \<Rightarrow> if x = c then Some r else None | [] \<Rightarrow> None)"

text \<open>A fraction of a second may follow in either layout, after a point or a comma; nine digits count.\<close>

definition getfraction :: "string \<Rightarrow> int \<times> string" where
  "getfraction s =
     (case s of
        c # d # r \<Rightarrow>
          if (c = CHR ''.'' \<or> c = CHR '','') \<and> is_digit d
          then let ds = takeWhile is_digit (d # r); nine = take 9 ds in
            (digits_value nine * 10 ^ (9 - length nine), dropWhile is_digit (d # r))
          else (0, s)
      | _ \<Rightarrow> (0, s))"

definition getzone :: "string \<Rightarrow> (time \<times> string) option" where
  "getzone s =
     (case s of
        [] \<Rightarrow> None
      | c # r \<Rightarrow>
          if c = CHR ''Z'' then Some (0, r)
          else if (c = CHR ''+'' \<or> c = CHR ''-'') \<and> 5 \<le> length r \<and> r ! 2 = CHR '':'' then
            (case (getnum True (take 2 r), getnum True (drop 3 (take 5 r))) of
               (Some (h, _), Some (m, _)) \<Rightarrow>
                 if h \<le> 24 \<and> m \<le> 60
                 then Some ((if c = CHR ''-'' then -1 else 1) * (h * Hour + m * Minute), drop 5 r) else None
             | _ \<Rightarrow> None)
          else None)"

definition field :: "char option \<Rightarrow> bool \<Rightarrow> (int \<Rightarrow> bool) \<Rightarrow> string \<Rightarrow> (int \<times> string) option" where
  "field sep fixed ok s =
     (case (case sep of None \<Rightarrow> Some s | Some c \<Rightarrow> expect c s) of
        None \<Rightarrow> None
      | Some r \<Rightarrow> (case getnum fixed r of None \<Rightarrow> None | Some (n, r') \<Rightarrow> if ok n then Some (n, r') else None))"

definition parse_clock :: "string \<Rightarrow> (time \<times> string) option" where
  "parse_clock s =
     (case field (Some CHR ''T'') False (\<lambda>h. h < 24) s of
        None \<Rightarrow> None
      | Some (h, s1) \<Rightarrow>
          (case field (Some CHR '':'') True (\<lambda>m. m < 60) s1 of
             None \<Rightarrow> None
           | Some (mi, s2) \<Rightarrow>
               (case field (Some CHR '':'') True (\<lambda>x. x < 60) s2 of
                  None \<Rightarrow> None
                | Some (sec, s3) \<Rightarrow>
                    let (ns, s4) = getfraction s3 in Some (h * Hour + mi * Minute + sec * Second + ns, s4))))"

definition Parse_RFC3339 :: "string \<Rightarrow> time option" where
  "Parse_RFC3339 s =
     (case getyear s of
        None \<Rightarrow> None
      | Some (y, s1) \<Rightarrow>
          (case field (Some CHR ''-'') True (\<lambda>m. 1 \<le> m \<and> m \<le> 12) s1 of
             None \<Rightarrow> None
           | Some (m, s2) \<Rightarrow>
               (case field (Some CHR ''-'') True (\<lambda>_. True) s2 of
                  None \<Rightarrow> None
                | Some (d, s3) \<Rightarrow>
                    (case parse_clock s3 of
                       None \<Rightarrow> None
                     | Some (c, s4) \<Rightarrow>
                         (case getzone s4 of
                            None \<Rightarrow> None
                          | Some (zone, rest) \<Rightarrow>
                              if rest = [] \<and> valid_date y m d then Some (at_date y m d c - zone) else None)))))"

section \<open>Parsing inverts formatting\<close>

lemma pad_digits: "list_all is_digit (pad w n)" "length (pad w n) = w"
  by (induction w arbitrary: n) (auto simp: is_digit_def between_def)

lemma digits_value_append: "digits_value (xs @ [d]) = 10 * digits_value xs + (int (of_char d) - 48)"
  by (simp add: digits_value_def)

lemma digits_value_pad: "digits_value (pad w n) = int (n mod 10 ^ w)"
proof (induction w arbitrary: n)
  case (Suc w)
  have "n mod 10 ^ Suc w = 10 * (n div 10 mod 10 ^ w) + n mod 10" by (simp add: mod_mult2_eq)
  then show ?case by (simp add: digits_value_append Suc)
qed (simp add: digits_value_def)

lemma pad_inject:
  assumes "m < 10 ^ w" "n < 10 ^ w"
  shows "pad w m = pad w n \<longleftrightarrow> m = n"
proof
  assume "pad w m = pad w n"
  then have "int (m mod 10 ^ w) = int (n mod 10 ^ w)" by (simp only: digits_value_pad [symmetric])
  with assms show "m = n" by (simp only: of_nat_eq_iff mod_less)
qed simp

lemma Format_inject:
  assumes "four_digit_years t" "four_digit_years t'" "date_of t = (y, m, d)" "date_of t' = (y', m', d')"
  shows "Format_month t = Format_month t' \<longleftrightarrow> (y, m) = (y', m')" "Format_day t = Format_day t' \<longleftrightarrow> date_of t = date_of t'"
proof -
  have y: "0 \<le> y" "y < 10000" "0 \<le> y'" "y' < 10000"
    using four_digit_years [OF assms(1)] four_digit_years [OF assms(2)] assms(3,4) by (simp_all add: year_number_def)
  have m: "0 \<le> m" "m < 100" "0 \<le> m'" "m' < 100" "0 \<le> d" "d < 100" "0 \<le> d'" "d' < 100"
    using date_sound(2) [OF assms(3)] date_sound(2) [OF assms(4)] days_in_bounds [of y m d] days_in_bounds [of y' m' d']
    by (auto simp: valid_date_def)
  have pads: "length (pad w n) = w" for w n by (rule pad_digits(2))
  have y4: "pad 4 (nat y) = pad 4 (nat y') \<longleftrightarrow> y = y'" using y by (subst pad_inject) (auto simp: nat_less_iff)
  have p2: "pad 2 (nat m) = pad 2 (nat m') \<longleftrightarrow> m = m'" "pad 2 (nat d) = pad 2 (nat d') \<longleftrightarrow> d = d'"
    using m by (auto simp: pad_inject nat_less_iff)
  show "Format_month t = Format_month t' \<longleftrightarrow> (y, m) = (y', m')"
    using y by (simp add: Format_month_def assms(3,4) year_text_def pads y4 p2)
  show "Format_day t = Format_day t' \<longleftrightarrow> date_of t = date_of t'"
    using y by (simp add: Format_day_def date_text_def assms(3,4) year_text_def pads y4 p2)
qed

lemma pad2: "\<exists>a b. pad 2 n = [a, b] \<and> is_digit a \<and> is_digit b"
  using pad_digits [of 2 n] by (auto simp: numeral_2_eq_2 is_digit_def between_def)

lemma getnum_pad: "n < 100 \<Longrightarrow> getnum fixed (pad 2 n @ r) = Some (int n, r)"
proof -
  assume n: "n < 100"
  obtain a b where ab: "pad 2 n = [a, b]" "is_digit a" "is_digit b" using pad2 by blast
  then have "digits_value [a, b] = int n" using digits_value_pad [of 2 n] n by simp
  with ab show ?thesis by (simp add: getnum_def)
qed

lemma field_pad: "n < 100 \<Longrightarrow> ok (int n) \<Longrightarrow> field (Some c) fixed ok (c # pad 2 n @ r) = Some (int n, r)"
  by (simp add: field_def expect_def getnum_pad)

lemma getyear_pad: "n < 10000 \<Longrightarrow> getyear (pad 4 n @ r) = Some (int n, r)"
  using pad_digits [of 4 n] digits_value_pad [of 4 n] by (simp add: getyear_def)

lemma trim_zeros_split: "\<exists>k. s = trim_zeros s @ replicate k CHR ''0''"
proof -
  let ?z = "\<lambda>c. c = CHR ''0''"
  have "s = rev (takeWhile ?z (rev s) @ dropWhile ?z (rev s))" by simp
  then have "s = trim_zeros s @ rev (takeWhile ?z (rev s))" by (simp only: rev_append trim_zeros_def)
  moreover have "rev (takeWhile ?z (rev s)) = replicate (length (takeWhile ?z (rev s))) CHR ''0''"
    by (rule replicate_eqI) (auto dest: set_takeWhileD)
  ultimately show ?thesis by metis
qed

lemma digits_value_zeros: "digits_value (xs @ replicate k CHR ''0'') = digits_value xs * 10 ^ k"
proof (induction k)
  case (Suc k)
  have "xs @ replicate (Suc k) CHR ''0'' = (xs @ replicate k CHR ''0'') @ [CHR ''0'']"
    by (simp add: replicate_append_same)
  then show ?case by (simp only: digits_value_append Suc) simp
qed simp

lemma getfraction_nano:
  assumes "ns < 10 ^ 9"
  shows "getfraction (nano_text ns @ ''Z'') = (int ns, ''Z'')"
proof (cases "ns = 0")
  case True
  then show ?thesis by (simp add: nano_text_def getfraction_def)
next
  case False
  define D where "D = trim_zeros (pad 9 ns)"
  obtain k where k: "pad 9 ns = D @ replicate k CHR ''0''" using trim_zeros_split D_def by blast
  have len: "length D + k = 9" using arg_cong [OF k, of length] pad_digits(2) [of 9 ns] by simp
  have val: "digits_value D * 10 ^ k = int ns"
    using digits_value_pad [of 9 ns] assms by (simp add: k digits_value_zeros)
  then have "D \<noteq> []" using False by (auto simp: digits_value_def)
  then obtain d r where D: "D = d # r" by (meson neq_Nil_conv)
  have dig: "list_all is_digit D" using pad_digits(1) [of 9 ns] by (simp add: k)
  have z: "\<not> is_digit CHR ''Z''" by (simp add: is_digit_def between_def)
  have "takeWhile is_digit (D @ ''Z'') = D" "dropWhile is_digit (D @ ''Z'') = ''Z''"
    using dig z by (auto simp: list_all_iff takeWhile_append2 dropWhile_append2)
  moreover have "nano_text ns = CHR ''.'' # D" using False by (simp add: nano_text_def D_def)
  moreover have "k = 9 - length D" "take 9 D = D" using len by simp_all
  ultimately show ?thesis using val dig by (simp add: getfraction_def D Let_def)
qed

lemma clock_sum: "h * 60 + m = k \<Longrightarrow> k * 60 + s = q \<Longrightarrow> q * Second + r = c \<Longrightarrow> h * Hour + m * Minute + s * Second + r = c"
  by (auto simp: Hour_def Minute_def Second_def)

lemma clock_units: "c div Minute = c div Second div 60" "c div Hour = c div Minute div 60"
  unfolding Hour_def Minute_def mult.commute [of 60] by (simp_all only: zdiv_zmult2_eq zero_le_numeral)

lemma clock_split:
  "c div Hour * Hour + c div Minute mod 60 * Minute + c div Second mod 60 * Second + c mod Second = c"
  by (rule clock_sum [of _ _ "c div Minute" _ "c div Second"]) (simp_all add: clock_units)

lemma clock_bounds:
  assumes "0 \<le> c" "c < Day"
  shows "0 \<le> c div Hour" "c div Hour < 24"
proof -
  show "0 \<le> c div Hour" using assms(1) by (simp add: pos_imp_zdiv_nonneg_iff Hour_def Minute_def Second_def)
  have "c < 24 * Hour" using assms(2) by (simp add: Day_def)
  then show "c div Hour < 24" by (simp add: div_less_iff_less_mult Hour_def Minute_def Second_def)
qed

lemma parse_clock_text:
  assumes "0 \<le> c" "c < Day"
  shows "parse_clock (''T'' @ clock_text c @ nano_text (nat (c mod Second)) @ ''Z'') = Some (c, ''Z'')"
proof -
  define h mi sec ns where "h = nat (c div Hour)" and "mi = nat (c div Minute mod 60)"
    and "sec = nat (c div Second mod 60)" and "ns = nat (c mod Second)"
  have b: "h < 24" "mi < 60" "sec < 60" "ns < 10 ^ 9"
    using clock_bounds [OF assms] by (auto simp: h_def mi_def sec_def ns_def nat_less_iff Second_def)
  have i: "int h = c div Hour" "int mi = c div Minute mod 60" "int sec = c div Second mod 60" "int ns = c mod Second"
    using clock_bounds [OF assms] by (simp_all add: h_def mi_def sec_def ns_def Second_def)
  have layout: "''T'' @ clock_text c @ nano_text (nat (c mod Second)) @ ''Z'' =
      CHR ''T'' # pad 2 h @ CHR '':'' # pad 2 mi @ CHR '':'' # pad 2 sec @ nano_text ns @ ''Z''"
    by (simp add: clock_text_def h_def mi_def sec_def ns_def)
  have "field (Some CHR ''T'') False (\<lambda>h. h < 24) (CHR ''T'' # pad 2 h @ r) = Some (int h, r)"
    "field (Some CHR '':'') True (\<lambda>m. m < 60) (CHR '':'' # pad 2 mi @ r) = Some (int mi, r)"
    "field (Some CHR '':'') True (\<lambda>x. x < 60) (CHR '':'' # pad 2 sec @ r) = Some (int sec, r)" for r
    using b by (simp_all add: field_pad)
  then show ?thesis
    unfolding layout parse_clock_def by (simp add: getfraction_nano [OF b(4)]) (simp add: i clock_split)
qed

lemma Parse_Format_RFC3339Nano:
  assumes "0 \<le> year_number t" "year_number t < 10000"
  shows "Parse_RFC3339 (Format_RFC3339Nano t) = Some t"
proof -
  obtain y m d where c: "date_of t = (y, m, d)" by (metis prod_cases3)
  have day: "day_number y m d = t div Day" "valid_date y m d"
    using civil_sound [of "t div Day" y m d] c by (simp_all add: date_of_def)
  have y: "0 \<le> y" "y < 10000" using assms c by (simp_all add: year_number_def)
  have "days_in y m \<in> set (month_lengths y)" using day(2) by (auto simp: valid_date_def days_in_def intro!: nth_mem)
  then have d: "1 \<le> d" "d < 100" "1 \<le> m" "m \<le> 12" using day(2) by (auto simp: valid_date_def month_lengths_def split: if_splits)
  have "t mod Second = t mod Day mod Second" by (rule mod_mod_cancel [symmetric]) (simp add: go_consts)
  then have layout: "Format_RFC3339Nano t = pad 4 (nat y) @ CHR ''-'' # pad 2 (nat m) @ CHR ''-'' # pad 2 (nat d) @
      (''T'' @ clock_text (t mod Day) @ nano_text (nat (t mod Day mod Second)) @ ''Z'')"
    by (simp add: Format_RFC3339Nano_def date_text_def c year_text_def y)
  have clock: "parse_clock (''T'' @ clock_text (t mod Day) @ nano_text (nat (t mod Day mod Second)) @ ''Z'') = Some (t mod Day, ''Z'')"
    by (rule parse_clock_text) (simp_all add: Day_value)
  have "at_date y m d (t mod Day) = t" by (simp add: at_date_def day(1))
  then show ?thesis
    unfolding layout Parse_RFC3339_def using y d day(2)
    by (simp add: getyear_pad field_pad clock [simplified] getzone_def)
qed

end
