(* ===== verification/Reads.thy ===== *)
theory Reads
  imports Api Calendar "HOL-Library.Product_Lexorder"
begin

text \<open>
  The read endpoints (\<open>internal/api/reads.go\<close>, \<open>audit.go\<close>): cursors, the window of a query, the
  two queries on intents and the one on conflicts, pagination, and the audit of payload access. A
  handler takes the database and returns it, because reading payloads writes the audit trail. Query
  parameters reach Postgres in microseconds. Identifiers compare as text, which for UUIDs in lower
  case is the order of their bytes.
\<close>

section \<open>Base64\<close>

text \<open>\<open>base64.RawURLEncoding\<close>: decoding skips line breaks and does not look at unused bits.\<close>

definition b64_char :: "nat \<Rightarrow> char" where
  "b64_char n =
     (if n < 26 then char_of (65 + n) else if n < 52 then char_of (71 + n) else if n < 62 then char_of (n - 4)
      else if n = 62 then CHR ''-'' else CHR ''_'')"

definition b64_value :: "char \<Rightarrow> nat option" where
  "b64_value c =
     (if between 65 90 c then Some (of_char c - 65) else if between 97 122 c then Some (of_char c - 71)
      else if between 48 57 c then Some (of_char c + 4)
      else if c = CHR ''-'' then Some 62 else if c = CHR ''_'' then Some 63 else None)"

fun b64_digits :: "nat list \<Rightarrow> nat list" where
  "b64_digits [] = []"
| "b64_digits [a] = [a div 4, a mod 4 * 16]"
| "b64_digits [a, b] = [a div 4, a mod 4 * 16 + b div 16, b mod 16 * 4]"
| "b64_digits (a # b # c # r) = [a div 4, a mod 4 * 16 + b div 16, b mod 16 * 4 + c div 64, c mod 64] @ b64_digits r"

fun b64_groups :: "nat list \<Rightarrow> nat list option" where
  "b64_groups [] = Some []"
| "b64_groups [w] = None"
| "b64_groups [w, x] = Some [w * 4 + x div 16]"
| "b64_groups [w, x, y] = Some [w * 4 + x div 16, x mod 16 * 16 + y div 4]"
| "b64_groups (w # x # y # z # r) =
     map_option (\<lambda>t. [w * 4 + x div 16, x mod 16 * 16 + y div 4, y mod 4 * 64 + z] @ t) (b64_groups r)"

definition b64_encode :: "bytes \<Rightarrow> string" where
  "b64_encode s = map b64_char (b64_digits (map of_char s))"

fun all_some :: "'a option list \<Rightarrow> 'a list option" where
  "all_some [] = Some []"
| "all_some (x # xs) = (case x of None \<Rightarrow> None | Some a \<Rightarrow> map_option ((#) a) (all_some xs))"

definition b64_decode :: "string \<Rightarrow> bytes option" where
  "b64_decode s =
     (case all_some (map b64_value (filter (\<lambda>c. c \<noteq> CHR 10 \<and> c \<noteq> CHR 13) s)) of
        None \<Rightarrow> None
      | Some vs \<Rightarrow> map_option (map char_of) (b64_groups vs))"

section \<open>Cursors and windows\<close>

definition defaultLimit :: int where "defaultLimit = 100"
definition maxLimit :: int where "maxLimit = 1000"
definition headerReason :: string where "headerReason = ''X-Idemio-Reason''"

record cursor =
  cu_At :: time
  cu_ID :: string

record read_window =
  rw_since :: time
  rw_until :: time
  rw_limit :: int
  rw_cursor :: "cursor option"

definition encodeCursor :: "time \<Rightarrow> string \<Rightarrow> string" where
  "encodeCursor at ident = b64_encode (Format_RFC3339Nano at @ ''|'' @ ident)"

text \<open>\<open>strings.Cut\<close> at the first bar.\<close>

definition cut_bar :: "string \<Rightarrow> (string \<times> string) option" where
  "cut_bar s =
     (case dropWhile (\<lambda>c. c \<noteq> CHR ''|'') s of
        [] \<Rightarrow> None
      | _ # r \<Rightarrow> Some (takeWhile (\<lambda>c. c \<noteq> CHR ''|'') s, r))"

definition decodeCursor :: "(bytes \<Rightarrow> bytes) \<Rightarrow> string \<Rightarrow> string + cursor" where
  "decodeCursor lower raw =
     (case b64_decode raw of
        None \<Rightarrow> Inl ''cursor is not valid base64url''
      | Some decoded \<Rightarrow>
          (case cut_bar decoded of
             None \<Rightarrow> Inl ''cursor is malformed''
           | Some (at, ident) \<Rightarrow>
               (case Parse_RFC3339 at of
                  None \<Rightarrow> Inl ''cursor carries no timestamp''
                | Some parsed \<Rightarrow>
                    if \<not> isUUID (to_lower lower ident) then Inl ''cursor carries no identifier''
                    else Inr \<lparr>cu_At = parsed, cu_ID = ident\<rparr>)))"

text \<open>
  What a read does not decide: the clock of the process and of the transaction, the texts of times
  in the local zone, Postgres and its faults.
\<close>

record read_env =
  rd_now :: time
  rd_tx_now :: time
  rd_pg :: pg
  rd_lower :: "bytes \<Rightarrow> bytes"
  rd_time_text :: "time \<Rightarrow> string"
  rd_begin :: bool
  rd_query :: bool
  rd_audit :: bool
  rd_commit :: commit_outcome

text \<open>\<open>Time.Sub\<close> saturates.\<close>

definition time_sub :: "time \<Rightarrow> time \<Rightarrow> duration" where
  "time_sub t u = max (- (2 ^ 63)) (min (2 ^ 63 - 1) (t - u))"

definition read_limit :: "string \<Rightarrow> int option" where
  "read_limit raw =
     (if raw = [] then Some defaultLimit
      else case parse_integer raw of
        None \<Rightarrow> None
      | Some n \<Rightarrow> if n < 1 \<or> n > maxLimit then None else Some n)"

definition readWindow :: "read_env \<Rightarrow> server \<Rightarrow> http_request \<Rightarrow> string + read_window" where
  "readWindow env s r =
     (let raw = query_get r ''since'' in
      if raw = [] then Inl ''since is required; an unbounded read scans every retained partition''
      else case Parse_RFC3339 raw of
        None \<Rightarrow> Inl ''since must be an RFC 3339 timestamp''
      | Some since \<Rightarrow>
          (case (if query_get r ''until'' \<noteq> [] then Parse_RFC3339 (query_get r ''until'') else Some (rd_now env)) of
             None \<Rightarrow> Inl ''until must be an RFC 3339 timestamp''
           | Some until \<Rightarrow>
               if \<not> until > since then Inl ''until must be after since''
               else if time_sub until since > ReadMaxSpan (sv_cfg s)
               then Inl (''the range spans '' @ Duration_String (Duration_Round (time_sub until since) Hour) @
                 ''; the maximum is '' @ Duration_String (ReadMaxSpan (sv_cfg s)) @
                 ''. Page with cursor rather than widening the window'')
               else case read_limit (query_get r ''limit'') of
                 None \<Rightarrow> Inl (''limit must be between 1 and '' @ Itoa maxLimit)
               | Some limit \<Rightarrow>
                   (let result = \<lparr>rw_since = since, rw_until = until, rw_limit = limit, rw_cursor = None\<rparr> in
                    if query_get r ''cursor'' = [] then Inr result
                    else case decodeCursor (rd_lower env) (query_get r ''cursor'') of
                      Inl e \<Rightarrow> Inl e
                    | Inr parsed \<Rightarrow> Inr (result\<lparr>rw_cursor := Some parsed\<rparr>))))"

definition readerIdentity :: "http_request \<Rightarrow> response + identity" where
  "readerIdentity r =
     (case readIdentity r of
        None \<Rightarrow> Inl (writeProblem StatusUnauthorized [] ''missing_identity'' [])
      | Some caller \<Rightarrow>
          if id_Role caller \<noteq> RoleOperator \<and> id_Role caller \<noteq> RoleInvestigator
          then Inl (writeProblem StatusForbidden [] ''role_insufficient''
                 ''Read endpoints require operator or investigator.'')
          else Inr caller)"

section \<open>Queries\<close>

text \<open>A time as Postgres receives it, and the comparison with the cursor.\<close>

definition pg_time :: "time \<Rightarrow> time" where
  "pg_time t = t div Microsecond * Microsecond"

definition in_range :: "read_window \<Rightarrow> time \<Rightarrow> bool" where
  "in_range bounds t \<longleftrightarrow> pg_time (rw_since bounds) \<le> t \<and> t \<le> pg_time (rw_until bounds)"

definition before_cursor :: "cursor option \<Rightarrow> time \<times> string \<Rightarrow> bool" where
  "before_cursor cu k =
     (case cu of None \<Rightarrow> True | Some c \<Rightarrow> k < (pg_time (cu_At c), ToLower (cu_ID c)))"

text \<open>\<open>ORDER BY k DESC LIMIT n\<close>.\<close>

definition latest :: "('r \<Rightarrow> time \<times> string) \<Rightarrow> nat \<Rightarrow> 'r list \<Rightarrow> 'r list" where
  "latest k n rows = take n (rev (sort_key k rows))"

definition paginate :: "'r list \<Rightarrow> int \<Rightarrow> ('r \<Rightarrow> string) \<Rightarrow> 'r list \<times> bool \<times> string" where
  "paginate rows limit key =
     (if int (length rows) \<le> limit then (rows, False, [])
      else let page = take (nat limit) rows in (page, True, key (last page)))"

definition intent_key :: "intent_row \<Rightarrow> time \<times> string" where
  "intent_key w = (w_emitted_at w, w_intent_id w)"

definition selectIntents :: "string \<Rightarrow> string \<Rightarrow> read_window \<Rightarrow> db \<Rightarrow> intent_row list" where
  "selectIntents resourceType resourceID bounds d =
     latest intent_key (nat (rw_limit bounds + 1))
       (filter (\<lambda>w. w_resource_type w = resourceType \<and> w_resource_id w = resourceID \<and>
                    in_range bounds (w_emitted_at w) \<and> before_cursor (rw_cursor bounds) (intent_key w)) (write_intents d))"

text \<open>
  The two statements differ in the last column, which the redacted one does not read.
\<close>

record intentRow =
  ir_IntentID :: string
  ir_AgentID :: string
  ir_IdempotencyKey :: string
  ir_Operation :: string
  ir_OperationClass :: string
  ir_ScopeSelector :: "string slice"
  ir_EmittedAt :: time
  ir_Voided :: bool
  ir_Payload :: bytes
  ir_Redacted :: bool

definition intentRow_of :: "bool \<Rightarrow> intent_row \<Rightarrow> intentRow" where
  "intentRow_of unredacted w =
     \<lparr>ir_IntentID = w_intent_id w, ir_AgentID = w_agent_id w, ir_IdempotencyKey = w_idempotency_key w,
      ir_Operation = w_operation w, ir_OperationClass = w_operation_class w, ir_ScopeSelector = w_scope_selector w,
      ir_EmittedAt = w_emitted_at w, ir_Voided = (w_voided_at w \<noteq> None),
      ir_Payload = (if unredacted then w_payload w else []), ir_Redacted = (\<not> unredacted)\<rparr>"

definition scanIntents :: "string \<Rightarrow> string \<Rightarrow> read_window \<Rightarrow> bool \<Rightarrow> db \<Rightarrow> intentRow list" where
  "scanIntents resourceType resourceID bounds unredacted d =
     map (intentRow_of unredacted) (selectIntents resourceType resourceID bounds d)"

text \<open>
  A nil slice is encoded as \<open>null\<close> and an empty one as \<open>[]\<close>; a NULL selector is scanned into a nil
  slice. The slice a page was appended to is nil when there was no row.
\<close>

definition slice_json :: "json slice \<Rightarrow> json" where
  "slice_json js = (case js of None \<Rightarrow> JNull | Some js \<Rightarrow> JList js)"

definition list_json :: "json list \<Rightarrow> json" where
  "list_json js = (if js = [] then JNull else JList js)"

definition intent_json :: "(time \<Rightarrow> string) \<Rightarrow> intentRow \<Rightarrow> json" where
  "intent_json time_text r = JStruct
     [(''intent_id'', JString (ir_IntentID r)), (''agent_id'', JString (ir_AgentID r)),
      (''idempotency_key'', JString (ir_IdempotencyKey r)), (''operation'', JString (ir_Operation r)),
      (''operation_class'', JString (ir_OperationClass r)),
      (''scope_selector'', slice_json (map_option (map JString) (ir_ScopeSelector r))),
      (''emitted_at'', JString (time_text (ir_EmittedAt r))), (''voided'', JBool (ir_Voided r)),
      (''payload'', JRaw (ir_Payload r)), (''payload_redacted'', JBool (ir_Redacted r))]"

section \<open>Payload access\<close>

record auditEntry =
  ae_principal :: string
  ae_role :: string
  ae_endpoint :: string
  ae_params :: "(string \<times> string) list"
  ae_ids :: "string list"
  ae_reason :: string

definition first_values :: "(string \<times> string) list \<Rightarrow> (string \<times> string) list" where
  "first_values params = map (\<lambda>k. (k, the (map_of params k))) (remdups (map fst params))"

definition recordPayloadAccess :: "read_env \<Rightarrow> auditEntry \<Rightarrow> db \<Rightarrow> db option" where
  "recordPayloadAccess env entry d =
     (if rd_audit env then None
      else case jsonb (rd_pg env) (marshal (string_object (first_values (ae_params entry)))) of
        None \<Rightarrow> None
      | Some params \<Rightarrow>
          let (auditID, d1) = fresh_uuid (rd_pg env) d in
          Some (d1\<lparr>payload_access_audit := payload_access_audit d1 @
            [\<lparr>au_audit_id = auditID, au_principal = ae_principal entry, au_caller_role = ae_role entry,
              au_endpoint = ae_endpoint entry, au_query_params = params,
              au_record_count = int (length (ae_ids entry)), au_intent_ids = Some (ae_ids entry),
              au_stated_reason = Some (ae_reason entry), au_accessed_at = rd_tx_now env\<rparr>]\<rparr>))"

text \<open>Whether payloads are asked for, and the reason given, or a refusal.\<close>

definition payloadRequest :: "http_request \<Rightarrow> identity \<Rightarrow> response + bool \<times> string" where
  "payloadRequest r caller =
     (if query_get r ''include'' \<noteq> ''payload'' then Inr (False, [])
      else if id_Role caller \<noteq> RoleInvestigator
      then Inl (writeProblem StatusForbidden [] ''role_insufficient''
             ''Unredacted payloads require the investigator role.'')
      else let reason = TrimSpace (hr_Header r headerReason) in
        if reason = []
        then Inl (writeProblem StatusBadRequest [] ''reason_required''
               (''Reading payloads requires '' @ headerReason @ ''. An audit trail of unexplained '' @
                ''accesses records that a payload was read but not why.''))
        else Inr (True, reason))"

section \<open>The handlers\<close>

definition read_failed :: response where
  "read_failed = writeProblem StatusInternalServerError [] ''read_failed'' []"

definition page_body :: "(string \<times> json) list \<Rightarrow> bool \<Rightarrow> string \<Rightarrow> response" where
  "page_body ms hasMore next =
     writeJSON StatusOK (JObject
       (ms @ [(''has_more'', JBool hasMore)] @ (if hasMore then [(''next_cursor'', JString next)] else [])))"

definition intents_body :: "read_env \<Rightarrow> string \<Rightarrow> string \<Rightarrow> intentRow list \<Rightarrow> bool \<Rightarrow> string \<Rightarrow> response" where
  "intents_body env resourceType resourceID page hasMore next =
     page_body [(''resource_type'', JString resourceType), (''resource_id'', JString resourceID),
                (''intents'', list_json (map (intent_json (rd_time_text env)) page))] hasMore next"

definition intent_cursor :: "intentRow \<Rightarrow> string" where
  "intent_cursor row = encodeCursor (ir_EmittedAt row) (ir_IntentID row)"

definition handleIntents :: "read_env \<Rightarrow> server \<Rightarrow> http_request \<Rightarrow> db \<Rightarrow> response \<times> db" where
  "handleIntents env s r d =
     (case readerIdentity r of
        Inl answer \<Rightarrow> (answer, d)
      | Inr caller \<Rightarrow>
          (case readWindow env s r of
             Inl problem \<Rightarrow> (writeProblem StatusBadRequest [] ''invalid_range'' problem, d)
           | Inr bounds \<Rightarrow>
               (case payloadRequest r caller of
                  Inl answer \<Rightarrow> (answer, d)
                | Inr (unredacted, reason) \<Rightarrow>
                    if rd_begin env \<or> rd_query env then (read_failed, d)
                    else
                      let resourceType = hr_PathValue r ''resource_type''; resourceID = hr_PathValue r ''resource_id'';
                          rows = scanIntents resourceType resourceID bounds unredacted d;
                          (page, hasMore, next) = paginate rows (rw_limit bounds) intent_cursor;
                          audited = (if unredacted
                            then recordPayloadAccess env
                              \<lparr>ae_principal = id_AgentID caller, ae_role = id_Role caller, ae_endpoint = hr_Path r,
                               ae_params = hr_Query r, ae_ids = map ir_IntentID page, ae_reason = reason\<rparr> d
                            else Some d)
                      in case audited of
                           None \<Rightarrow> (writeProblem StatusServiceUnavailable [] ''audit_unavailable''
                             ''Payloads are not returned when the access cannot be audited.'', d)
                         | Some d1 \<Rightarrow>
                             (case rd_commit env of
                                Committed \<Rightarrow> (intents_body env resourceType resourceID page hasMore next, d1)
                              | CommitFailed \<Rightarrow> (read_failed, d)
                              | CommitUnseen \<Rightarrow> (read_failed, d1)))))"

definition optional :: "string \<Rightarrow> string option" where
  "optional value = (if value = [] then None else Some value)"

definition conflict_key :: "conflict_row \<Rightarrow> time \<times> string" where
  "conflict_key c = (c_detected_at c, c_conflict_id c)"

definition selectConflicts ::
  "read_window \<Rightarrow> string option \<Rightarrow> string option \<Rightarrow> string option \<Rightarrow> db \<Rightarrow> conflict_row list" where
  "selectConflicts bounds agent resourceType resn d =
     latest conflict_key (nat (rw_limit bounds + 1))
       (filter (\<lambda>c. in_range bounds (c_detected_at c) \<and>
                    (agent = None \<or> Some (c_agent_id_a c) = agent \<or> Some (c_agent_id_b c) = agent) \<and>
                    (resourceType = None \<or> Some (c_resource_type c) = resourceType) \<and>
                    (resn = None \<or> Some (resolution_text (c_resolution c)) = resn) \<and>
                    before_cursor (rw_cursor bounds) (conflict_key c)) (conflicts d))"

definition conflict_json :: "(time \<Rightarrow> string) \<Rightarrow> conflict_row \<Rightarrow> json" where
  "conflict_json time_text c = JStruct
     [(''conflict_id'', JString (c_conflict_id c)), (''intent_id_a'', JString (c_intent_id_a c)),
      (''intent_id_b'', JString (c_intent_id_b c)), (''agent_id_a'', JString (c_agent_id_a c)),
      (''agent_id_b'', JString (c_agent_id_b c)), (''resource_type'', JString (c_resource_type c)),
      (''resource_id'', JString (c_resource_id c)), (''reason'', JString (c_reason c)),
      (''resolution'', JString (resolution_text (c_resolution c))),
      (''manifest_version'', JString (coalesce (c_manifest_version c))), (''detected_at'', JString (time_text (c_detected_at c)))]"

definition handleConflicts :: "read_env \<Rightarrow> server \<Rightarrow> http_request \<Rightarrow> db \<Rightarrow> response" where
  "handleConflicts env s r d =
     (case readerIdentity r of
        Inl answer \<Rightarrow> answer
      | Inr caller \<Rightarrow>
          (case readWindow env s r of
             Inl problem \<Rightarrow> writeProblem StatusBadRequest [] ''invalid_range'' problem
           | Inr bounds \<Rightarrow>
               if query_get r ''include'' \<noteq> []
               then writeProblem StatusBadRequest [] ''nothing_to_include''
                      ''Conflict records carry no payload; read the intents endpoint for request bodies.''
               else if rd_query env then read_failed
               else
                 let rows = selectConflicts bounds (optional (query_get r ''agent_id''))
                       (optional (query_get r ''resource_type'')) (optional (query_get r ''resolution'')) d;
                     (page, hasMore, next) = paginate rows (rw_limit bounds)
                       (\<lambda>c. encodeCursor (c_detected_at c) (c_conflict_id c))
                 in page_body [(''conflicts'', list_json (map (conflict_json (rd_time_text env)) page))] hasMore next))"

end
