(* ===== verification/Reads_Laws.thy ===== *)
theory Reads_Laws
  imports Reads Claim_Spec
begin

text \<open>
  What the read endpoints guarantee: a cursor decodes to the position it encodes, a reader who
  follows the cursors sees every record of the window once and in order, and no payload leaves
  without an audit record.
\<close>

section \<open>Base64\<close>

lemma b64_value_char: "n < 64 \<Longrightarrow> b64_value (b64_char n) = Some n \<and> b64_char n \<noteq> CHR 10 \<and> b64_char n \<noteq> CHR 13"
proof -
  have "list_all (\<lambda>n. b64_value (b64_char n) = Some n \<and> b64_char n \<noteq> CHR 10 \<and> b64_char n \<noteq> CHR 13) [0..<64]"
    by code_simp
  then show "n < 64 \<Longrightarrow> b64_value (b64_char n) = Some n \<and> b64_char n \<noteq> CHR 10 \<and> b64_char n \<noteq> CHR 13"
    by (simp add: list_all_iff)
qed

lemma byte_parts:
  fixes b :: nat
  assumes "b < 256"
  shows "b div 4 < 64" "b div 16 < 16" "b div 64 < 4"
    and "(x * 16 + b div 16) div 16 = x" "(x * 16 + b div 16) mod 16 = b div 16"
    and "(x * 4 + b div 64) div 4 = x" "(x * 4 + b div 64) mod 4 = b div 64"
proof -
  show *: "b div 4 < 64" "b div 16 < 16" "b div 64 < 4" using assms by (simp_all add: div_less_iff_less_mult)
  show "(x * 16 + b div 16) div 16 = x" "(x * 16 + b div 16) mod 16 = b div 16" using *(2) by simp_all
  show "(x * 4 + b div 64) div 4 = x" "(x * 4 + b div 64) mod 4 = b div 64" using *(3) by simp_all
qed

lemma joined_parts:
  fixes a b :: nat
  shows "b < 16 \<Longrightarrow> a mod 4 * 16 + b < 64" "b < 4 \<Longrightarrow> a mod 16 * 4 + b < 64"
proof -
  have "a mod 4 \<le> 3" "a mod 16 \<le> 15" by (simp_all flip: less_Suc_eq_le)
  then show "b < 16 \<Longrightarrow> a mod 4 * 16 + b < 64" "b < 4 \<Longrightarrow> a mod 16 * 4 + b < 64" by linarith+
qed

lemma b64_digits_small: "list_all (\<lambda>b. b < 256) bs \<Longrightarrow> list_all (\<lambda>n. n < 64) (b64_digits bs)"
proof (induction bs rule: b64_digits.induct)
  case (2 a)
  then show ?case using byte_parts(1) joined_parts(1) [of 0 a] by simp
next
  case (3 a b)
  then show ?case using byte_parts(1,2) joined_parts(1) [of "b div 16" a] joined_parts(2) [of 0 b] by simp
next
  case (4 a b c r)
  then show ?case using byte_parts(1-3) joined_parts(1) [of "b div 16" a] joined_parts(2) [of "c div 64" b] by simp
qed simp

lemma b64_groups_digits: "list_all (\<lambda>b. b < 256) bs \<Longrightarrow> b64_groups (b64_digits bs) = Some bs"
  by (induction bs rule: b64_digits.induct) (auto simp: byte_parts)

lemma b64_roundtrip: "b64_decode (b64_encode s) = Some s"
proof -
  let ?bs = "map of_char s :: nat list" let ?ds = "b64_digits ?bs"
  have small: "list_all (\<lambda>b. b < 256) ?bs" by (simp add: list_all_iff of_char_bound)
  have "list_all (\<lambda>n. n < 64) ds \<Longrightarrow> filter (\<lambda>c. c \<noteq> CHR 10 \<and> c \<noteq> CHR 13) (map b64_char ds) = map b64_char ds \<and>
      all_some (map b64_value (map b64_char ds)) = Some ds" for ds
    by (induction ds) (auto simp: b64_value_char)
  then have "all_some (map b64_value (filter (\<lambda>c. c \<noteq> CHR 10 \<and> c \<noteq> CHR 13) (b64_encode s))) = Some ?ds"
    using b64_digits_small [OF small] by (simp add: b64_encode_def)
  then show ?thesis
    using b64_groups_digits [OF small] by (simp add: b64_decode_def comp_def)
qed

section \<open>Cursors\<close>

lemma pad_no_bar: "CHR ''|'' \<notin> set (pad w n)"
  using pad_digits(1) [of w n] by (auto simp: list_all_iff is_digit_def between_def)

lemma trim_zeros_subset: "set (trim_zeros s) \<subseteq> set s"
  using set_dropWhileD by (fastforce simp: trim_zeros_def)

lemma Format_no_bar:
  assumes "0 \<le> year_number t" "year_number t < 10000"
  shows "CHR ''|'' \<notin> set (Format_RFC3339Nano t)"
proof -
  obtain y m d where c: "date_of t = (y, m, d)" by (metis prod_cases3)
  then have y: "0 \<le> y \<and> y < 10000" using assms by (simp add: year_number_def)
  have "CHR ''|'' \<notin> set (nano_text n)" for n
    using pad_no_bar trim_zeros_subset [of "pad 9 n"] by (auto simp: nano_text_def)
  then show ?thesis
    by (simp add: Format_RFC3339Nano_def date_text_def c year_text_def y clock_text_def pad_no_bar)
qed

lemma cut_bar_first: "CHR ''|'' \<notin> set s \<Longrightarrow> cut_bar (s @ CHR ''|'' # r) = Some (s, r)"
proof -
  assume "CHR ''|'' \<notin> set s"
  then have "\<And>c. c \<in> set s \<Longrightarrow> c \<noteq> CHR ''|''" by blast
  then show ?thesis by (simp add: cut_bar_def dropWhile_append2 takeWhile_append2)
qed

lemma decode_encoded:
  assumes "0 \<le> year_number at" "year_number at < 10000" "isUUID (to_lower lower ident)"
  shows "decodeCursor lower (encodeCursor at ident) = Inr \<lparr>cu_At = at, cu_ID = ident\<rparr>"
  using assms cut_bar_first [OF Format_no_bar [OF assms(1,2)]]
  by (simp add: decodeCursor_def encodeCursor_def b64_roundtrip Parse_Format_RFC3339Nano)

section \<open>Pagination\<close>

lemma latest_filter:
  "latest k n (filter P rows) = take n (filter P (rev (sort_key k rows)))"
  by (simp add: latest_def rev_filter [symmetric] filter_sort)

definition descending :: "('r \<Rightarrow> 'k::linorder) \<Rightarrow> 'r list \<Rightarrow> bool" where
  "descending k rows \<longleftrightarrow> sorted_wrt (\<lambda>x y. k y < k x) rows"

lemma descending_latest: "distinct (map k rows) \<Longrightarrow> descending k (rev (sort_key k rows))"
proof -
  assume d: "distinct (map k rows)"
  have "sorted (map k (sort_key k rows))" by simp
  moreover have "distinct (map k (sort_key k rows))" using d by (simp add: distinct_map)
  ultimately have "sorted_wrt (<) (map k (sort_key k rows))" by (simp add: strict_sorted_iff)
  then show ?thesis by (simp add: descending_def sorted_wrt_rev sorted_wrt_map)
qed

lemma filter_below:
  assumes "descending k (xs @ x # ys)"
  shows "filter (\<lambda>r. k r < k x) (xs @ x # ys) = ys"
proof -
  have "\<forall>r \<in> set xs. \<not> k r < k x" "\<forall>r \<in> set ys. k r < k x"
    using assms by (auto simp: descending_def sorted_wrt_append dest: less_asym)
  then show ?thesis by (auto simp: filter_empty_conv intro: filter_True)
qed

text \<open>
  The rows after a position in a descending list, read a page at a time; \<open>limit\<close> is at least one,
  as \<open>readWindow\<close> makes sure.
\<close>

lemma paginate_more:
  assumes "1 \<le> limit" "limit < int (length rows)"
  shows "paginate (take (nat (limit + 1)) rows) limit key = (take (nat limit) rows, True, key (rows ! nat (limit - 1)))"
proof -
  have "rows \<noteq> []" "nat (limit - 1) = nat limit - 1" "min (length rows) (nat limit) = nat limit" using assms by auto
  then have "last (take (nat limit) rows) = rows ! nat (limit - 1)" using assms by (simp add: last_conv_nth)
  moreover have "take (nat limit) (take (nat (limit + 1)) rows) = take (nat limit) rows"
    using assms by (simp add: min_def)
  ultimately show ?thesis using assms by (simp add: paginate_def Let_def del: take_take)
qed

lemma paginate_last:
  assumes "int (length rows) \<le> limit"
  shows "paginate (take (nat (limit + 1)) rows) limit key = (rows, False, [])"
  using assms by (simp add: paginate_def)

text \<open>A client that asks for a page and, as long as there is more, for the page at the next cursor.\<close>

fun read_pages ::
  "(cursor option \<Rightarrow> 'r list) \<Rightarrow> int \<Rightarrow> ('r \<Rightarrow> string) \<Rightarrow> (bytes \<Rightarrow> bytes) \<Rightarrow> nat \<Rightarrow> cursor option \<Rightarrow> 'r list option" where
  "read_pages rows_at limit key lower 0 cu = None"
| "read_pages rows_at limit key lower (Suc n) cu =
     (case paginate (rows_at cu) limit key of
        (page, False, _) \<Rightarrow> Some page
      | (page, True, next) \<Rightarrow>
          (case decodeCursor lower next of
             Inl _ \<Rightarrow> None
           | Inr c \<Rightarrow> map_option ((@) page) (read_pages rows_at limit key lower n (Some c))))"

text \<open>What Postgres makes sure of in a row that a cursor can point at.\<close>

definition addressable :: "time \<times> string \<Rightarrow> bool" where
  "addressable k \<longleftrightarrow> pg_time (fst k) = fst k \<and> 0 \<le> year_number (fst k) \<and> year_number (fst k) < 10000 \<and>
     isUUID (snd k) \<and> ToLower (snd k) = snd k"

lemma isUUID_ascii:
  assumes "isUUID s"
  shows "list_all (between 0 127) s"
proof -
  have "between 0 127 (s ! i)" if "i < 36" for i
  proof -
    have "if i \<in> {8, 13, 18, 23} then s ! i = CHR ''-''
        else is_digit (s ! i) \<or> between 97 102 (s ! i) \<or> between 65 70 (s ! i)"
      using assms that unfolding isUUID_def list_all_iff by (metis atLeastLessThan_iff le0 set_upt)
    moreover have "between 0 127 CHR ''-''" by (simp add: between_def)
    moreover have "is_digit c \<or> between 97 102 c \<or> between 65 70 c \<Longrightarrow> between 0 127 c" for c
      by (auto simp: is_digit_def between_def)
    ultimately show ?thesis by (metis (full_types))
  qed
  then show ?thesis using assms by (simp add: list_all_length isUUID_def)
qed

lemma decode_addressable:
  assumes "addressable k"
  shows "decodeCursor lower (encodeCursor (fst k) (snd k)) = Inr \<lparr>cu_At = fst k, cu_ID = snd k\<rparr>"
proof -
  have "isUUID (to_lower lower (snd k))"
    using assms isUUID_ascii by (simp add: addressable_def to_lower_def)
  then show ?thesis using assms by (intro decode_encoded) (simp_all add: addressable_def)
qed

text \<open>
  One query: the rows a filter selects below the cursor, the latest first, one more than the page
  holds.
\<close>

definition query_at :: "('r \<Rightarrow> time \<times> string) \<Rightarrow> ('r \<Rightarrow> bool) \<Rightarrow> int \<Rightarrow> 'r list \<Rightarrow> cursor option \<Rightarrow> 'r list" where
  "query_at k P limit rows cu = latest k (nat (limit + 1)) (filter (\<lambda>r. P r \<and> before_cursor cu (k r)) rows)"

lemma query_at_below:
  "query_at k P limit rows cu = take (nat (limit + 1)) (filter (\<lambda>r. before_cursor cu (k r)) (rev (sort_key k (filter P rows))))"
proof -
  have "filter (\<lambda>r. P r \<and> before_cursor cu (k r)) rows = filter (\<lambda>r. before_cursor cu (k r)) (filter P rows)" by simp
  then show ?thesis unfolding query_at_def by (simp only: latest_filter)
qed

lemma read_pages_rest:
  assumes "descending k all" "1 \<le> limit" "\<forall>r \<in> set all. addressable (k r)"
    and "\<And>cu. rows_at cu = take (nat (limit + 1)) (filter (\<lambda>r. before_cursor cu (k r)) all)"
    and "\<And>r. key r = encodeCursor (fst (k r)) (snd (k r))"
    and "filter (\<lambda>r. before_cursor cu (k r)) all = rest" "suffix rest all" "length rest < n"
  shows "read_pages rows_at limit key lower n cu = Some rest"
  using assms(6-8)
proof (induction n arbitrary: cu rest)
  case (Suc n)
  note at = assms(4) [of cu, unfolded Suc.prems(1)]
  show ?case
  proof (cases "int (length rest) \<le> limit")
    case True
    then show ?thesis using paginate_last [OF True] by (simp add: at)
  next
    case False
    let ?i = "nat (limit - 1)" let ?x = "rest ! ?i" let ?c = "\<lparr>cu_At = fst (k ?x), cu_ID = snd (k ?x)\<rparr>"
    have i: "?i < length rest" "nat limit = Suc ?i" using False assms(2) by linarith+
    obtain pre where all: "all = pre @ rest" using Suc.prems(2) by (auto simp: suffix_def)
    have split: "all = (pre @ take ?i rest) @ ?x # drop (nat limit) rest"
      using i id_take_nth_drop [OF i(1)] by (simp add: all)
    have x: "addressable (k ?x)" using assms(3) i(1) by (simp add: all)
    have "before_cursor (Some ?c) (k r) \<longleftrightarrow> k r < k ?x" for r
      using x by (simp add: before_cursor_def addressable_def)
    then have "filter (\<lambda>r. before_cursor (Some ?c) (k r)) all = drop (nat limit) rest"
      using filter_below [of k "pre @ take ?i rest" ?x "drop (nat limit) rest"] assms(1) split by simp
    moreover have "suffix (drop (nat limit) rest) all" using split by (auto simp: suffix_def)
    moreover have "length (drop (nat limit) rest) < n" using Suc.prems(3) i by simp
    ultimately have "read_pages rows_at limit key lower n (Some ?c) = Some (drop (nat limit) rest)" by (rule Suc.IH)
    moreover have "paginate (rows_at cu) limit key = (take (nat limit) rest, True, key ?x)"
      unfolding at using False assms(2) by (intro paginate_more) simp_all
    moreover have "decodeCursor lower (key ?x) = Inr ?c" unfolding assms(5) by (rule decode_addressable [OF x])
    ultimately show ?thesis by simp
  qed
qed simp

text \<open>The intents of a resource inside a window, the latest first.\<close>

definition intents_within :: "string \<Rightarrow> string \<Rightarrow> read_window \<Rightarrow> db \<Rightarrow> intent_row list" where
  "intents_within resourceType resourceID bounds d =
     rev (sort_key intent_key
       (filter (\<lambda>w. w_resource_type w = resourceType \<and> w_resource_id w = resourceID \<and> in_range bounds (w_emitted_at w))
         (write_intents d)))"

definition row_key :: "intentRow \<Rightarrow> time \<times> string" where
  "row_key r = (ir_EmittedAt r, ir_IntentID r)"

lemma row_key_of [simp]: "row_key (intentRow_of u w) = intent_key w"
  by (simp add: row_key_def intentRow_of_def intent_key_def)

lemma scanIntents_below:
  "scanIntents ty rid (bounds\<lparr>rw_cursor := cu\<rparr>) u d =
     take (nat (rw_limit bounds + 1)) (filter (\<lambda>r. before_cursor cu (row_key r)) (map (intentRow_of u) (intents_within ty rid bounds d)))"
proof -
  let ?P = "\<lambda>w. w_resource_type w = ty \<and> w_resource_id w = rid \<and> in_range bounds (w_emitted_at w)"
  have "selectIntents ty rid (bounds\<lparr>rw_cursor := cu\<rparr>) d = query_at intent_key ?P (rw_limit bounds) (write_intents d) cu"
    by (simp add: selectIntents_def query_at_def in_range_def conj_assoc)
  then show ?thesis
    by (simp add: scanIntents_def query_at_below intents_within_def filter_map comp_def take_map)
qed

text \<open>C39: Following the cursors reads the whole window. A client that starts without a cursor and goes
  on to each \<open>next_cursor\<close> receives, over all its pages, exactly the intents of the resource inside the
  window, each once and the latest first, whatever the page size.\<close>

theorem pages_complete:
  assumes "1 \<le> rw_limit bounds" "distinct (map intent_key (write_intents d))"
    and "\<And>w. w \<in> set (write_intents d) \<Longrightarrow> addressable (intent_key w)"
    and "length (intents_within ty rid bounds d) < n"
  shows "read_pages (\<lambda>cu. scanIntents ty rid (bounds\<lparr>rw_cursor := cu\<rparr>) u d) (rw_limit bounds) intent_cursor lower n None =
    Some (map (intentRow_of u) (intents_within ty rid bounds d))"
proof (rule read_pages_rest [OF _ assms(1) _ scanIntents_below])
  let ?all = "map (intentRow_of u) (intents_within ty rid bounds d)"
  have "distinct (map intent_key (filter P (write_intents d)))" for P using assms(2) by (simp add: distinct_map_filter)
  then have "descending intent_key (intents_within ty rid bounds d)" unfolding intents_within_def by (rule descending_latest)
  then show "descending row_key ?all" by (simp add: descending_def sorted_wrt_map)
  show "\<forall>r \<in> set ?all. addressable (row_key r)" using assms(3) by (auto simp: intents_within_def)
  show "intent_cursor r = encodeCursor (fst (row_key r)) (snd (row_key r))" for r
    by (simp add: intent_cursor_def row_key_def)
  show "filter (\<lambda>r. before_cursor None (row_key r)) ?all = ?all" by (simp add: before_cursor_def)
qed (use assms(4) in auto)

definition demo_intents :: db where
  "demo_intents = empty_db\<lparr>write_intents := map (\<lambda>(c, t).
     \<lparr>w_intent_id = ''0190a000-0000-7000-8000-00000000000'' @ [c], w_agent_id = ''billing-agent'', w_idempotency_key = ''k'',
      w_resource_type = ''invoice'', w_resource_id = ''inv-1'', w_operation = ''create_charge'', w_operation_class = ''create'',
      w_scope_selector = None, w_payload = ''{}'', w_emitted_at = t, w_published_at = None, w_voided_at = None\<rparr>)
     [(CHR ''1'', 1000), (CHR ''2'', 3000), (CHR ''3'', 3000)]\<rparr>"

definition demo_bounds :: read_window where
  "demo_bounds = \<lparr>rw_since = 0, rw_until = 5000, rw_limit = 1, rw_cursor = None\<rparr>"

theorem pages_complete_witness:
  "map_option (map ir_EmittedAt)
     (read_pages (\<lambda>cu. scanIntents ''invoice'' ''inv-1'' (demo_bounds\<lparr>rw_cursor := cu\<rparr>) False demo_intents) 1
       intent_cursor (\<lambda>s. s) 4 None) = Some [3000, 3000, 1000]"
proof -
  have a: "1 \<le> rw_limit demo_bounds" "rw_limit demo_bounds = 1" by (simp_all add: demo_bounds_def)
  have d: "distinct (map intent_key (write_intents demo_intents))" by code_simp
  have "list_all (\<lambda>w. addressable (intent_key w)) (write_intents demo_intents)" by code_simp
  then have k: "\<And>w. w \<in> set (write_intents demo_intents) \<Longrightarrow> addressable (intent_key w)" by (simp add: list_all_iff)
  have n: "length (intents_within ''invoice'' ''inv-1'' demo_bounds demo_intents) < 4"
    "map (\<lambda>w. w_emitted_at w) (intents_within ''invoice'' ''inv-1'' demo_bounds demo_intents) = [3000, 3000, 1000]"
    by code_simp+
  have "(\<lambda>w. ir_EmittedAt (intentRow_of False w)) = w_emitted_at" by (simp add: fun_eq_iff intentRow_of_def)
  with pages_complete [OF a(1) d k n(1), of False "\<lambda>s. s"] n(2) show ?thesis by (simp add: a(2) comp_def)
qed

section \<open>Payload access\<close>

text \<open>The same database without any payload.\<close>

definition scrub :: "db \<Rightarrow> db" where
  "scrub d = d\<lparr>write_intents := map (\<lambda>w. w\<lparr>w_payload := []\<rparr>) (write_intents d)\<rparr>"

lemma sort_key_map: "sort_key k (map f xs) = map f (sort_key (\<lambda>x. k (f x)) xs)"
proof (induction xs)
  case (Cons x xs)
  have "insort_key k (f x) (map f ys) = map f (insort_key (\<lambda>x. k (f x)) x ys)" for ys by (induction ys) simp_all
  with Cons show ?case by simp
qed simp

lemma scan_scrubbed: "scanIntents ty rid bounds False (scrub d) = scanIntents ty rid bounds False d"
proof -
  have "(\<lambda>w. intent_key (w\<lparr>w_payload := []\<rparr>)) = intent_key" by (simp add: fun_eq_iff intent_key_def)
  then show ?thesis
    by (simp add: scanIntents_def selectIntents_def latest_def scrub_def filter_map comp_def sort_key_map rev_map take_map
        intentRow_of_def intent_key_def)
qed

definition audited :: "read_env \<Rightarrow> http_request \<Rightarrow> db \<Rightarrow> response \<Rightarrow> db \<Rightarrow> bool" where
  "audited env r d answer d' \<longleftrightarrow>
     (\<exists>row page has_more nxt.
        answer = intents_body env (hr_PathValue r ''resource_type'') (hr_PathValue r ''resource_id'') page has_more nxt \<and>
        payload_access_audit d' = payload_access_audit d @ [row] \<and>
        au_principal row = TrimSpace (hr_Header r HeaderAgentID) \<and> au_caller_role row = RoleInvestigator \<and>
        au_stated_reason row = Some (TrimSpace (hr_Header r headerReason)) \<and> TrimSpace (hr_Header r headerReason) \<noteq> [] \<and>
        au_intent_ids row = Some (map ir_IntentID page) \<and> au_record_count row = int (length page))"

lemma unredacted_caller:
  assumes "readerIdentity r = Inr caller" "payloadRequest r caller = Inr (True, reason)"
  shows "id_AgentID caller = TrimSpace (hr_Header r HeaderAgentID)" "id_Role caller = RoleInvestigator"
    "reason = TrimSpace (hr_Header r headerReason)" "reason \<noteq> []"
  using assms by (auto simp: readerIdentity_def readIdentity_def payloadRequest_def Let_def split: if_splits option.splits)

lemma unredacted_audited:
  assumes "readerIdentity r = Inr caller" "readWindow env s r = Inr bounds" "payloadRequest r caller = Inr (True, reason)"
    and "\<not> rd_begin env" "\<not> rd_query env" "\<not> rd_audit env" "rd_commit env = Committed" "handleIntents env s r d = (answer, d')"
    and "jsonb (rd_pg env) (marshal (string_object (first_values (hr_Query r)))) \<noteq> None"
  shows "audited env r d answer d'"
proof -
  obtain page has_more nxt where page: "paginate (scanIntents (hr_PathValue r ''resource_type'') (hr_PathValue r ''resource_id'')
      bounds True d) (rw_limit bounds) intent_cursor = (page, has_more, nxt)" by (metis prod_cases3)
  have "answer = intents_body env (hr_PathValue r ''resource_type'') (hr_PathValue r ''resource_id'') page has_more nxt"
    "\<exists>row. payload_access_audit d' = payload_access_audit d @ [row] \<and> au_principal row = id_AgentID caller \<and>
      au_caller_role row = id_Role caller \<and> au_stated_reason row = Some reason \<and> au_intent_ids row = Some (map ir_IntentID page) \<and>
      au_record_count row = int (length page)"
    using assms(4-9) by (auto simp: handleIntents_def assms(1-3) recordPayloadAccess_def fresh_uuid_def page)
  with unredacted_caller [OF assms(1,3)] show ?thesis unfolding audited_def by metis
qed

text \<open>C40: No payload leaves unaudited. Either the answer is one that a database without payloads would
  have given, or the caller is an investigator who stated a reason and the audit record was committed
  with the read: it names the caller, the role, the reason, and exactly the intents of the page.\<close>

theorem payloads_audited:
  "case handleIntents env s r d of (answer, d') \<Rightarrow>
     fst (handleIntents env s r (scrub d)) = answer \<or>
     (\<exists>row page has_more nxt.
        answer = intents_body env (hr_PathValue r ''resource_type'') (hr_PathValue r ''resource_id'') page has_more nxt \<and>
        payload_access_audit d' = payload_access_audit d @ [row] \<and>
        au_principal row = TrimSpace (hr_Header r HeaderAgentID) \<and> au_caller_role row = RoleInvestigator \<and>
        au_stated_reason row = Some (TrimSpace (hr_Header r headerReason)) \<and> TrimSpace (hr_Header r headerReason) \<noteq> [] \<and>
        au_intent_ids row = Some (map ir_IntentID page) \<and> au_record_count row = int (length page))"
proof -
  obtain answer d' where run: "handleIntents env s r d = (answer, d')" by force
  have "fst (handleIntents env s r (scrub d)) = answer \<or> audited env r d answer d'"
  proof (cases "readerIdentity r"; cases "readWindow env s r")
    fix caller bounds assume h: "readerIdentity r = Inr caller" "readWindow env s r = Inr bounds"
    show ?thesis
    proof (cases "payloadRequest r caller")
      case (Inr p)
      obtain u reason where p: "p = (u, reason)" by force
      show ?thesis
      proof (cases u)
        case True
        then have "payloadRequest r caller = Inr (True, reason)" by (simp add: Inr p)
        then show ?thesis using unredacted_audited [OF h _ _ _ _ _ run] run
          by (cases "rd_commit env"; cases "jsonb (rd_pg env) (marshal (string_object (first_values (hr_Query r))))")
             (auto simp: handleIntents_def h recordPayloadAccess_def fresh_uuid_def Let_def split: prod.splits if_splits)
      qed (use run h Inr p in \<open>auto simp: handleIntents_def scan_scrubbed Let_def
             split: prod.splits if_splits commit_outcome.splits\<close>)
    qed (use run h in \<open>auto simp: handleIntents_def\<close>)
  qed (use run in \<open>auto simp: handleIntents_def\<close>)
  with run show ?thesis by (simp add: audited_def)
qed

end
