(* ===== verification/Partitions.thy ===== *)
theory Partitions
  imports Calendar Claim
begin

text \<open>
  Partition maintenance (\<open>internal/maintenance/partitions.go\<close>) and the checks of it at start-up
  (\<open>internal/store/verify.go\<close>). The catalog of Postgres is what the statements see of it: the
  partitions attached to a table, each with the half-open range it takes rows of, and the tables that
  stand alone. Bounds are written with whole seconds. Maintenance runs in one transaction under an
  advisory lock, so it is one step of the model. The loop that extends a table ends because every
  partition moves its bound forward; it is a partial function, and that it returns is proved.
\<close>

section \<open>The catalog\<close>

datatype relation =
    IntentTable "intent_row list"
  | ConflictTable "conflict_row list"
  | AuditTable "audit_row list"
  | OtherTable

record partition =
  pt_table :: string
  pt_name :: string
  pt_lower :: time
  pt_upper :: time

record catalog =
  cg_partitions :: "partition list"
  cg_tables :: "(string \<times> relation) list"

definition relation_names :: "catalog \<Rightarrow> string list" where
  "relation_names c = map pt_name (cg_partitions c) @ map fst (cg_tables c)"

definition partitions_of :: "catalog \<Rightarrow> string \<Rightarrow> partition list" where
  "partitions_of c table = filter (\<lambda>p. pt_table p = table) (cg_partitions c)"

definition in_partition :: "partition \<Rightarrow> time \<Rightarrow> bool" where
  "in_partition p t \<longleftrightarrow> pt_lower p \<le> t \<and> t < pt_upper p"

text \<open>
  \<open>CREATE TABLE IF NOT EXISTS\<close>: nothing when the name is taken; an error when the range is empty or
  meets that of another partition.
\<close>

definition create_partition :: "partition \<Rightarrow> catalog \<Rightarrow> catalog option" where
  "create_partition p c =
     (if pt_name p \<in> set (relation_names c) then Some c
      else if pt_upper p \<le> pt_lower p \<or>
              list_ex (\<lambda>q. pt_lower q < pt_upper p \<and> pt_lower p < pt_upper q) (partitions_of c (pt_table p))
      then None
      else Some (c\<lparr>cg_partitions := cg_partitions c @ [p]\<rparr>))"

section \<open>Maintenance\<close>

text \<open>The two layouts in use, \<open>20060102\<close> and \<open>200601\<close>.\<close>

datatype layout = YearMonthDay | YearMonth

fun format_layout :: "layout \<Rightarrow> time \<Rightarrow> string" where
  "format_layout YearMonthDay t = Format_day t"
| "format_layout YearMonth t = Format_month t"

record Partitioned =
  pd_Name :: string
  pd_Layout :: layout
  pd_Days :: int
  pd_Months :: int

definition pd_next :: "Partitioned \<Rightarrow> time \<Rightarrow> time" where
  "pd_next p from = AddDate (pd_Months p) (pd_Days p) from"

definition partitionName :: "Partitioned \<Rightarrow> time \<Rightarrow> string" where
  "partitionName p lower = pd_Name p @ ''_'' @ format_layout (pd_Layout p) lower"

definition Tables :: "Partitioned list" where
  "Tables =
     [\<lparr>pd_Name = ''write_intents'', pd_Layout = YearMonthDay, pd_Days = 7, pd_Months = 0\<rparr>,
      \<lparr>pd_Name = ''conflicts'', pd_Layout = YearMonthDay, pd_Days = 7, pd_Months = 0\<rparr>,
      \<lparr>pd_Name = ''payload_access_audit'', pd_Layout = YearMonth, pd_Days = 0, pd_Months = 1\<rparr>]"

text \<open>\<open>date_trunc('week', \<dots>)\<close>: the Monday; the first day of 1970 was a Thursday.\<close>

definition week_start :: "time \<Rightarrow> time" where
  "week_start t = ((t div Day + 3) div 7 * 7 - 3) * Day"

definition latest_bound :: "partition list \<Rightarrow> time option" where
  "latest_bound ps = (case ps of [] \<Rightarrow> None | p # qs \<Rightarrow> Some (foldl max (pt_upper p) (map pt_upper qs)))"

definition upperBound :: "time \<Rightarrow> catalog \<Rightarrow> string \<Rightarrow> time" where
  "upperBound now c table =
     (case latest_bound (partitions_of c table) of None \<Rightarrow> week_start now | Some u \<Rightarrow> u)"

definition whole_seconds :: "time \<Rightarrow> time" where
  "whole_seconds t = t div Second * Second"

datatype maintenance_error =
    BeginMaintenance | MaintenanceLock | ReadBounds string | CreatePartition string time | CommitMaintenance

record maintenance_faults =
  mf_begin :: bool
  mf_lock :: bool
  mf_bounds :: "string \<Rightarrow> bool"
  mf_create :: "string \<Rightarrow> bool"
  mf_commit :: commit_outcome

text \<open>
  The loop of \<open>extend\<close> from a boundary. The last component counts the calls of the function
  \<open>created\<close>, which is told of a partition before the transaction commits.
\<close>

partial_function (option) extend_from ::
  "maintenance_faults \<Rightarrow> Partitioned \<Rightarrow> time \<Rightarrow> time \<Rightarrow> catalog \<times> string list
   \<Rightarrow> (maintenance_error option \<times> catalog \<times> string list) option" where
  "extend_from f table horizon boundary st =
     (if boundary < horizon then
        (let upper = pd_next table boundary;
             p = \<lparr>pt_table = pd_Name table, pt_name = partitionName table boundary,
                  pt_lower = whole_seconds boundary, pt_upper = whole_seconds upper\<rparr>
         in if mf_create f (pt_name p) then Some (Some (CreatePartition (pd_Name table) boundary), st)
            else case create_partition p (fst st) of
              None \<Rightarrow> Some (Some (CreatePartition (pd_Name table) boundary), st)
            | Some c \<Rightarrow> extend_from f table horizon upper (c, snd st @ [pd_Name table]))
      else Some (None, st))"

definition extend ::
  "maintenance_faults \<Rightarrow> time \<Rightarrow> Partitioned \<Rightarrow> time \<Rightarrow> catalog \<times> string list
   \<Rightarrow> (maintenance_error option \<times> catalog \<times> string list) option" where
  "extend f now table horizon st =
     (if mf_bounds f (pd_Name table) then Some (Some (ReadBounds (pd_Name table)), st)
      else extend_from f table horizon (upperBound now (fst st) (pd_Name table)) st)"

fun extend_all ::
  "maintenance_faults \<Rightarrow> time \<Rightarrow> Partitioned list \<Rightarrow> time \<Rightarrow> catalog \<times> string list
   \<Rightarrow> (maintenance_error option \<times> catalog \<times> string list) option" where
  "extend_all f now [] horizon st = Some (None, st)"
| "extend_all f now (table # tables) horizon st =
     Option.bind (extend f now table horizon st) (\<lambda>(err, st').
       case err of Some e \<Rightarrow> Some (Some e, st') | None \<Rightarrow> extend_all f now tables horizon st')"

text \<open>\<open>tx_now\<close> is the time of the transaction, \<open>now\<close> that of the process.\<close>

definition EnsurePartitions ::
  "maintenance_faults \<Rightarrow> time \<Rightarrow> time \<Rightarrow> duration \<Rightarrow> catalog
   \<Rightarrow> (maintenance_error option \<times> catalog \<times> string list) option" where
  "EnsurePartitions f tx_now now ahead c =
     (if mf_begin f then Some (Some BeginMaintenance, c, [])
      else if mf_lock f then Some (Some MaintenanceLock, c, [])
      else
        Option.bind (extend_all f tx_now Tables (now + ahead) (c, [])) (\<lambda>(err, c', created).
          case err of
            Some e \<Rightarrow> Some (Some e, c, created)
          | None \<Rightarrow>
              (case mf_commit f of
                 Committed \<Rightarrow> Some (None, c', created)
               | CommitFailed \<Rightarrow> Some (Some CommitMaintenance, c, created)
               | CommitUnseen \<Rightarrow> Some (Some CommitMaintenance, c', created))))"

section \<open>Checks at start-up\<close>

datatype verify_error =
    ReadConstraint | WrongConstraint string | ReadPartitionBounds string | LittleHeadroom string duration

definition expectedKeyConstraint :: string where
  "expectedKeyConstraint = ''agent_id,idempotency_key''"

text \<open>
  The columns of all primary and unique constraints of \<open>idempotency_keys\<close>, in one list ordered by
  position; \<open>None\<close> when the query fails.
\<close>

definition VerifyUniqueConstraint :: "string list option \<Rightarrow> verify_error option" where
  "VerifyUniqueConstraint columns =
     (case columns of
        None \<Rightarrow> Some ReadConstraint
      | Some [] \<Rightarrow> Some ReadConstraint
      | Some cs \<Rightarrow>
          if Join cs '','' \<noteq> expectedKeyConstraint then Some (WrongConstraint (Join cs '','')) else None)"

text \<open>A table without partitions has no bound, and the scan of the null reports an error.\<close>

definition PartitionHeadroom :: "(string \<Rightarrow> bool) \<Rightarrow> time \<Rightarrow> catalog \<Rightarrow> string \<Rightarrow> verify_error + duration" where
  "PartitionHeadroom fails now c table =
     (if fails table then Inl (ReadPartitionBounds table)
      else case latest_bound (partitions_of c table) of
        None \<Rightarrow> Inl (ReadPartitionBounds table)
      | Some latest \<Rightarrow> Inr (latest - now))"

fun verify_tables :: "(string \<Rightarrow> bool) \<Rightarrow> time \<Rightarrow> catalog \<Rightarrow> duration \<Rightarrow> string list \<Rightarrow> verify_error option" where
  "verify_tables fails now c minimum [] = None"
| "verify_tables fails now c minimum (table # tables) =
     (case PartitionHeadroom fails now c table of
        Inl e \<Rightarrow> Some e
      | Inr headroom \<Rightarrow>
          if headroom < minimum then Some (LittleHeadroom table headroom) else verify_tables fails now c minimum tables)"

definition VerifyPartitionHeadroom :: "(string \<Rightarrow> bool) \<Rightarrow> time \<Rightarrow> catalog \<Rightarrow> duration \<Rightarrow> verify_error option" where
  "VerifyPartitionHeadroom fails now c minimum =
     verify_tables fails now c minimum [''write_intents'', ''conflicts'', ''payload_access_audit'']"

section \<open>How far one partition reaches\<close>

lemma Tables_cases:
  assumes "table \<in> set Tables"
  obtains (week) "pd_Layout table = YearMonthDay" "pd_Days table = 7" "pd_Months table = 0"
  | (month) "pd_Layout table = YearMonth" "pd_Days table = 0" "pd_Months table = 1"
  using assms by (auto simp: Tables_def)

lemma pd_next_days:
  assumes "table \<in> set Tables"
  shows "\<exists>k \<ge> 1. pd_next table t = t + k * Day"
  using assms
proof (cases rule: Tables_cases)
  case week
  then show ?thesis by (auto simp: pd_next_def AddDate_days intro: exI [of _ 7])
next
  case month
  obtain y m d where c: "date_of t = (y, m, d)" by (metis prod_cases3)
  show ?thesis
    using month AddDate_month [OF c] days_in_bounds [OF date_sound(2) [OF c]]
    by (auto simp: pd_next_def intro!: exI [of _ "days_in y m"])
qed

lemma Day_pos: "0 < Day"
  by (simp add: Day_value)

lemma pd_next_later: "table \<in> set Tables \<Longrightarrow> t + Day \<le> pd_next table t"
  using pd_next_days [of table t] Day_pos by (auto intro: mult_right_mono [of 1 _ Day, simplified])

lemma whole_seconds_next:
  assumes "table \<in> set Tables" "whole_seconds t = t"
  shows "whole_seconds (pd_next table t) = pd_next table t"
proof -
  obtain k where "pd_next table t = t + k * Day" using pd_next_days [OF assms(1)] by blast
  moreover have "k * Day = k * 86400 * Second" by (simp add: go_consts)
  ultimately have "pd_next table t div Second = t div Second + k * 86400" by (simp add: Second_def)
  then show ?thesis using assms(2) \<open>pd_next table t = t + k * Day\<close> by (simp add: whole_seconds_def distrib_right Day_value Second_def)
qed

text \<open>Partitions of one table that do not start inside one another have different names.\<close>

lemma partitionName_later:
  assumes "table \<in> set Tables" "four_digit_years t" "four_digit_years t'" "pd_next table t \<le> t'"
  shows "partitionName table t \<noteq> partitionName table t'"
  using assms(1)
proof (cases rule: Tables_cases)
  case week
  have "date_of t \<noteq> date_of t'" using day_left [of t t'] pd_next_later [OF assms(1), of t] assms(4) by simp
  then show ?thesis using Format_inject(2) [OF assms(2,3)] week by (cases "date_of t"; cases "date_of t'") (simp add: partitionName_def)
next
  case month
  obtain y m d where c: "date_of t = (y, m, d)" by (metis prod_cases3)
  obtain y' m' d' where c': "date_of t' = (y', m', d')" by (metis prod_cases3)
  have "t + days_in y m * Day \<le> t'" using assms(4) month AddDate_month [OF c] by (simp add: pd_next_def)
  from month_left [OF c this c'] show ?thesis
    using Format_inject(1) [OF assms(2,3) c c'] month by (auto simp: partitionName_def)
qed

section \<open>The shape of the catalog\<close>

text \<open>
  Every partition is one that maintenance (or the first migration) made: it starts where its name
  says and ends one step later, and the ranges of a table are apart. A table that stands alone, a
  partition detached for its age or one restored, never has the name of a partition still to come.
\<close>

definition regular :: "partition \<Rightarrow> bool" where
  "regular p \<longleftrightarrow>
     list_ex (\<lambda>table. pt_table p = pd_Name table \<and> pt_name p = partitionName table (pt_lower p) \<and>
                     pt_upper p = pd_next table (pt_lower p)) Tables \<and>
     whole_seconds (pt_lower p) = pt_lower p \<and> four_digit_years (pt_lower p)"

definition apart :: "partition \<Rightarrow> partition \<Rightarrow> bool" where
  "apart p q \<longleftrightarrow> pt_table p = pt_table q \<longrightarrow> pt_upper p \<le> pt_lower q \<or> pt_upper q \<le> pt_lower p"

definition well_partitioned :: "catalog \<Rightarrow> bool" where
  "well_partitioned c \<longleftrightarrow> list_all regular (cg_partitions c) \<and> sorted_wrt apart (cg_partitions c)"

definition names_left :: "time \<Rightarrow> catalog \<Rightarrow> bool" where
  "names_left tx_now c \<longleftrightarrow>
     (\<forall>n \<in> set (map fst (cg_tables c)). \<forall>table \<in> set Tables. \<forall>t \<ge> upperBound tx_now c (pd_Name table).
        n \<noteq> partitionName table t)"

fun tiles :: "time \<Rightarrow> partition list \<Rightarrow> time \<Rightarrow> bool" where
  "tiles b [] h \<longleftrightarrow> h \<le> b"
| "tiles b (p # ps) h \<longleftrightarrow> pt_lower p = b \<and> b < pt_upper p \<and> b < h \<and> tiles (pt_upper p) ps h"

definition with_partitions :: "catalog \<Rightarrow> partition list \<Rightarrow> catalog" where
  "with_partitions c new = c\<lparr>cg_partitions := cg_partitions c @ new\<rparr>"

lemma with_partitions_simps [simp]:
  "cg_partitions (with_partitions c new) = cg_partitions c @ new"
  "cg_tables (with_partitions c new) = cg_tables c"
  "with_partitions c [] = c"
  "with_partitions (with_partitions c new) more' = with_partitions c (new @ more')"
  "partitions_of (with_partitions c new) table = partitions_of c table @ filter (\<lambda>p. pt_table p = table) new"
  by (simp_all add: with_partitions_def partitions_of_def)

lemma tiles_bounds:
  assumes "tiles b ps h" "p \<in> set ps"
  shows "b \<le> pt_lower p \<and> pt_lower p < pt_upper p"
  using assms by (induction ps arbitrary: b) (auto, fastforce+)

lemma tiles_once:
  assumes "tiles b ps h" "b \<le> t" "t < h"
  shows "length (filter (\<lambda>p. in_partition p t) ps) = 1"
  using assms
proof (induction ps arbitrary: b)
  case (Cons p ps)
  show ?case
  proof (cases "t < pt_upper p")
    case True
    have "filter (\<lambda>q. in_partition q t) ps = []"
      using tiles_bounds [of "pt_upper p" ps h] Cons.prems True by (force simp: filter_empty_conv in_partition_def)
    then show ?thesis using Cons.prems True by (simp add: in_partition_def)
  next
    case False
    then show ?thesis using Cons.IH [of "pt_upper p"] Cons.prems by (simp add: in_partition_def)
  qed
qed simp

lemma foldl_max:
  "a \<le> foldl max (a :: int) xs" "x \<in> set xs \<Longrightarrow> x \<le> foldl max a xs" "foldl max a xs \<in> insert a (set xs)"
proof -
  have eq: "foldl max a xs = Max (insert a (set xs))" for a
  proof (induction xs arbitrary: a)
    case (Cons x xs)
    have "Max (insert (max a x) (set xs)) = Max (insert a (insert x (set xs)))"
      by (cases "xs = []") (simp_all add: max.assoc)
    with Cons.IH [of "max a x"] show ?case by simp
  qed simp
  show "a \<le> foldl max (a :: int) xs" "x \<in> set xs \<Longrightarrow> x \<le> foldl max a xs" by (simp_all add: eq)
  show "foldl max a xs \<in> insert a (set xs)" unfolding eq by (rule Max_in) simp_all
qed

lemma latest_bound:
  "latest_bound ps = None \<longleftrightarrow> ps = []"
  "latest_bound ps = Some u \<Longrightarrow> p \<in> set ps \<Longrightarrow> pt_upper p \<le> u"
  "latest_bound ps = Some u \<Longrightarrow> \<exists>p \<in> set ps. u = pt_upper p"
  using foldl_max by (auto simp: latest_bound_def split: list.splits) fastforce+

lemma tiles_reach:
  assumes "tiles b ps h" "b < h"
  shows "\<exists>p \<in> set ps. h \<le> pt_upper p"
  using assms by (induction ps arbitrary: b) (auto, metis not_le)

section \<open>What one run does\<close>

lemma Tables_names:
  assumes "table \<in> set Tables" "table' \<in> set Tables"
  shows "pd_Name table = pd_Name table' \<longleftrightarrow> table = table'"
    "partitionName table t = partitionName table' t' \<Longrightarrow> table = table'"
  using assms unfolding Tables_def partitionName_def by (elim set_ConsD [elim_format] disjE; simp)+

lemma regularE:
  assumes "regular p" "pt_table p = pd_Name table" "table \<in> set Tables"
  shows "pt_name p = partitionName table (pt_lower p)" "pt_upper p = pd_next table (pt_lower p)"
    "whole_seconds (pt_upper p) = pt_upper p" "four_digit_years (pt_lower p)" "pt_lower p < pt_upper p"
proof -
  show n: "pt_name p = partitionName table (pt_lower p)" and u: "pt_upper p = pd_next table (pt_lower p)"
    using assms Tables_names(1) by (auto simp: regular_def list_ex_iff)
  show "whole_seconds (pt_upper p) = pt_upper p" using assms u whole_seconds_next by (simp add: regular_def)
  show "four_digit_years (pt_lower p)" using assms by (simp add: regular_def)
  show "pt_lower p < pt_upper p" using u pd_next_later [OF assms(3), of "pt_lower p"] Day_pos by simp
qed

lemma regular_name_new:
  assumes "regular q" "table \<in> set Tables" "four_digit_years b"
    and "pt_table q = pd_Name table \<Longrightarrow> pt_upper q \<le> b"
  shows "pt_name q \<noteq> partitionName table b"
proof (cases "pt_table q = pd_Name table")
  case True
  note q = regularE [OF assms(1) True assms(2)]
  show ?thesis using partitionName_later [OF assms(2) q(4) assms(3)] q(1,2) assms(4) [OF True] by simp
next
  case False
  then obtain table' where "table' \<in> set Tables" "pt_table q = pd_Name table'" "pt_name q = partitionName table' (pt_lower q)"
    using assms(1) by (auto simp: regular_def list_ex_iff)
  then show ?thesis using Tables_names(2) [OF _ assms(2)] False by metis
qed

text \<open>What holds at a boundary of the loop.\<close>

definition at_boundary :: "Partitioned \<Rightarrow> time \<Rightarrow> catalog \<Rightarrow> bool" where
  "at_boundary table b c \<longleftrightarrow>
     well_partitioned c \<and> whole_seconds b = b \<and> 0 \<le> b \<and>
     (\<forall>p \<in> set (partitions_of c (pd_Name table)). pt_upper p \<le> b) \<and>
     (\<forall>n \<in> set (map fst (cg_tables c)). \<forall>t \<ge> b. n \<noteq> partitionName table t)"

definition next_partition :: "Partitioned \<Rightarrow> time \<Rightarrow> partition" where
  "next_partition table b =
     \<lparr>pt_table = pd_Name table, pt_name = partitionName table b, pt_lower = b, pt_upper = pd_next table b\<rparr>"

lemma create_next:
  assumes "table \<in> set Tables" "at_boundary table b c" "four_digit_years b"
  shows "create_partition (next_partition table b) c = Some (with_partitions c [next_partition table b])"
    "at_boundary table (pd_next table b) (with_partitions c [next_partition table b])"
proof -
  let ?p = "next_partition table b"
  have ps: "\<forall>p \<in> set (partitions_of c (pd_Name table)). pt_upper p \<le> b" and wp: "well_partitioned c"
    and tabs: "\<And>n t. n \<in> set (map fst (cg_tables c)) \<Longrightarrow> b \<le> t \<Longrightarrow> n \<noteq> partitionName table t"
    using assms(2) by (auto simp: at_boundary_def)
  have later: "b < pd_next table b" using pd_next_later [OF assms(1), of b] Day_pos by simp
  have "pt_name q \<noteq> partitionName table b" if "q \<in> set (cg_partitions c)" for q
    using that wp ps regular_name_new [OF _ assms(1,3)] by (auto simp: well_partitioned_def list_all_iff partitions_of_def)
  then have "pt_name ?p \<notin> set (relation_names c)" using tabs [of _ b] by (fastforce simp: relation_names_def next_partition_def)
  then show "create_partition ?p c = Some (with_partitions c [?p])"
    using later ps by (auto simp: create_partition_def with_partitions_def next_partition_def list_ex_iff)
  have "regular ?p" using assms by (auto simp: regular_def next_partition_def list_ex_iff at_boundary_def)
  moreover have "\<forall>q \<in> set (cg_partitions c). apart q ?p" using ps by (auto simp: apart_def next_partition_def partitions_of_def)
  ultimately have "well_partitioned (with_partitions c [?p])" using wp by (simp add: well_partitioned_def sorted_wrt_append)
  then show "at_boundary table (pd_next table b) (with_partitions c [?p])"
    using assms(1,2) ps later tabs whole_seconds_next [OF assms(1), of b]
    by (auto simp: at_boundary_def next_partition_def)
qed

lemma extend_from_tiles:
  assumes "table \<in> set Tables" "\<And>n. \<not> mf_create f n" "h \<le> 2932897 * Day" "at_boundary table b (fst st)"
  shows "\<exists>new. extend_from f table h b st = Some (None, with_partitions (fst st) new, snd st @ map pt_table new) \<and>
    well_partitioned (with_partitions (fst st) new) \<and> (\<forall>p \<in> set new. pt_table p = pd_Name table) \<and> tiles b new h"
  using assms(4)
proof (induction "nat (h - b)" arbitrary: b st rule: less_induct)
  case less
  show ?case
  proof (cases "b < h")
    case False
    then show ?thesis using less.prems by (intro exI [of _ "[]"]) (simp add: extend_from.simps at_boundary_def)
  next
    case True
    let ?p = "next_partition table b" and ?u = "pd_next table b"
    have four: "four_digit_years b" using True assms(3) less.prems by (simp add: four_digit_years_def at_boundary_def)
    note c = create_next [OF assms(1) less.prems four]
    have later: "b < ?u" using pd_next_later [OF assms(1), of b] Day_pos by simp
    have whole: "whole_seconds b = b" "whole_seconds ?u = ?u"
      using less.prems whole_seconds_next [OF assms(1)] by (simp_all add: at_boundary_def)
    have step: "extend_from f table h b st = extend_from f table h ?u (with_partitions (fst st) [?p], snd st @ [pd_Name table])"
      using c(1) True assms(2) whole by (subst extend_from.simps) (simp add: next_partition_def Let_def)
    obtain new where "extend_from f table h ?u (with_partitions (fst st) [?p], snd st @ [pd_Name table]) =
        Some (None, with_partitions (fst st) (?p # new), snd st @ pd_Name table # map pt_table new)"
      "well_partitioned (with_partitions (fst st) (?p # new))" "\<forall>p \<in> set new. pt_table p = pd_Name table" "tiles ?u new h"
      using less.hyps [of ?u "(with_partitions (fst st) [?p], snd st @ [pd_Name table])"] c(2) later True by auto
    then show ?thesis using step later True by (intro exI [of _ "?p # new"]) (simp add: next_partition_def)
  qed
qed

lemma week_start: "t - 7 * Day < week_start t" "week_start t \<le> t" "whole_seconds (week_start t) = week_start t"
proof -
  define n where "n = t div Day"
  have t: "n * Day \<le> t" "t < (n + 1) * Day" by (simp_all add: n_def Day_value) 
  have w: "n - 7 < (n + 3) div 7 * 7 - 3" "(n + 3) div 7 * 7 - 3 \<le> n" by presburger+
  then have "(n - 7 + 1) * Day \<le> week_start t" "week_start t \<le> n * Day"
    unfolding week_start_def n_def [symmetric] using Day_pos by (auto intro!: mult_right_mono)
  with t show "t - 7 * Day < week_start t" "week_start t \<le> t" by (simp_all add: algebra_simps)
  show "whole_seconds (week_start t) = week_start t" by (simp add: whole_seconds_def week_start_def go_consts)
qed

lemma upperBound_boundary:
  assumes "well_partitioned c" "names_left tx_now c" "table \<in> set Tables" "7 * Day \<le> tx_now"
  shows "at_boundary table (upperBound tx_now c (pd_Name table)) c"
proof -
  let ?ps = "partitions_of c (pd_Name table)"
  have ps: "whole_seconds (pt_upper p) = pt_upper p" "0 \<le> pt_upper p" if "p \<in> set ?ps" for p
    using that regularE [of p table] assms(1,3)
    by (auto simp: well_partitioned_def list_all_iff partitions_of_def four_digit_years_def)
  show ?thesis
  proof (cases "latest_bound ?ps")
    case None
    then show ?thesis using assms week_start [of tx_now] latest_bound(1) [of ?ps]
      by (auto simp: at_boundary_def upperBound_def names_left_def)
  next
    case (Some u)
    then show ?thesis using assms latest_bound(2,3) [OF Some] ps
      by (force simp: at_boundary_def upperBound_def names_left_def)
  qed
qed

lemma upperBound_other:
  assumes "\<forall>p \<in> set new. pt_table p \<noteq> table"
  shows "upperBound tx_now (with_partitions c new) table = upperBound tx_now c table"
proof -
  have "filter (\<lambda>p. pt_table p = table) new = []" using assms by (auto simp: filter_empty_conv)
  then show ?thesis by (simp add: upperBound_def)
qed

lemma at_boundary_other:
  assumes "at_boundary table b c" "well_partitioned (with_partitions c new)" "\<forall>p \<in> set new. pt_table p \<noteq> pd_Name table"
  shows "at_boundary table b (with_partitions c new)"
  using assms by (auto simp: at_boundary_def)

lemma extend_all_tiles:
  assumes "\<And>n. \<not> mf_create f n" "\<And>n. \<not> mf_bounds f n" "h \<le> 2932897 * Day" "set tables \<subseteq> set Tables" "distinct tables"
    "\<forall>table \<in> set tables. at_boundary table (upperBound tx_now (fst st) (pd_Name table)) (fst st)" "well_partitioned (fst st)"
  shows "\<exists>new. extend_all f tx_now tables h st = Some (None, with_partitions (fst st) new, snd st @ map pt_table new) \<and>
    well_partitioned (with_partitions (fst st) new) \<and> (\<forall>p \<in> set new. pt_table p \<in> pd_Name ` set tables) \<and>
    (\<forall>table \<in> set tables. tiles (upperBound tx_now (fst st) (pd_Name table)) (filter (\<lambda>p. pt_table p = pd_Name table) new) h)"
  using assms(4-)
proof (induction tables arbitrary: st)
  case Nil
  then show ?case by (intro exI [of _ "[]"]) simp
next
  case (Cons table tables)
  let ?c = "fst st"
  have table: "table \<in> set Tables" "at_boundary table (upperBound tx_now ?c (pd_Name table)) ?c" using Cons.prems by auto
  from extend_from_tiles [OF table(1) assms(1,3) table(2)]
  obtain new where new: "extend f tx_now table h st = Some (None, with_partitions ?c new, snd st @ map pt_table new)"
    "well_partitioned (with_partitions ?c new)" "\<forall>p \<in> set new. pt_table p = pd_Name table"
    "tiles (upperBound tx_now ?c (pd_Name table)) new h"
    using assms(2) by (auto simp: extend_def)
  let ?st = "(with_partitions ?c new, snd st @ map pt_table new)"
  have others: "pd_Name t \<noteq> pd_Name table" if "t \<in> set tables" for t
    using that Cons.prems(1,2) Tables_names(1) [of t table] by auto
  have same: "upperBound tx_now (with_partitions ?c new) (pd_Name t) = upperBound tx_now ?c (pd_Name t)"
    "filter (\<lambda>p. pt_table p = pd_Name t) new = []" if "t \<in> set tables" for t
    using others [OF that] new(3) by (auto intro!: upperBound_other simp: filter_empty_conv)
  have "\<forall>t \<in> set tables. at_boundary t (upperBound tx_now (fst ?st) (pd_Name t)) (fst ?st)"
  proof
    fix t assume t: "t \<in> set tables"
    have "\<forall>p \<in> set new. pt_table p \<noteq> pd_Name t" using others [OF t] new(3) by auto
    with t Cons.prems(3) new(2) show "at_boundary t (upperBound tx_now (fst ?st) (pd_Name t)) (fst ?st)"
      by (simp add: same at_boundary_other)
  qed
  with Cons.IH [of ?st] Cons.prems new(2) obtain new' where
    new': "extend_all f tx_now tables h ?st = Some (None, with_partitions ?c (new @ new'), snd st @ map pt_table (new @ new'))"
      "well_partitioned (with_partitions ?c (new @ new'))" "\<forall>p \<in> set new'. pt_table p \<in> pd_Name ` set tables"
      "\<forall>t \<in> set tables. tiles (upperBound tx_now (with_partitions ?c new) (pd_Name t)) (filter (\<lambda>p. pt_table p = pd_Name t) new') h"
    by auto
  have "filter (\<lambda>p. pt_table p = pd_Name table) new' = []" using new'(3) others by (auto simp: filter_empty_conv)
  moreover have "filter (\<lambda>p. pt_table p = pd_Name table) new = new" using new(3) by (simp add: filter_id_conv)
  ultimately show ?case using new new' same by (intro exI [of _ "new @ new'"]) auto
qed

lemma extend_all_done:
  assumes "\<And>n. \<not> mf_bounds f n" "\<forall>table \<in> set tables. h \<le> upperBound tx_now (fst st) (pd_Name table)"
  shows "extend_all f tx_now tables h st = Some (None, st)"
  using assms(2) by (induction tables) (use assms(1) in \<open>auto simp: extend_def extend_from.simps\<close>)

definition maintenance_healthy :: "maintenance_faults \<Rightarrow> bool" where
  "maintenance_healthy f \<longleftrightarrow> \<not> mf_begin f \<and> \<not> mf_lock f \<and> (\<forall>n. \<not> mf_bounds f n \<and> \<not> mf_create f n) \<and> mf_commit f = Committed"

lemma reaches_headroom:
  assumes "\<And>table. table \<in> set Tables \<Longrightarrow> \<exists>p \<in> set (partitions_of c (pd_Name table)). now + ahead \<le> pt_upper p"
  shows "VerifyPartitionHeadroom (\<lambda>_. False) now c ahead = None"
    "table \<in> set Tables \<Longrightarrow> now + ahead \<le> upperBound tx_now c (pd_Name table)"
proof -
  have *: "\<exists>u. latest_bound (partitions_of c (pd_Name table)) = Some u \<and> now + ahead \<le> u" if "table \<in> set Tables" for table
    using assms [OF that] latest_bound(1,2) [of "partitions_of c (pd_Name table)"]
    by (cases "latest_bound (partitions_of c (pd_Name table))") (auto intro: order_trans)
  show "table \<in> set Tables \<Longrightarrow> now + ahead \<le> upperBound tx_now c (pd_Name table)" using * [of table] by (auto simp: upperBound_def)
  have "\<exists>u. PartitionHeadroom (\<lambda>_. False) now c n = Inr u \<and> \<not> u < ahead" if "n \<in> pd_Name ` set Tables" for n
    using * that by (fastforce simp: PartitionHeadroom_def)
  from this [of "''write_intents''"] this [of "''conflicts''"] this [of "''payload_access_audit''"]
  show "VerifyPartitionHeadroom (\<lambda>_. False) now c ahead = None"
    by (auto simp: VerifyPartitionHeadroom_def Tables_def)
qed

lemma week_reaches: "tx_now \<le> now \<Longrightarrow> 0 < ahead \<Longrightarrow> partitions_of c table = [] \<Longrightarrow> upperBound tx_now c table < now + ahead"
  using week_start(2) [of tx_now] by (simp add: upperBound_def latest_bound_def)

lemma tiles_headroom:
  assumes "tiles (upperBound tx_now c table) (filter (\<lambda>p. pt_table p = table) new) (now + ahead)" "tx_now \<le> now" "0 < ahead"
  shows "\<exists>p \<in> set (partitions_of (with_partitions c new) table). now + ahead \<le> pt_upper p"
proof (cases "upperBound tx_now c table < now + ahead")
  case True
  then show ?thesis using tiles_reach [OF assms(1)] by auto
next
  case False
  then obtain u where "latest_bound (partitions_of c table) = Some u" "now + ahead \<le> u"
    using week_reaches [OF assms(2,3), of c table] latest_bound(1) [of "partitions_of c table"]
    by (cases "latest_bound (partitions_of c table)") (auto simp: upperBound_def)
  then show ?thesis using latest_bound(3) by fastforce
qed

lemma covered_once:
  assumes "well_partitioned c" "table \<in> set Tables" "tiles b (filter (\<lambda>p. pt_table p = pd_Name table) new) h"
    "b = upperBound tx_now c (pd_Name table)" "b \<le> t" "t < h"
  shows "length (filter (\<lambda>p. in_partition p t) (partitions_of (with_partitions c new) (pd_Name table))) = 1"
proof -
  have "\<not> in_partition p t" if p: "p \<in> set (partitions_of c (pd_Name table))" for p
  proof -
    obtain u where "latest_bound (partitions_of c (pd_Name table)) = Some u" "pt_upper p \<le> u"
      using p latest_bound(1,2) [of "partitions_of c (pd_Name table)"] by (cases "latest_bound (partitions_of c (pd_Name table))") auto
    then show ?thesis using assms(4,5) by (simp add: upperBound_def in_partition_def)
  qed
  then show ?thesis using tiles_once [OF assms(3,5,6)] by (simp add: filter_empty_conv)
qed

text \<open>
  C28. Partition maintenance keeps the tables writable: a run that meets no failure returns; it keeps
  every partition and standing table there was and adds partitions under names not in use; every
  moment from the old bound to the horizon then falls into exactly one partition of each table; the
  start-up check for that headroom passes; and a second run changes nothing.
\<close>

theorem EnsurePartitions_covers:
  assumes "maintenance_healthy f" "well_partitioned c" "names_left tx_now c"
    and "7 * Day \<le> tx_now" "tx_now \<le> now" "0 < ahead" "now + ahead \<le> 2932897 * Day"
  shows "\<exists>new. let c' = c\<lparr>cg_partitions := cg_partitions c @ new\<rparr> in
    EnsurePartitions f tx_now now ahead c = Some (None, c', map pt_table new) \<and>
    well_partitioned c' \<and>
    (\<forall>table \<in> set Tables. \<forall>t. upperBound tx_now c (pd_Name table) \<le> t \<and> t < now + ahead \<longrightarrow>
       length (filter (\<lambda>p. in_partition p t) (partitions_of c' (pd_Name table))) = 1) \<and>
    VerifyPartitionHeadroom (\<lambda>_. False) now c' ahead = None \<and>
    EnsurePartitions f tx_now now ahead c' = Some (None, c', [])"
proof -
  have f: "\<And>n. \<not> mf_create f n" "\<And>n. \<not> mf_bounds f n" "\<not> mf_begin f" "\<not> mf_lock f" "mf_commit f = Committed"
    using assms(1) by (simp_all add: maintenance_healthy_def)
  have "\<forall>table \<in> set Tables. at_boundary table (upperBound tx_now (fst (c, [])) (pd_Name table)) (fst (c, []))"
    using upperBound_boundary [OF assms(2,3) _ assms(4)] by simp
  moreover have "distinct Tables" by (simp add: Tables_def)
  ultimately obtain new where new: "extend_all f tx_now Tables (now + ahead) (c, []) = Some (None, with_partitions c new, map pt_table new)"
    "well_partitioned (with_partitions c new)"
    "\<And>table. table \<in> set Tables \<Longrightarrow> tiles (upperBound tx_now c (pd_Name table)) (filter (\<lambda>p. pt_table p = pd_Name table) new) (now + ahead)"
    using extend_all_tiles [OF f(1,2) assms(7), of Tables tx_now "(c, [])"] assms(2) by auto
  note room = reaches_headroom [OF tiles_headroom [OF new(3) assms(5,6)]]
  show ?thesis
    using new f room covered_once [OF assms(2) _ new(3) refl] extend_all_done [OF f(2), of Tables "now + ahead" tx_now]
    by (intro exI [of _ new]) (simp add: with_partitions_def [symmetric] EnsurePartitions_def Let_def)
qed

definition no_maintenance_faults :: maintenance_faults where
  "no_maintenance_faults =
     \<lparr>mf_begin = False, mf_lock = False, mf_bounds = (\<lambda>_. False), mf_create = (\<lambda>_. False), mf_commit = Committed\<rparr>"

definition empty_catalog :: catalog where
  "empty_catalog = \<lparr>cg_partitions = [], cg_tables = []\<rparr>"

theorem EnsurePartitions_covers_witness:
  "\<exists>new. EnsurePartitions no_maintenance_faults (20000 * Day) (20000 * Day) (30 * Day) empty_catalog =
     Some (None, empty_catalog\<lparr>cg_partitions := new\<rparr>, map pt_table new) \<and>
     VerifyPartitionHeadroom (\<lambda>_. False) (20000 * Day) (empty_catalog\<lparr>cg_partitions := new\<rparr>) (30 * Day) = None"
  using EnsurePartitions_covers [of no_maintenance_faults empty_catalog "20000 * Day" "20000 * Day" "30 * Day"]
  by (auto simp: maintenance_healthy_def no_maintenance_faults_def well_partitioned_def names_left_def empty_catalog_def Day_value Let_def)

end
