(* ===== verification/Migrate.thy ===== *)
theory Migrate
  imports Partitions Manifest
begin

text \<open>
  Schema migration (\<open>internal/store/migrate.go\<close>). The embedded files are a parameter, and so is what
  executing one does to the database, \<open>None\<close> where Postgres raises. A process holds the migration
  lock while it works, so a run is one step; each migration is a transaction that executes the file
  and records its version. The ledger is a table with the version as its key, \<open>None\<close> before it is
  created.
\<close>

record 'd schema =
  sc_ledger :: "string list option"
  sc_db :: 'd

record migration =
  mg_version :: string
  mg_body :: bytes

record migrate_faults =
  mgf_acquire :: bool
  mgf_lock :: bool
  mgf_ledger :: commit_outcome
  mgf_read :: bool
  mgf_begin :: "string \<Rightarrow> bool"
  mgf_exec :: "string \<Rightarrow> bool"
  mgf_record :: "string \<Rightarrow> bool"
  mgf_commit :: "string \<Rightarrow> commit_outcome"

datatype migrate_error =
    AcquireConnection | MigrationLock | CreateLedger | ReadLedger | ListMigrations | ReadMigration string
  | ApplyBegin string | ApplyExec string | ApplyRecord string | ApplyCommit string

type_synonym sql_files = "(string \<times> bytes option) list option"

definition createLedger :: "commit_outcome \<Rightarrow> 'd schema \<Rightarrow> migrate_error option \<times> 'd schema" where
  "createLedger outcome s =
     (let s' = s\<lparr>sc_ledger := Some (case sc_ledger s of None \<Rightarrow> [] | Some vs \<Rightarrow> vs)\<rparr> in
      case outcome of
        Committed \<Rightarrow> (None, s')
      | CommitFailed \<Rightarrow> (Some CreateLedger, s)
      | CommitUnseen \<Rightarrow> (Some CreateLedger, s'))"

definition appliedVersions :: "migrate_faults \<Rightarrow> 'd schema \<Rightarrow> string list option" where
  "appliedVersions f s = (if mgf_read f then None else sc_ledger s)"

definition version_of :: "string \<Rightarrow> string" where
  "version_of name = TrimSuffix name ''.sql''"

fun pending_from :: "string list \<Rightarrow> (string \<times> bytes option) list \<Rightarrow> migrate_error + migration list" where
  "pending_from applied [] = Inr []"
| "pending_from applied ((name, content) # files) =
     (if version_of name \<in> set applied then pending_from applied files
      else case content of
        None \<Rightarrow> Inl (ReadMigration name)
      | Some body \<Rightarrow>
          (case pending_from applied files of
             Inl e \<Rightarrow> Inl e
           | Inr ms \<Rightarrow> Inr (\<lparr>mg_version = version_of name, mg_body = body\<rparr> # ms)))"

definition pendingMigrations :: "sql_files \<Rightarrow> string list \<Rightarrow> migrate_error + migration list" where
  "pendingMigrations files applied =
     (case files of
        None \<Rightarrow> Inl ListMigrations
      | Some fs \<Rightarrow> pending_from applied (sort_key fst fs))"

definition apply_migration ::
  "migrate_faults \<Rightarrow> (bytes \<Rightarrow> 'd \<Rightarrow> 'd option) \<Rightarrow> migration \<Rightarrow> 'd schema \<Rightarrow> migrate_error option \<times> 'd schema" where
  "apply_migration f exec m s =
     (let v = mg_version m; ledger = the (sc_ledger s) in
      if mgf_begin f v then (Some (ApplyBegin v), s)
      else case (if mgf_exec f v then None else exec (mg_body m) (sc_db s)) of
        None \<Rightarrow> (Some (ApplyExec v), s)
      | Some d \<Rightarrow>
          if mgf_record f v \<or> v \<in> set ledger then (Some (ApplyRecord v), s)
          else
            (let s' = \<lparr>sc_ledger = Some (ledger @ [v]), sc_db = d\<rparr> in
             case mgf_commit f v of
               Committed \<Rightarrow> (None, s')
             | CommitFailed \<Rightarrow> (Some (ApplyCommit v), s)
             | CommitUnseen \<Rightarrow> (Some (ApplyCommit v), s')))"

fun apply_all ::
  "migrate_faults \<Rightarrow> (bytes \<Rightarrow> 'd \<Rightarrow> 'd option) \<Rightarrow> migration list \<Rightarrow> 'd schema \<Rightarrow> migrate_error option \<times> 'd schema" where
  "apply_all f exec [] s = (None, s)"
| "apply_all f exec (m # ms) s =
     (case apply_migration f exec m s of
        (Some e, s') \<Rightarrow> (Some e, s')
      | (None, s') \<Rightarrow> apply_all f exec ms s')"

definition Migrate_schema ::
  "migrate_faults \<Rightarrow> sql_files \<Rightarrow> (bytes \<Rightarrow> 'd \<Rightarrow> 'd option) \<Rightarrow> 'd schema \<Rightarrow> migrate_error option \<times> 'd schema" where
  "Migrate_schema f files exec s =
     (if mgf_acquire f then (Some AcquireConnection, s)
      else if mgf_lock f then (Some MigrationLock, s)
      else case createLedger (mgf_ledger f) s of
        (Some e, s1) \<Rightarrow> (Some e, s1)
      | (None, s1) \<Rightarrow>
          (case appliedVersions f s1 of
             None \<Rightarrow> (Some ReadLedger, s1)
           | Some applied \<Rightarrow>
               (case pendingMigrations files applied of
                  Inl e \<Rightarrow> (Some e, s1)
                | Inr pending \<Rightarrow> apply_all f exec pending s1)))"

text \<open>Any number of processes migrate one after the other.\<close>

fun migrate_runs ::
  "migrate_faults list \<Rightarrow> sql_files \<Rightarrow> (bytes \<Rightarrow> 'd \<Rightarrow> 'd option) \<Rightarrow> 'd schema \<Rightarrow> 'd schema" where
  "migrate_runs [] files exec s = s"
| "migrate_runs (f # fs) files exec s = migrate_runs fs files exec (snd (Migrate_schema f files exec s))"

section \<open>Once and in order\<close>

fun exec_all :: "(bytes \<Rightarrow> 'd \<Rightarrow> 'd option) \<Rightarrow> bytes list \<Rightarrow> 'd \<Rightarrow> 'd option" where
  "exec_all exec [] d = Some d"
| "exec_all exec (b # bs) d = Option.bind (exec b d) (exec_all exec bs)"

lemma exec_all_append: "exec_all exec (as @ bs) d = Option.bind (exec_all exec as d) (exec_all exec bs)"
  by (induction as arbitrary: d) (auto split: bind_splits)

definition all_migrations :: "(string \<times> bytes) list \<Rightarrow> migration list" where
  "all_migrations fs = map (\<lambda>(n, b). \<lparr>mg_version = version_of n, mg_body = b\<rparr>) (sort_key fst fs)"

text \<open>The first migrations in the order of their names are recorded, and they are what was executed.\<close>

definition migrated_to :: "(bytes \<Rightarrow> 'd \<Rightarrow> 'd option) \<Rightarrow> migration list \<Rightarrow> 'd \<Rightarrow> nat \<Rightarrow> 'd schema \<Rightarrow> bool" where
  "migrated_to exec ms d0 k s \<longleftrightarrow>
     k \<le> length ms \<and> (case sc_ledger s of None \<Rightarrow> [] | Some vs \<Rightarrow> vs) = map mg_version (take k ms) \<and>
     exec_all exec (map mg_body (take k ms)) d0 = Some (sc_db s)"

lemma sort_key_map_files:
  fixes fs :: "(string \<times> bytes) list"
  shows "sort_key fst (map (\<lambda>(n, b). (n, Some b)) fs) = map (\<lambda>(n, b). (n, Some b)) (sort_key fst fs)"
proof -
  have "insort_key fst (n, Some b) (map (\<lambda>(n, b). (n, Some b)) xs) = map (\<lambda>(n, b). (n, Some b)) (insort_key fst (n, b) xs)"
    for n :: string and b :: bytes and xs by (induction xs) auto
  then show ?thesis by (induction fs) auto
qed

lemma pending_from_drop:
  assumes "\<And>name. name \<in> set (map fst xs) \<Longrightarrow> version_of name \<in> set applied \<longleftrightarrow> False"
  shows "pending_from applied (map (\<lambda>(n, b). (n, Some b)) xs) = Inr (map (\<lambda>(n, b). \<lparr>mg_version = version_of n, mg_body = b\<rparr>) xs)"
  using assms by (induction xs) auto

lemma pending_from_take:
  assumes "\<And>name. name \<in> set (map fst xs) \<Longrightarrow> version_of name \<in> set applied"
  shows "pending_from applied (map (\<lambda>(n, b). (n, Some b)) xs @ ys) = pending_from applied ys"
  using assms by (induction xs) auto

lemma pendingMigrations_drop:
  assumes "distinct (map mg_version (all_migrations fs))" "applied = map mg_version (take k (all_migrations fs))"
  shows "pendingMigrations (Some (map (\<lambda>(n, b). (n, Some b)) fs)) applied = Inr (drop k (all_migrations fs))"
proof -
  define xs where "xs = sort_key fst fs"
  let ?f = "\<lambda>(n, b). (n, Some b)" and ?m = "\<lambda>(n, b). \<lparr>mg_version = version_of n, mg_body = b\<rparr>"
  have vs: "map mg_version (all_migrations fs) = map (version_of \<circ> fst) xs"
    by (simp add: all_migrations_def xs_def split_def)
  have applied: "set applied = (version_of \<circ> fst) ` set (take k xs)"
    unfolding assms(2) take_map [symmetric] vs by (simp add: take_map)
  have "distinct (map (version_of \<circ> fst) (take k xs) @ map (version_of \<circ> fst) (drop k xs))"
    using assms(1) unfolding vs map_append [symmetric] by simp
  then have "(version_of \<circ> fst) ` set (take k xs) \<inter> (version_of \<circ> fst) ` set (drop k xs) = {}" by simp
  then have new: "version_of n \<notin> set applied" if "n \<in> set (map fst (drop k xs))" for n
    using that unfolding applied by auto
  have "map ?f xs = map ?f (take k xs) @ map ?f (drop k xs)" by (metis append_take_drop_id map_append)
  then have "pending_from applied (map ?f xs) = pending_from applied (map ?f (drop k xs))"
    using pending_from_take [of "take k xs" applied] applied by auto
  also have "\<dots> = Inr (map ?m (drop k xs))" using new by (intro pending_from_drop) auto
  also have "map ?m (drop k xs) = drop k (all_migrations fs)" by (simp add: all_migrations_def xs_def drop_map)
  finally show ?thesis by (simp add: pendingMigrations_def sort_key_map_files xs_def)
qed

lemma apply_migration_step:
  assumes "distinct (map mg_version ms)" "migrated_to exec ms d0 k s" "k < length ms" "sc_ledger s \<noteq> None"
    "apply_migration f exec (ms ! k) s = (err, s')"
  shows "sc_ledger s' \<noteq> None \<and> (if err = None then migrated_to exec ms d0 (Suc k) s' else migrated_to exec ms d0 k s' \<or> migrated_to exec ms d0 (Suc k) s')"
proof -
  have "s' = s \<and> err \<noteq> None \<or> (\<exists>d. exec (mg_body (ms ! k)) (sc_db s) = Some d \<and>
      s' = \<lparr>sc_ledger = Some (the (sc_ledger s) @ [mg_version (ms ! k)]), sc_db = d\<rparr>)"
    using assms(5) by (auto simp: apply_migration_def Let_def split: if_splits option.splits commit_outcome.splits)
  then show ?thesis
    using assms(2-4) by (auto simp: migrated_to_def take_Suc_conv_app_nth exec_all_append)
qed

lemma apply_all_from:
  assumes "distinct (map mg_version ms)" "migrated_to exec ms d0 k s" "sc_ledger s \<noteq> None"
    "apply_all f exec (drop k ms) s = (err, s')"
  shows "(\<exists>k' \<ge> k. migrated_to exec ms d0 k' s') \<and> (err = None \<longrightarrow> migrated_to exec ms d0 (length ms) s' \<and> sc_ledger s' \<noteq> None)"
  using assms(2-)
proof (induction "length ms - k" arbitrary: k s)
  case 0
  then show ?case by (auto simp: migrated_to_def)
next
  case (Suc n)
  then have k: "k < length ms" by linarith
  obtain err1 s1 where step: "apply_migration f exec (ms ! k) s = (err1, s1)" by force
  note st = apply_migration_step [OF assms(1) Suc.prems(1) k Suc.prems(2) step]
  show ?case
  proof (cases err1)
    case None
    then have "apply_all f exec (drop (Suc k) ms) s1 = (err, s')"
      using Suc.prems(3) step by (simp add: Cons_nth_drop_Suc [OF k, symmetric])
    moreover have "n = length ms - Suc k" using Suc.hyps(2) by simp
    ultimately show ?thesis using Suc.hyps(1) [of "Suc k" s1] st None Suc_leD by (metis (full_types))
  next
    case (Some e)
    then have "s' = s1" "err \<noteq> None" using Suc.prems(3) step by (auto simp: Cons_nth_drop_Suc [OF k, symmetric])
    then show ?thesis using st Some by (auto intro: le_SucI)
  qed
qed

lemma Migrate_run:
  assumes "distinct (map mg_version (all_migrations fs))" "migrated_to exec (all_migrations fs) d0 k s"
    "Migrate_schema f (Some (map (\<lambda>(n, b). (n, Some b)) fs)) exec s = (err, s')"
  shows "(\<exists>k' \<ge> k. migrated_to exec (all_migrations fs) d0 k' s') \<and>
    (err = None \<longrightarrow> migrated_to exec (all_migrations fs) d0 (length fs) s' \<and> sc_ledger s' \<noteq> None)"
proof -
  let ?ms = "all_migrations fs" and ?s1 = "s\<lparr>sc_ledger := Some (case sc_ledger s of None \<Rightarrow> [] | Some vs \<Rightarrow> vs)\<rparr>"
  have len: "length ?ms = length fs" by (simp add: all_migrations_def)
  have s1: "migrated_to exec ?ms d0 k ?s1" using assms(2) by (simp add: migrated_to_def)
  have pend: "pendingMigrations (Some (map (\<lambda>(n, b). (n, Some b)) fs)) (the (sc_ledger ?s1)) = Inr (drop k ?ms)"
    using pendingMigrations_drop [OF assms(1)] s1 by (simp add: migrated_to_def)
  consider "s' = s" "err \<noteq> None" | "s' = ?s1" "err \<noteq> None" | "apply_all f exec (drop k ?ms) ?s1 = (err, s')"
    using assms(3) pend
    by (auto simp: Migrate_schema_def createLedger_def appliedVersions_def Let_def split: if_splits commit_outcome.splits)
  then show ?thesis
  proof cases
    case 3
    then show ?thesis using apply_all_from [OF assms(1) s1 _ 3] len by simp
  qed (use assms(2) s1 in auto)
qed

lemma migrate_runs_to:
  assumes "distinct (map mg_version (all_migrations fs))" "migrated_to exec (all_migrations fs) d0 k s"
  shows "\<exists>k'. migrated_to exec (all_migrations fs) d0 k' (migrate_runs runs (Some (map (\<lambda>(n, b). (n, Some b)) fs)) exec s)"
  using assms(2)
proof (induction runs arbitrary: k s)
  case (Cons f runs)
  show ?case
    using Cons.IH Migrate_run [OF assms(1) Cons.prems prod.collapse [symmetric], of f] by auto
qed auto

text \<open>
  C29. Every migration is executed once and in order: after any number of runs that may fail anywhere,
  with commits that may go unseen, the ledger names the first migrations in the order of their files
  and the database is what executing exactly these, each once, makes of the empty one. A run that
  reports success has them all.
\<close>

theorem Migrate_once:
  fixes exec :: "bytes \<Rightarrow> 'd \<Rightarrow> 'd option" and d0 :: 'd and runs :: "migrate_faults list" and fs :: "(string \<times> bytes) list"
  assumes "distinct (map mg_version (all_migrations fs))"
  defines "files \<equiv> Some (map (\<lambda>(n, b). (n, Some b)) fs)"
  defines "s \<equiv> migrate_runs runs files exec \<lparr>sc_ledger = None, sc_db = d0\<rparr>"
  shows "(\<exists>k. (case sc_ledger s of None \<Rightarrow> [] | Some vs \<Rightarrow> vs) = map mg_version (take k (all_migrations fs)) \<and>
        exec_all exec (map mg_body (take k (all_migrations fs))) d0 = Some (sc_db s)) \<and>
    (\<forall>f s'. Migrate_schema f files exec s = (None, s') \<longrightarrow>
        sc_ledger s' = Some (map mg_version (all_migrations fs)) \<and>
        exec_all exec (map mg_body (all_migrations fs)) d0 = Some (sc_db s'))"
proof -
  have "migrated_to exec (all_migrations fs) d0 0 \<lparr>sc_ledger = None, sc_db = d0\<rparr>" by (simp add: migrated_to_def)
  from migrate_runs_to [OF assms(1) this] obtain k where k: "migrated_to exec (all_migrations fs) d0 k s"
    unfolding s_def files_def by blast
  have len: "length (all_migrations fs) = length fs" by (simp add: all_migrations_def)
  show ?thesis
    using k Migrate_run [OF assms(1) k] len unfolding files_def by (fastforce simp: migrated_to_def)
qed

definition calm_migrate :: migrate_faults where
  "calm_migrate =
     \<lparr>mgf_acquire = False, mgf_lock = False, mgf_ledger = Committed, mgf_read = False, mgf_begin = (\<lambda>_. False),
      mgf_exec = (\<lambda>_. False), mgf_record = (\<lambda>_. False), mgf_commit = (\<lambda>_. Committed)\<rparr>"

definition shipped_migrations :: "(string \<times> bytes) list" where
  "shipped_migrations = [(''0002_conflict_detection.sql'', ''two''), (''0001_init.sql'', ''one'')]"

lemma shipped_order:
  "map mg_version (all_migrations shipped_migrations) = [''0001_init'', ''0002_conflict_detection'']"
  "map mg_body (all_migrations shipped_migrations) = [''one'', ''two'']"
  by code_simp+

definition log_exec :: "bytes \<Rightarrow> bytes list \<Rightarrow> bytes list option" where
  "log_exec b log = Some (log @ [b])"

text \<open>The first run loses sight of its first commit, the second meets a failing ledger, the third succeeds.\<close>

definition shipped_runs :: "migrate_faults list" where
  "shipped_runs = [calm_migrate\<lparr>mgf_commit := (\<lambda>_. CommitUnseen)\<rparr>, calm_migrate\<lparr>mgf_read := True\<rparr>, calm_migrate]"

definition shipped_log :: "bytes list schema" where
  "shipped_log =
     migrate_runs shipped_runs
       (Some (map (\<lambda>(n, b). (n, Some b)) shipped_migrations)) log_exec \<lparr>sc_ledger = None, sc_db = []\<rparr>"

lemma shipped_log: "sc_db shipped_log = [''one'', ''two'']"
  by code_simp

theorem Migrate_once_witness:
  "\<exists>k. (case sc_ledger shipped_log of None \<Rightarrow> [] | Some vs \<Rightarrow> vs) = take k [''0001_init'', ''0002_conflict_detection''] \<and>
     exec_all log_exec (take k [''one'', ''two'']) [] = Some [''one'', ''two'']"
proof -
  have "distinct (map mg_version (all_migrations shipped_migrations))" by (simp add: shipped_order)
  from Migrate_once [OF this, where runs = shipped_runs and exec = log_exec and ?d0.0 = "[]"] show ?thesis
    unfolding shipped_log_def [symmetric] take_map [symmetric] shipped_order shipped_log by blast
qed

end
