(* ===== verification/Archive.thy ===== *)
theory Archive
  imports Partitions Results
begin

text \<open>
  The archive of retired partitions (\<open>internal/archive/archive.go\<close> and \<open>schema.go\<close>): the rows of
  a part become the records of a Parquet file in the object store, and back. The state is the
  database, its catalog and the bucket. A part still attached holds the rows of its parent that
  lie in its range; a detached one stands alone with its rows. Parquet is a parameter: what a writer
  does with the records it is given and what a reader makes of the bytes. So are the casts of
  Postgres on the way back. The columns that may be NULL (\<open>scope_selector\<close>, \<open>manifest_version\<close>,
  \<open>intent_ids\<close>, \<open>stated_reason\<close>) are exported through \<open>coalesce\<close>, so what comes back is a row with the
  empty value where NULL was; the reads and the relay print the two differently for \<open>scope_selector\<close>.
\<close>

section \<open>Relations\<close>

record store_state =
  st_db :: db
  st_catalog :: catalog
  st_bucket :: bucket

definition attached_rows :: "db \<Rightarrow> partition \<Rightarrow> relation" where
  "attached_rows d p =
     (if pt_table p = ''write_intents'' then IntentTable (filter (\<lambda>w. in_partition p (w_emitted_at w)) (write_intents d))
      else if pt_table p = ''conflicts'' then ConflictTable (filter (\<lambda>r. in_partition p (c_detected_at r)) (conflicts d))
      else AuditTable (filter (\<lambda>a. in_partition p (au_accessed_at a)) (payload_access_audit d)))"

definition relation_of :: "store_state \<Rightarrow> string \<Rightarrow> relation option" where
  "relation_of s name =
     (case map_of (cg_tables (st_catalog s)) name of
        Some r \<Rightarrow> Some r
      | None \<Rightarrow> map_option (attached_rows (st_db s)) (List.find (\<lambda>p. pt_name p = name) (cg_partitions (st_catalog s))))"

definition base_tables :: "string list" where
  "base_tables = [''idempotency_keys'', ''write_intents'', ''conflicts'', ''payload_access_audit'',
                  ''manifest_activations'', ''schema_migrations'']"

section \<open>Records\<close>

record intentRecord =
  IntentID :: string
  AgentID :: string
  IdempotencyKey :: string
  ir_ResourceType :: string
  ir_ResourceID :: string
  ir_Operation :: string
  OperationClass :: string
  ScopeSelector :: "string slice"
  ir_Payload :: string
  EmittedAt :: int
  PublishedAt :: int
  VoidedAt :: int

record conflictRecord =
  ConflictID :: string
  IntentIDA :: string
  IntentIDB :: string
  AgentIDA :: string
  AgentIDB :: string
  cr_ResourceType :: string
  cr_ResourceID :: string
  Reason :: string
  Resolution :: string
  ManifestVersion :: string
  DetectedAt :: int

record auditRecord =
  AuditID :: string
  Principal :: string
  CallerRole :: string
  Endpoint :: string
  QueryParams :: string
  RecordCount :: int
  IntentIDs :: "string slice"
  StatedReason :: string
  AccessedAt :: int

definition UnixMicro :: "time \<Rightarrow> int" where
  "UnixMicro t = t div Microsecond"

definition of_UnixMicro :: "int \<Rightarrow> time" where
  "of_UnixMicro v = v * Microsecond"

definition micros :: "time option \<Rightarrow> int" where
  "micros t = (case t of None \<Rightarrow> 0 | Some t \<Rightarrow> UnixMicro t)"

definition fromMicros :: "int \<Rightarrow> time option" where
  "fromMicros value = (if value = 0 then None else Some (of_UnixMicro value))"

definition intent_record :: "intent_row \<Rightarrow> intentRecord" where
  "intent_record w =
     \<lparr>IntentID = w_intent_id w, AgentID = w_agent_id w, IdempotencyKey = w_idempotency_key w,
      ir_ResourceType = w_resource_type w, ir_ResourceID = w_resource_id w, ir_Operation = w_operation w,
      OperationClass = w_operation_class w, ScopeSelector = Some (elems (w_scope_selector w)), ir_Payload = w_payload w,
      EmittedAt = UnixMicro (w_emitted_at w), PublishedAt = micros (w_published_at w),
      VoidedAt = micros (w_voided_at w)\<rparr>"

definition conflict_record :: "conflict_row \<Rightarrow> conflictRecord" where
  "conflict_record r =
     \<lparr>ConflictID = c_conflict_id r, IntentIDA = c_intent_id_a r, IntentIDB = c_intent_id_b r,
      AgentIDA = c_agent_id_a r, AgentIDB = c_agent_id_b r, cr_ResourceType = c_resource_type r,
      cr_ResourceID = c_resource_id r, Reason = c_reason r, Resolution = resolution_text (c_resolution r),
      ManifestVersion = coalesce (c_manifest_version r), DetectedAt = UnixMicro (c_detected_at r)\<rparr>"

definition audit_record :: "audit_row \<Rightarrow> auditRecord" where
  "audit_record a =
     \<lparr>AuditID = au_audit_id a, Principal = au_principal a, CallerRole = au_caller_role a,
      Endpoint = au_endpoint a, QueryParams = au_query_params a, RecordCount = au_record_count a,
      IntentIDs = Some (elems (au_intent_ids a)), StatedReason = coalesce (au_stated_reason a),
      AccessedAt = UnixMicro (au_accessed_at a)\<rparr>"

section \<open>Parameters\<close>

text \<open>
  A writer accepts records and yields the file on closing; a reader yields records. The casts
  \<open>::uuid\<close> and \<open>::jsonb\<close> raise (\<open>None\<close>) or give the stored form; \<open>ae_row\<close> lets the statement
  for a row fail. \<open>ae_objects\<close> are the failures of the object store.
\<close>

record 'r parquet =
  pq_write :: "'r list \<Rightarrow> bool"
  pq_close :: "'r list \<Rightarrow> bytes option"
  pq_read :: "bytes \<Rightarrow> 'r list option"

record archive_env =
  ae_intents :: "intentRecord parquet"
  ae_conflicts :: "conflictRecord parquet"
  ae_audit :: "auditRecord parquet"
  ae_objects :: object_faults
  ae_query :: "string \<Rightarrow> bool"
  ae_row :: "string \<Rightarrow> nat \<Rightarrow> bool"
  ae_create :: "string \<Rightarrow> bool"
  ae_uuid :: "string \<Rightarrow> string option"
  ae_jsonb :: "bytes \<Rightarrow> bytes option"

datatype archive_error =
    NoSchema string | ReadPartition string | WriteParquet string | CloseParquet string
  | Storage object_error | CreateTable string | ReadParquet | RestoreRow string

section \<open>Export\<close>

definition objectName :: "string \<Rightarrow> string \<Rightarrow> string" where
  "objectName table part = table @ ''/'' @ part @ ''.parquet''"

definition archive_scanIntents :: "archive_env \<Rightarrow> store_state \<Rightarrow> string \<Rightarrow> archive_error + intentRecord list" where
  "archive_scanIntents e s part =
     (if ae_query e part then Inl (ReadPartition part)
      else case relation_of s part of
        Some (IntentTable rows) \<Rightarrow> Inr (map intent_record rows)
      | _ \<Rightarrow> Inl (ReadPartition part))"

definition archive_scanConflicts :: "archive_env \<Rightarrow> store_state \<Rightarrow> string \<Rightarrow> archive_error + conflictRecord list" where
  "archive_scanConflicts e s part =
     (if ae_query e part then Inl (ReadPartition part)
      else case relation_of s part of
        Some (ConflictTable rows) \<Rightarrow> Inr (map conflict_record rows)
      | _ \<Rightarrow> Inl (ReadPartition part))"

definition archive_scanAudit :: "archive_env \<Rightarrow> store_state \<Rightarrow> string \<Rightarrow> archive_error + auditRecord list" where
  "archive_scanAudit e s part =
     (if ae_query e part then Inl (ReadPartition part)
      else case relation_of s part of
        Some (AuditTable rows) \<Rightarrow> Inr (map audit_record rows)
      | _ \<Rightarrow> Inl (ReadPartition part))"

definition exportRows :: "'r parquet \<Rightarrow> (archive_error + 'r list) \<Rightarrow> string \<Rightarrow> archive_error + bytes" where
  "exportRows q scan part =
     (case scan of
        Inl e \<Rightarrow> Inl e
      | Inr rows \<Rightarrow>
          if 0 < length rows \<and> \<not> pq_write q rows then Inl (WriteParquet part)
          else case pq_close q rows of
            None \<Rightarrow> Inl (CloseParquet part)
          | Some body \<Rightarrow> Inr body)"

definition export :: "archive_env \<Rightarrow> store_state \<Rightarrow> string \<Rightarrow> string \<Rightarrow> archive_error + bytes" where
  "export e s table part =
     (if table = ''write_intents'' then exportRows (ae_intents e) (archive_scanIntents e s part) part
      else if table = ''conflicts'' then exportRows (ae_conflicts e) (archive_scanConflicts e s part) part
      else if table = ''payload_access_audit'' then exportRows (ae_audit e) (archive_scanAudit e s part) part
      else Inl (NoSchema table))"

definition Archive_Archive ::
  "archive_env \<Rightarrow> string \<Rightarrow> string \<Rightarrow> store_state \<Rightarrow> archive_error option \<times> store_state" where
  "Archive_Archive e table part s =
     (case export e s table part of
        Inl err \<Rightarrow> (Some err, s)
      | Inr body \<Rightarrow>
          (case Client_Put (ae_objects e) (objectName table part) body (st_bucket s) of
             (err, b) \<Rightarrow> (map_option Storage err, s\<lparr>st_bucket := b\<rparr>)))"

section \<open>Restore\<close>

fun resolution_in :: "string \<Rightarrow> resolution option" where
  "resolution_in t =
     (if t = ''serialized'' then Some ResolutionSerialized
      else if t = ''rejected'' then Some ResolutionRejected
      else if t = ''observed'' then Some ResolutionObserved else None)"

definition operation_class_in :: "string \<Rightarrow> string option" where
  "operation_class_in t =
     (if t \<in> set [''create'', ''replace'', ''mutate'', ''append'', ''delete''] then Some t else None)"

fun casts :: "('a \<Rightarrow> 'b option) \<Rightarrow> 'a list \<Rightarrow> 'b list option" where
  "casts f [] = Some []"
| "casts f (x # xs) = Option.bind (f x) (\<lambda>y. map_option ((#) y) (casts f xs))"

definition cast_slice :: "('a \<Rightarrow> 'b option) \<Rightarrow> 'a slice \<Rightarrow> 'b slice option" where
  "cast_slice f xs = (case xs of None \<Rightarrow> Some None | Some xs \<Rightarrow> map_option Some (casts f xs))"

definition insertIntent :: "archive_env \<Rightarrow> intentRecord \<Rightarrow> intent_row option" where
  "insertIntent e r =
     Option.bind (ae_uuid e (IntentID r)) (\<lambda>intent.
     Option.bind (ae_uuid e (IdempotencyKey r)) (\<lambda>key.
     Option.bind (operation_class_in (OperationClass r)) (\<lambda>class.
     Option.bind (ae_jsonb e (ir_Payload r)) (\<lambda>payload.
       Some \<lparr>w_intent_id = intent, w_agent_id = AgentID r, w_idempotency_key = key,
             w_resource_type = ir_ResourceType r, w_resource_id = ir_ResourceID r, w_operation = ir_Operation r,
             w_operation_class = class, w_scope_selector = ScopeSelector r, w_payload = payload,
             w_emitted_at = of_UnixMicro (EmittedAt r), w_published_at = fromMicros (PublishedAt r),
             w_voided_at = fromMicros (VoidedAt r)\<rparr>))))"

definition insertConflict :: "archive_env \<Rightarrow> conflictRecord \<Rightarrow> conflict_row option" where
  "insertConflict e r =
     Option.bind (ae_uuid e (ConflictID r)) (\<lambda>conflict.
     Option.bind (ae_uuid e (IntentIDA r)) (\<lambda>a.
     Option.bind (ae_uuid e (IntentIDB r)) (\<lambda>b.
     Option.bind (resolution_in (Resolution r)) (\<lambda>resolution.
       Some \<lparr>c_conflict_id = conflict, c_intent_id_a = a, c_intent_id_b = b, c_agent_id_a = AgentIDA r,
             c_agent_id_b = AgentIDB r, c_resource_type = cr_ResourceType r, c_resource_id = cr_ResourceID r,
             c_reason = Reason r, c_resolution = resolution, c_manifest_version = Some (ManifestVersion r),
             c_detected_at = of_UnixMicro (DetectedAt r)\<rparr>))))"

definition insertAudit :: "archive_env \<Rightarrow> auditRecord \<Rightarrow> audit_row option" where
  "insertAudit e r =
     Option.bind (ae_uuid e (AuditID r)) (\<lambda>audit.
     Option.bind (ae_jsonb e (QueryParams r)) (\<lambda>params.
     Option.bind (cast_slice (ae_uuid e) (IntentIDs r)) (\<lambda>ids.
       Some \<lparr>au_audit_id = audit, au_principal = Principal r, au_caller_role = CallerRole r,
             au_endpoint = Endpoint r, au_query_params = params, au_record_count = RecordCount r,
             au_intent_ids = ids, au_stated_reason = Some (StatedReason r),
             au_accessed_at = of_UnixMicro (AccessedAt r)\<rparr>)))"

text \<open>Rows are inserted one by one, each in a transaction of its own; those before a failure stay.\<close>

fun insert_rows :: "(nat \<Rightarrow> bool) \<Rightarrow> ('r \<Rightarrow> 'w option) \<Rightarrow> nat \<Rightarrow> 'r list \<Rightarrow> 'w list \<Rightarrow> bool \<times> 'w list" where
  "insert_rows fails ins i [] acc = (True, acc)"
| "insert_rows fails ins i (r # rs) acc =
     (if fails i then (False, acc)
      else case ins r of None \<Rightarrow> (False, acc) | Some w \<Rightarrow> insert_rows fails ins (Suc i) rs (acc @ [w]))"

definition restoreRows ::
  "archive_env \<Rightarrow> 'r parquet \<Rightarrow> ('r \<Rightarrow> 'w option) \<Rightarrow> bytes \<Rightarrow> string \<Rightarrow> (archive_error + nat) \<times> 'w list" where
  "restoreRows e q ins body into =
     (case pq_read q body of
        None \<Rightarrow> (Inl ReadParquet, [])
      | Some rows \<Rightarrow>
          (case insert_rows (ae_row e into) ins 0 rows [] of
             (done, ws) \<Rightarrow> (if done then Inr (length rows) else Inl (RestoreRow into), ws)))"

definition stand_table :: "string \<Rightarrow> relation \<Rightarrow> store_state \<Rightarrow> store_state" where
  "stand_table name r s = s\<lparr>st_catalog := (st_catalog s)\<lparr>cg_tables := (name, r) # cg_tables (st_catalog s)\<rparr>\<rparr>"

text \<open>
  \<open>CREATE TABLE into (LIKE table)\<close> comes before the schema of the table is looked up, so a table
  without one leaves the new table behind.
\<close>

definition Restore ::
  "archive_env \<Rightarrow> string \<Rightarrow> string \<Rightarrow> string \<Rightarrow> store_state \<Rightarrow> (archive_error + nat) \<times> store_state" where
  "Restore e table part into s =
     (case Client_Get (ae_objects e) (objectName table part) (st_bucket s) of
        Inl err \<Rightarrow> (Inl (Storage err), s)
      | Inr body \<Rightarrow>
          if ae_create e into \<or> into \<in> set (base_tables @ relation_names (st_catalog s)) \<or>
             table \<notin> set (base_tables @ relation_names (st_catalog s))
          then (Inl (CreateTable into), s)
          else if table = ''write_intents'' then
            (case restoreRows e (ae_intents e) (insertIntent e) body into of
               (res, rows) \<Rightarrow> (res, stand_table into (IntentTable rows) s))
          else if table = ''conflicts'' then
            (case restoreRows e (ae_conflicts e) (insertConflict e) body into of
               (res, rows) \<Rightarrow> (res, stand_table into (ConflictTable rows) s))
          else if table = ''payload_access_audit'' then
            (case restoreRows e (ae_audit e) (insertAudit e) body into of
               (res, rows) \<Rightarrow> (res, stand_table into (AuditTable rows) s))
          else (Inl (NoSchema table), stand_table into OtherTable s))"

section \<open>Exact rows\<close>

text \<open>
  What a row of the database is: its times count microseconds and none of the optional ones is the
  epoch itself; its identifiers, documents and classes are in the form Postgres stores them in, which
  the casts keep.
\<close>

definition exact_time :: "time \<Rightarrow> bool" where
  "exact_time t \<longleftrightarrow> t mod Microsecond = 0"

definition exact_option :: "time option \<Rightarrow> bool" where
  "exact_option t = (case t of None \<Rightarrow> True | Some t \<Rightarrow> exact_time t \<and> t \<noteq> 0)"

definition exact_intent :: "archive_env \<Rightarrow> intent_row \<Rightarrow> bool" where
  "exact_intent e w \<longleftrightarrow>
     ae_uuid e (w_intent_id w) = Some (w_intent_id w) \<and> ae_uuid e (w_idempotency_key w) = Some (w_idempotency_key w) \<and>
     operation_class_in (w_operation_class w) \<noteq> None \<and> ae_jsonb e (w_payload w) = Some (w_payload w) \<and>
     exact_time (w_emitted_at w) \<and> exact_option (w_published_at w) \<and> exact_option (w_voided_at w)"

definition exact_conflict :: "archive_env \<Rightarrow> conflict_row \<Rightarrow> bool" where
  "exact_conflict e r \<longleftrightarrow>
     ae_uuid e (c_conflict_id r) = Some (c_conflict_id r) \<and> ae_uuid e (c_intent_id_a r) = Some (c_intent_id_a r) \<and>
     ae_uuid e (c_intent_id_b r) = Some (c_intent_id_b r) \<and> exact_time (c_detected_at r)"

definition exact_audit :: "archive_env \<Rightarrow> audit_row \<Rightarrow> bool" where
  "exact_audit e a \<longleftrightarrow>
     ae_uuid e (au_audit_id a) = Some (au_audit_id a) \<and> ae_jsonb e (au_query_params a) = Some (au_query_params a) \<and>
     list_all (\<lambda>i. ae_uuid e i = Some i) (elems (au_intent_ids a)) \<and> exact_time (au_accessed_at a)"

fun exact_relation :: "archive_env \<Rightarrow> relation \<Rightarrow> bool" where
  "exact_relation e (IntentTable rows) = list_all (exact_intent e) rows"
| "exact_relation e (ConflictTable rows) = list_all (exact_conflict e) rows"
| "exact_relation e (AuditTable rows) = list_all (exact_audit e) rows"
| "exact_relation e OtherTable = False"

fun row_count :: "relation \<Rightarrow> nat" where
  "row_count (IntentTable rows) = length rows"
| "row_count (ConflictTable rows) = length rows"
| "row_count (AuditTable rows) = length rows"
| "row_count OtherTable = 0"

text \<open>
  A file gives back the records written to it. Parquet has no nil slice: a list without elements may
  be read as a nil slice or as an empty one.
\<close>

definition parquet_law :: "('r \<Rightarrow> 'r \<Rightarrow> bool) \<Rightarrow> 'r parquet \<Rightarrow> bool" where
  "parquet_law same q \<longleftrightarrow>
     (\<forall>rows body. pq_close q rows = Some body \<longrightarrow> (\<exists>rows'. pq_read q body = Some rows' \<and> list_all2 same rows rows'))"

definition same_intent :: "intentRecord \<Rightarrow> intentRecord \<Rightarrow> bool" where
  "same_intent r r' \<longleftrightarrow> elems (ScopeSelector r') = elems (ScopeSelector r) \<and> r' = r\<lparr>ScopeSelector := ScopeSelector r'\<rparr>"

definition same_audit :: "auditRecord \<Rightarrow> auditRecord \<Rightarrow> bool" where
  "same_audit r r' \<longleftrightarrow> elems (IntentIDs r') = elems (IntentIDs r) \<and> r' = r\<lparr>IntentIDs := IntentIDs r'\<rparr>"

definition parquet_laws :: "archive_env \<Rightarrow> bool" where
  "parquet_laws e \<longleftrightarrow>
     parquet_law same_intent (ae_intents e) \<and> parquet_law (=) (ae_conflicts e) \<and> parquet_law same_audit (ae_audit e)"

text \<open>
  The row that comes back for a row: the same in every column that cannot be NULL; a version or a
  reason is the empty string where it was NULL; a slice has the same elements, so one that was NULL or
  empty is one of the two.
\<close>

definition restored_intent :: "intent_row \<Rightarrow> intent_row \<Rightarrow> bool" where
  "restored_intent w w' \<longleftrightarrow>
     elems (w_scope_selector w') = elems (w_scope_selector w) \<and> w' = w\<lparr>w_scope_selector := w_scope_selector w'\<rparr>"

definition restored_conflict :: "conflict_row \<Rightarrow> conflict_row \<Rightarrow> bool" where
  "restored_conflict r r' \<longleftrightarrow> r' = r\<lparr>c_manifest_version := Some (coalesce (c_manifest_version r))\<rparr>"

definition restored_audit :: "audit_row \<Rightarrow> audit_row \<Rightarrow> bool" where
  "restored_audit a a' \<longleftrightarrow>
     elems (au_intent_ids a') = elems (au_intent_ids a) \<and>
     a' = a\<lparr>au_intent_ids := au_intent_ids a', au_stated_reason := Some (coalesce (au_stated_reason a))\<rparr>"

fun restored :: "relation \<Rightarrow> relation \<Rightarrow> bool" where
  "restored (IntentTable rows) r' \<longleftrightarrow> (\<exists>rows'. r' = IntentTable rows' \<and> list_all2 restored_intent rows rows')"
| "restored (ConflictTable rows) r' \<longleftrightarrow> (\<exists>rows'. r' = ConflictTable rows' \<and> list_all2 restored_conflict rows rows')"
| "restored (AuditTable rows) r' \<longleftrightarrow> (\<exists>rows'. r' = AuditTable rows' \<and> list_all2 restored_audit rows rows')"
| "restored OtherTable r' \<longleftrightarrow> False"

lemma exact_times:
  "exact_time t \<Longrightarrow> of_UnixMicro (UnixMicro t) = t"
  "exact_option ot \<Longrightarrow> fromMicros (micros ot) = ot"
proof -
  show *: "of_UnixMicro (UnixMicro t) = t" if "exact_time t" for t
    using that by (simp add: exact_time_def of_UnixMicro_def UnixMicro_def) (metis add.right_neutral div_mult_mod_eq)
  show "exact_option ot \<Longrightarrow> fromMicros (micros ot) = ot"
    using * [of "the ot"] by (cases ot) (auto simp: exact_option_def fromMicros_def micros_def of_UnixMicro_def)
qed

lemma resolution_text_in: "resolution_in (resolution_text r) = Some r"
  by (cases r) simp_all

lemma casts_same: "list_all (\<lambda>i. f i = Some i) xs \<Longrightarrow> casts f xs = Some xs"
  by (induction xs) simp_all

lemma cast_slice_same: "list_all (\<lambda>i. f i = Some i) (elems xs) \<Longrightarrow> cast_slice f xs = Some xs"
  by (cases xs) (simp_all add: cast_slice_def casts_same)

lemma insert_intent_exact:
  assumes "exact_intent e w" "same_intent (intent_record w) r"
  shows "\<exists>w'. insertIntent e r = Some w' \<and> restored_intent w w'"
proof -
  obtain xs where xs: "elems xs = elems (w_scope_selector w)" "r = (intent_record w)\<lparr>ScopeSelector := xs\<rparr>"
    using assms(2) by (auto simp: same_intent_def intent_record_def)
  have "insertIntent e r = Some (w\<lparr>w_scope_selector := xs\<rparr>)"
    using assms(1) unfolding xs(2)
    by (auto simp: exact_intent_def insertIntent_def intent_record_def exact_times operation_class_in_def split: if_splits)
  then show ?thesis using xs(1) by (simp add: restored_intent_def)
qed

lemma insert_conflict_exact:
  assumes "exact_conflict e r" "conflict_record r = c"
  shows "\<exists>r'. insertConflict e c = Some r' \<and> restored_conflict r r'"
  using assms(1) unfolding assms(2) [symmetric]
  by (auto simp: exact_conflict_def insertConflict_def conflict_record_def resolution_text_in exact_times restored_conflict_def
      simp del: resolution_in.simps)

lemma insert_audit_exact:
  assumes "exact_audit e a" "same_audit (audit_record a) r"
  shows "\<exists>a'. insertAudit e r = Some a' \<and> restored_audit a a'"
proof -
  obtain xs where xs: "elems xs = elems (au_intent_ids a)" "r = (audit_record a)\<lparr>IntentIDs := xs\<rparr>"
    using assms(2) by (auto simp: same_audit_def audit_record_def)
  have "insertAudit e r = Some (a\<lparr>au_intent_ids := xs, au_stated_reason := Some (coalesce (au_stated_reason a))\<rparr>)"
    using assms(1) cast_slice_same [of "ae_uuid e" xs] unfolding xs
    by (auto simp: exact_audit_def insertAudit_def audit_record_def exact_times xs(1))
  then show ?thesis using xs(1) by (simp add: restored_audit_def)
qed

lemma insert_rows_all:
  assumes "\<And>i. \<not> fails i" "list_all2 (\<lambda>w r. \<exists>w'. ins r = Some w' \<and> R w w') ws rs"
  shows "\<exists>ws'. insert_rows fails ins i rs acc = (True, acc @ ws') \<and> list_all2 R ws ws'"
  using assms(2)
proof (induction ws rs arbitrary: i acc rule: list_all2_induct)
  case (Cons w ws r rs)
  then obtain w' where "ins r = Some w'" "R w w'" by blast
  moreover from Cons(3) [of "Suc i" "acc @ [w']"] obtain ws'
    where "insert_rows fails ins (Suc i) rs (acc @ [w']) = (True, acc @ w' # ws')" "list_all2 R ws ws'" by auto
  moreover have "\<not> fails i" by (rule assms(1))
  ultimately show ?case by (intro exI [of _ "w' # ws'"]) simp
qed simp

lemma restoreRows_all:
  assumes "parquet_law same q" "pq_close q (map rec ws) = Some body" "list_all P ws" "\<And>i. \<not> ae_row e into i"
    and ins: "\<And>w r. P w \<Longrightarrow> same (rec w) r \<Longrightarrow> \<exists>w'. ins r = Some w' \<and> R w w'"
  shows "\<exists>ws'. restoreRows e q ins body into = (Inr (length ws), ws') \<and> list_all2 R ws ws'"
proof -
  obtain rs where rs: "pq_read q body = Some rs" "list_all2 same (map rec ws) rs"
    using assms(1,2) by (auto simp: parquet_law_def)
  then have "list_all2 (\<lambda>w r. \<exists>w'. ins r = Some w' \<and> R w w') ws rs"
    using assms(3) ins by (auto simp: list_all2_conv_all_nth list_all_length)
  moreover have "length rs = length ws" using list_all2_lengthD [OF rs(2)] by simp
  ultimately show ?thesis using insert_rows_all [of "ae_row e into" ins R ws rs 0 "[]", OF assms(4)] rs(1)
    by (auto simp: restoreRows_def)
qed

section \<open>What an archived partition is\<close>

text \<open>The object holds the export of the relation.\<close>

definition exported :: "archive_env \<Rightarrow> string \<Rightarrow> relation \<Rightarrow> bytes option" where
  "exported e table r =
     (case r of
        IntentTable rows \<Rightarrow> if table = ''write_intents'' then pq_close (ae_intents e) (map intent_record rows) else None
      | ConflictTable rows \<Rightarrow> if table = ''conflicts'' then pq_close (ae_conflicts e) (map conflict_record rows) else None
      | AuditTable rows \<Rightarrow> if table = ''payload_access_audit'' then pq_close (ae_audit e) (map audit_record rows) else None
      | OtherTable \<Rightarrow> None)"

definition archived :: "archive_env \<Rightarrow> store_state \<Rightarrow> string \<Rightarrow> string \<Rightarrow> relation \<Rightarrow> bool" where
  "archived e s table part r \<longleftrightarrow>
     exported e table r \<noteq> None \<and> map_of (st_bucket s) (objectName table part) = exported e table r"

lemma export_exported:
  assumes "export e s table part = Inr body" "relation_of s part = Some r"
  shows "exported e table r = Some body"
  using assms
  by (auto simp: export_def exportRows_def archive_scanIntents_def archive_scanConflicts_def archive_scanAudit_def exported_def
      split: if_splits sum.splits option.splits relation.splits)

lemma export_relation: "export e s table part = Inr body \<Longrightarrow> relation_of s part \<noteq> None"
  by (auto simp: export_def exportRows_def archive_scanIntents_def archive_scanConflicts_def archive_scanAudit_def
      split: if_splits sum.splits option.splits)

lemma Archive_archived:
  assumes "Archive_Archive e table part s = (None, s')" "relation_of s part = Some r"
  shows "archived e s' table part r"
proof -
  obtain body where body: "export e s table part = Inr body"
    using assms(1) by (cases "export e s table part") (auto simp: Archive_Archive_def)
  have "map_of (st_bucket s') (objectName table part) = Some body"
    using assms(1) body by (auto simp: Archive_Archive_def Client_Put_def update_conv split: put_outcome.splits)
  then show ?thesis using export_exported [OF body assms(2)] by (simp add: archived_def)
qed

lemma Restore_archived:
  assumes "parquet_laws e" "archived e s table part r" "exact_relation e r"
    and "\<not> of_get (ae_objects e)" "\<not> of_read (ae_objects e)" "\<not> ae_create e into" "\<And>i. \<not> ae_row e into i"
    and "into \<notin> set (base_tables @ relation_names (st_catalog s))"
  shows "\<exists>r'. Restore e table part into s = (Inr (row_count r), stand_table into r' s) \<and> restored r r'"
proof -
  obtain body where body: "exported e table r = Some body" "Client_Get (ae_objects e) (objectName table part) (st_bucket s) = Inr body"
    using assms(2,4,5) by (auto simp: archived_def Client_Get_def)
  show ?thesis
  proof (cases r)
    case (IntentTable rows)
    have law: "parquet_law same_intent (ae_intents e)" using assms(1) by (simp add: parquet_laws_def)
    have exact: "list_all (exact_intent e) rows" using assms(3) IntentTable by simp
    have closed: "pq_close (ae_intents e) (map intent_record rows) = Some body" "table = ''write_intents''"
      using body(1) IntentTable by (auto simp: exported_def split: if_splits)
    from restoreRows_all [OF law closed(1) exact assms(7) insert_intent_exact]
    show ?thesis using body assms(6,8) IntentTable closed(2) by (fastforce simp: Restore_def base_tables_def)
  next
    case (ConflictTable rows)
    have law: "parquet_law (=) (ae_conflicts e)" using assms(1) by (simp add: parquet_laws_def)
    have exact: "list_all (exact_conflict e) rows" using assms(3) ConflictTable by simp
    have closed: "pq_close (ae_conflicts e) (map conflict_record rows) = Some body" "table = ''conflicts''"
      using body(1) ConflictTable by (auto simp: exported_def split: if_splits)
    from restoreRows_all [OF law closed(1) exact assms(7) insert_conflict_exact]
    show ?thesis using body assms(6,8) ConflictTable closed(2) by (fastforce simp: Restore_def base_tables_def)
  next
    case (AuditTable rows)
    have law: "parquet_law same_audit (ae_audit e)" using assms(1) by (simp add: parquet_laws_def)
    have exact: "list_all (exact_audit e) rows" using assms(3) AuditTable by simp
    have closed: "pq_close (ae_audit e) (map audit_record rows) = Some body" "table = ''payload_access_audit''"
      using body(1) AuditTable by (auto simp: exported_def split: if_splits)
    from restoreRows_all [OF law closed(1) exact assms(7) insert_audit_exact]
    show ?thesis using body assms(6,8) AuditTable closed(2) by (fastforce simp: Restore_def base_tables_def)
  qed (use assms in simp)
qed

end
