(* ===== verification/Retention.thy ===== *)
theory Retention
  imports Archive
begin

text \<open>
  Retention (\<open>internal/maintenance/retention.go\<close>) and the maintenance loop of the reconciler process
  (\<open>cmd/reconciler/main.go\<close>). An archiver is an interface value: a nil interface is \<open>None\<close>, and a
  method of any other is a function that may also panic, as the method of a nil pointer does. Each
  statement is a transaction of its own whose commit may go unseen. Expiry deletes in batches; every
  full batch shortens the table, which is why the loop ends whatever the clock does.
\<close>

section \<open>Windows\<close>

record retention =
  rt_Keys :: duration
  rt_Intents :: duration
  rt_Conflicts :: duration
  rt_Audit :: duration
  rt_RowsPerSecond :: int

definition retention_window :: "retention \<Rightarrow> string \<Rightarrow> duration" where
  "retention_window r table =
     (if table = ''write_intents'' then rt_Intents r
      else if table = ''conflicts'' then rt_Conflicts r
      else rt_Audit r)"

section \<open>Expiry of keys\<close>

definition batchSize :: nat where
  "batchSize = 1000"

text \<open>
  What one batch meets: the commit of the statement, the time Postgres sees, and the failures of the
  object store. \<open>ev_open i\<close> is the test of the deadline before batch \<open>i\<close>, \<open>ev_stop i\<close> the end of the
  context while waiting after it.
\<close>

record expiry_env =
  ev_open :: "nat \<Rightarrow> bool"
  ev_stop :: "nat \<Rightarrow> bool"
  ev_now :: "nat \<Rightarrow> time"
  ev_commit :: "nat \<Rightarrow> commit_outcome"
  ev_objects :: "nat \<Rightarrow> object_faults"

datatype expiry_error = ExpireKeysFailed | DeleteResults object_error | ExpiryStopped

definition is_expired :: "time \<Rightarrow> duration \<Rightarrow> key_row \<Rightarrow> bool" where
  "is_expired now hot k \<longleftrightarrow> k_created_at k < now - hot"

definition expired_keys :: "time \<Rightarrow> duration \<Rightarrow> key_row list \<Rightarrow> (string \<times> string) list" where
  "expired_keys now hot rows = map pk (take batchSize (filter (is_expired now hot) rows))"

definition result_refs :: "key_row list \<Rightarrow> string list" where
  "result_refs rows = filter (\<lambda>r. r \<noteq> []) (List.map_filter k_result_ref rows)"

definition expireBatch ::
  "commit_outcome \<Rightarrow> object_faults \<Rightarrow> time \<Rightarrow> duration \<Rightarrow> result_store option \<Rightarrow> key_row list \<times> bucket
   \<Rightarrow> (expiry_error option \<times> nat) \<times> (key_row list \<times> bucket)" where
  "expireBatch commit f now hot results st =
     (let doomed = (\<lambda>k. pk k \<in> set (expired_keys now hot (fst st)));
          gone = filter doomed (fst st); kept = delete_where doomed (fst st) in
      case commit of
        CommitFailed \<Rightarrow> ((Some ExpireKeysFailed, 0), st)
      | CommitUnseen \<Rightarrow> ((Some ExpireKeysFailed, 0), (kept, snd st))
      | Committed \<Rightarrow>
          if results \<noteq> None \<and> 0 < length (result_refs gone) then
            (case Delete Client_Delete results f (result_refs gone) (snd st) of
               (Some e, b) \<Rightarrow> ((Some (DeleteResults e), length gone), (kept, b))
             | (None, b) \<Rightarrow> ((None, length gone), (kept, b)))
          else ((None, length gone), (kept, snd st)))"

lemma expireBatch_rows:
  "snd (fst (expireBatch commit f now hot results st)) + length (fst (snd (expireBatch commit f now hot results st)))
     \<le> length (fst st)"
proof -
  have "length (filter P xs) + length (delete_where P xs) = length xs" for P and xs :: "key_row list"
    by (simp add: delete_where_def sum_length_filter_compl)
  then show ?thesis
    by (auto simp: expireBatch_def Let_def delete_where_def split: commit_outcome.split option.split prod.split)
qed

function ExpireKeys_from ::
  "expiry_env \<Rightarrow> duration \<Rightarrow> result_store option \<Rightarrow> nat \<Rightarrow> nat \<Rightarrow> key_row list \<times> bucket
   \<Rightarrow> (expiry_error option \<times> nat) \<times> (key_row list \<times> bucket)" where
  "ExpireKeys_from v hot results i deleted st =
     (if \<not> ev_open v i then ((None, deleted), st)
      else
        (let r = expireBatch (ev_commit v i) (ev_objects v i) (ev_now v i) hot results st in
         case fst (fst r) of
           Some e \<Rightarrow> ((Some e, deleted), snd r)
         | None \<Rightarrow>
             if snd (fst r) < batchSize then ((None, deleted + snd (fst r)), snd r)
             else if ev_stop v i then ((Some ExpiryStopped, deleted + snd (fst r)), snd r)
             else ExpireKeys_from v hot results (Suc i) (deleted + snd (fst r)) (snd r)))"
  by pat_completeness auto

termination ExpireKeys_from
proof (relation "measure (\<lambda>(v, hot, results, i, deleted, st). length (fst st))", goal_cases)
  case (2 v hot results i deleted st r)
  then show ?case
    using expireBatch_rows [of "ev_commit v i" "ev_objects v i" "ev_now v i" hot results st] by (simp add: batchSize_def)
qed simp

declare ExpireKeys_from.simps [simp del]

definition ExpireKeys ::
  "expiry_env \<Rightarrow> retention \<Rightarrow> result_store option \<Rightarrow> store_state \<Rightarrow> (expiry_error option \<times> nat) \<times> store_state" where
  "ExpireKeys v r results s =
     (case ExpireKeys_from v (rt_Keys r) results 0 0 (idempotency_keys (st_db s), st_bucket s) of
        (res, rows, b) \<Rightarrow> (res, s\<lparr>st_db := (st_db s)\<lparr>idempotency_keys := rows\<rparr>, st_bucket := b\<rparr>))"

section \<open>Retirement of partitions\<close>

datatype archive_outcome = ArchiveOk | ArchiveFailed archive_error | ArchivePanics

type_synonym archive_op = "string \<Rightarrow> string \<Rightarrow> store_state \<Rightarrow> archive_outcome \<times> store_state"

text \<open>\<open>archive.New\<close> returns a pointer; its method reads a field of it for every table with a schema.\<close>

definition New_archive :: "bool \<Rightarrow> unit option" where
  "New_archive client = (if \<not> client then None else Some ())"

definition archive_method :: "archive_env \<Rightarrow> unit option \<Rightarrow> archive_op" where
  "archive_method e a table part s =
     (case a of
        None \<Rightarrow>
          if table \<in> set [''write_intents'', ''conflicts'', ''payload_access_audit''] then (ArchivePanics, s)
          else (ArchiveFailed (NoSchema table), s)
      | Some _ \<Rightarrow>
          (case Archive_Archive e table part s of
             (None, s') \<Rightarrow> (ArchiveOk, s')
           | (Some err, s') \<Rightarrow> (ArchiveFailed err, s')))"

text \<open>Passing the pointer where the interface is expected: never a nil interface.\<close>

definition as_Archiver :: "archive_env \<Rightarrow> unit option \<Rightarrow> archive_op option" where
  "as_Archiver e a = Some (archive_method e a)"

record Retired =
  rd_Table :: string
  rd_Partition :: string
  rd_Archived :: bool

record retire_env =
  re_now :: "string \<Rightarrow> time"
  re_list :: "string \<Rightarrow> bool"
  re_detach :: "string \<Rightarrow> commit_outcome"
  re_drop :: "string \<Rightarrow> commit_outcome"

datatype retire_end = RetireDone | ListFailed string | DetachFailed string | DropFailed string | RetireCrashed

definition retention_expired :: "retire_env \<Rightarrow> string \<Rightarrow> time \<Rightarrow> store_state \<Rightarrow> string list option" where
  "retention_expired v table cutoff s =
     (if re_list v table then None
      else Some (map pt_name (filter (\<lambda>p. \<not> cutoff < pt_upper p) (partitions_of (st_catalog s) table))))"

text \<open>
  Detaching takes the rows of the range out of the parent; the partition stands alone with them.
  It fails when there is no such partition.
\<close>

definition without_rows :: "partition \<Rightarrow> db \<Rightarrow> db" where
  "without_rows p d =
     (if pt_table p = ''write_intents'' then
        d\<lparr>write_intents := delete_where (\<lambda>w. in_partition p (w_emitted_at w)) (write_intents d)\<rparr>
      else if pt_table p = ''conflicts'' then
        d\<lparr>conflicts := delete_where (\<lambda>r. in_partition p (c_detected_at r)) (conflicts d)\<rparr>
      else d\<lparr>payload_access_audit := delete_where (\<lambda>a. in_partition p (au_accessed_at a)) (payload_access_audit d)\<rparr>)"

definition detach :: "string \<Rightarrow> string \<Rightarrow> store_state \<Rightarrow> store_state option" where
  "detach table name s =
     (case List.find (\<lambda>p. pt_name p = name) (partitions_of (st_catalog s) table) of
        None \<Rightarrow> None
      | Some p \<Rightarrow>
          Some (s\<lparr>st_db := without_rows p (st_db s),
                  st_catalog := \<lparr>cg_partitions = filter (\<lambda>q. pt_name q \<noteq> name) (cg_partitions (st_catalog s)),
                                 cg_tables = (name, attached_rows (st_db s) p) # cg_tables (st_catalog s)\<rparr>\<rparr>))"

definition drop_table :: "string \<Rightarrow> store_state \<Rightarrow> store_state" where
  "drop_table name s =
     s\<lparr>st_catalog := (st_catalog s)\<lparr>cg_tables := filter (\<lambda>t. fst t \<noteq> name) (cg_tables (st_catalog s))\<rparr>\<rparr>"

fun retire_partitions ::
  "retire_env \<Rightarrow> archive_op option \<Rightarrow> string \<Rightarrow> string list \<Rightarrow> Retired list \<times> store_state
   \<Rightarrow> retire_end \<times> Retired list \<times> store_state" where
  "retire_partitions v archiver table [] (retired, s) = (RetireDone, retired, s)"
| "retire_partitions v archiver table (name # names) (retired, s) =
     (case archiver of
        None \<Rightarrow> retire_partitions v archiver table names (retired, s)
      | Some archive \<Rightarrow>
          (case (re_detach v name, detach table name s) of
             (CommitFailed, _) \<Rightarrow> (DetachFailed name, retired, s)
           | (_, None) \<Rightarrow> (DetachFailed name, retired, s)
           | (CommitUnseen, Some s1) \<Rightarrow> (DetachFailed name, retired, s1)
           | (Committed, Some s1) \<Rightarrow>
               (case archive table name s1 of
                  (ArchivePanics, s2) \<Rightarrow> (RetireCrashed, retired, s2)
                | (ArchiveFailed e, s2) \<Rightarrow>
                    retire_partitions v archiver table names
                      (retired @ [\<lparr>rd_Table = table, rd_Partition = name, rd_Archived = False\<rparr>], s2)
                | (ArchiveOk, s2) \<Rightarrow>
                    (case re_drop v name of
                       CommitFailed \<Rightarrow> (DropFailed name, retired, s2)
                     | CommitUnseen \<Rightarrow> (DropFailed name, retired, drop_table name s2)
                     | Committed \<Rightarrow>
                         retire_partitions v archiver table names
                           (retired @ [\<lparr>rd_Table = table, rd_Partition = name, rd_Archived = True\<rparr>], drop_table name s2)))))"

fun retire_tables ::
  "retire_env \<Rightarrow> retention \<Rightarrow> archive_op option \<Rightarrow> Partitioned list \<Rightarrow> Retired list \<times> store_state
   \<Rightarrow> retire_end \<times> Retired list \<times> store_state" where
  "retire_tables v r archiver [] (retired, s) = (RetireDone, retired, s)"
| "retire_tables v r archiver (table # tables) (retired, s) =
     (case retention_expired v (pd_Name table) (re_now v (pd_Name table) - retention_window r (pd_Name table)) s of
        None \<Rightarrow> (ListFailed (pd_Name table), retired, s)
      | Some names \<Rightarrow>
          (case retire_partitions v archiver (pd_Name table) names (retired, s) of
             (RetireDone, st) \<Rightarrow> retire_tables v r archiver tables st
           | failed \<Rightarrow> failed))"

definition RetireExpired ::
  "retire_env \<Rightarrow> retention \<Rightarrow> archive_op option \<Rightarrow> store_state \<Rightarrow> retire_end \<times> Retired list \<times> store_state" where
  "RetireExpired v r archiver s = retire_tables v r archiver Tables ([], s)"

section \<open>The maintenance loop\<close>

record maintenance_counters =
  mc_created :: "string list"
  mc_expired :: nat
  mc_archived :: "string list"

record maintenance_env =
  me_partitions :: maintenance_faults
  me_tx_now :: time
  me_now :: time
  me_expiry :: expiry_env
  me_retire :: retire_env

definition runMaintenance ::
  "maintenance_env \<Rightarrow> duration \<Rightarrow> retention \<Rightarrow> archive_op option \<Rightarrow> result_store option
   \<Rightarrow> maintenance_counters \<times> store_state \<Rightarrow> (bool \<times> maintenance_counters \<times> store_state) option" where
  "runMaintenance m ahead r archiver results st =
     Option.bind (EnsurePartitions (me_partitions m) (me_tx_now m) (me_now m) ahead (st_catalog (snd st))) (\<lambda>(_, c, created).
       let (res, s) = ExpireKeys (me_expiry m) r results ((snd st)\<lparr>st_catalog := c\<rparr>);
           counters = (fst st)\<lparr>mc_created := mc_created (fst st) @ created, mc_expired := mc_expired (fst st) + snd res\<rparr> in
       case archiver of
         None \<Rightarrow> Some (True, counters, s)
       | Some _ \<Rightarrow>
           (case RetireExpired (me_retire m) r archiver s of
              (RetireCrashed, _, s') \<Rightarrow> Some (False, counters, s')
            | (_, retired, s') \<Rightarrow>
                Some (True, counters\<lparr>mc_archived := mc_archived counters @ map rd_Table (filter rd_Archived retired)\<rparr>, s')))"

text \<open>One run per tick until the process stops or crashes.\<close>

fun maintain ::
  "maintenance_env list \<Rightarrow> duration \<Rightarrow> retention \<Rightarrow> archive_op option \<Rightarrow> result_store option
   \<Rightarrow> maintenance_counters \<times> store_state \<Rightarrow> (bool \<times> maintenance_counters \<times> store_state) option" where
  "maintain [] ahead r archiver results st = Some (True, st)"
| "maintain (m # ms) ahead r archiver results st =
     Option.bind (runMaintenance m ahead r archiver results st) (\<lambda>(alive, st').
       if alive then maintain ms ahead r archiver results st' else Some (False, st'))"

text \<open>The command that restores a partition; the name of the table defaults to one made from it.\<close>

definition restore ::
  "archive_env \<Rightarrow> unit option \<Rightarrow> string \<Rightarrow> string \<Rightarrow> string \<Rightarrow> store_state
   \<Rightarrow> (archive_error option + nat \<times> string) \<times> store_state" where
  "restore e archiver part table into s =
     (case archiver of
        None \<Rightarrow> (Inl None, s)
      | Some _ \<Rightarrow>
          let into = (if into = [] then part @ ''_restored'' else into) in
          case Restore e table part into s of
            (Inl err, s') \<Rightarrow> (Inl (Some err), s')
          | (Inr n, s') \<Rightarrow> (Inr (n, into), s'))"

section \<open>Expiry, batch by batch\<close>

definition removed :: "key_row list \<Rightarrow> key_row list \<Rightarrow> key_row set" where
  "removed rows rows' = set rows - set rows'"

text \<open>
  What a step of expiry may do to the table and the bucket: rows go, all of them past retention, and
  an object goes only with a row that refers to it.
\<close>

definition expires :: "(key_row \<Rightarrow> bool) \<Rightarrow> key_row list \<times> bucket \<Rightarrow> key_row list \<times> bucket \<Rightarrow> bool" where
  "expires old st st' \<longleftrightarrow>
     (\<exists>D. fst st' = filter (\<lambda>k. \<not> D k) (fst st) \<and> (\<forall>k \<in> set (fst st). D k \<longrightarrow> old k)) \<and>
     (\<forall>name. map_of (snd st') name \<noteq> map_of (snd st) name \<longrightarrow>
        (\<exists>k \<in> removed (fst st) (fst st'). k_result_ref k = Some name))"

lemma expires_refl: "expires old st st"
  unfolding expires_def by (auto intro!: exI [of _ "\<lambda>_. False"])

lemma expires_object:
  assumes "expires old st st'" "map_of (snd st') name \<noteq> map_of (snd st) name"
  obtains k where "k \<in> removed (fst st) (fst st')" "k_result_ref k = Some name"
proof -
  have "\<exists>k \<in> removed (fst st) (fst st'). k_result_ref k = Some name"
    using assms(1) [unfolded expires_def, THEN conjunct2, rule_format, OF assms(2)] .
  then show thesis using that by blast
qed

lemma expires_trans:
  assumes "expires old st st1" "expires old st1 st2"
  shows "expires old st st2"
proof -
  from assms obtain D E where D: "fst st1 = filter (\<lambda>k. \<not> D k) (fst st)" "\<forall>k \<in> set (fst st). D k \<longrightarrow> old k"
    and E: "fst st2 = filter (\<lambda>k. \<not> E k) (fst st1)" "\<forall>k \<in> set (fst st1). E k \<longrightarrow> old k"
    by (auto simp: expires_def)
  have "fst st2 = filter (\<lambda>k. \<not> (D k \<or> E k)) (fst st)" using D E by (simp add: conj_commute)
  moreover have "\<forall>k \<in> set (fst st). D k \<or> E k \<longrightarrow> old k" using D E by auto
  moreover have "\<exists>k \<in> removed (fst st) (fst st2). k_result_ref k = Some name" if "map_of (snd st2) name \<noteq> map_of (snd st) name" for name
  proof (cases "map_of (snd st1) name = map_of (snd st) name")
    case True
    with that have "map_of (snd st2) name \<noteq> map_of (snd st1) name" by simp
    from expires_object [OF assms(2) this]
    obtain k where "k \<in> removed (fst st1) (fst st2)" "k_result_ref k = Some name" .
    then show ?thesis using D(1) by (auto simp: removed_def)
  next
    case False
    from expires_object [OF assms(1) this]
    obtain k where "k \<in> removed (fst st) (fst st1)" "k_result_ref k = Some name" .
    then show ?thesis using D(1) E(1) by (auto simp: removed_def)
  qed
  ultimately show ?thesis unfolding expires_def by (intro conjI exI [of _ "\<lambda>k. D k \<or> E k"]) auto
qed

lemma expireBatch_cases:
  assumes "expireBatch commit f now hot results st = ((err, n), st')"
    and "D = (\<lambda>k. pk k \<in> set (expired_keys now hot (fst st)))"
  obtains (none) "st' = st" "err \<noteq> None" "n = 0"
  | (unseen) "fst st' = filter (\<lambda>k. \<not> D k) (fst st)" "snd st' = snd st" "err \<noteq> None" "n = 0"
  | (gone) "fst st' = filter (\<lambda>k. \<not> D k) (fst st)" "n = length (filter D (fst st))"
      "\<And>name. name \<notin> set (result_refs (filter D (fst st))) \<Longrightarrow> map_of (snd st') name = map_of (snd st) name"
proof (cases commit)
  case Committed
  let ?refs = "result_refs (filter D (fst st))"
  obtain e b where e: "Delete Client_Delete results f ?refs (snd st) = (e, b)" by force
  have others: "map_of b name = map_of (snd st) name" if "name \<notin> set ?refs" for name
    using client.Delete_others [OF e that] .
  have "fst st' = filter (\<lambda>k. \<not> D k) (fst st)" "n = length (filter D (fst st))" "snd st' = b \<or> snd st' = snd st"
    using assms Committed e
    by (cases e; cases "results \<noteq> None \<and> 0 < length ?refs"; auto simp: expireBatch_def delete_where_def Let_def)+
  then show ?thesis using others by (intro gone) auto
qed (use assms none unseen in \<open>auto simp: expireBatch_def delete_where_def\<close>)

lemma result_refs_removed:
  "name \<in> set (result_refs (filter D rows)) \<Longrightarrow> \<exists>k \<in> removed rows (filter (\<lambda>k. \<not> D k) rows). k_result_ref k = Some name"
  by (auto simp: result_refs_def removed_def List.map_filter_def)

lemma take_full:
  assumes "x \<in> set xs" "x \<notin> set (take n xs)"
  shows "length (take n xs) = n"
  using assms by (cases "n \<le> length xs") auto

lemma expireBatch_expires:
  assumes "distinct (map pk (fst st))" "expireBatch commit f now hot results st = ((err, n), st')"
  shows "expires (is_expired now hot) st st'"
    "n + length (fst st') \<le> length (fst st)"
    "err = None \<Longrightarrow> n + length (fst st') = length (fst st)"
    "err = None \<Longrightarrow> n < batchSize \<Longrightarrow> \<not> list_ex (is_expired now hot) (fst st')"
proof -
  let ?rows = "fst st" and ?batch = "take batchSize (filter (is_expired now hot) (fst st))"
  define D where "D = (\<lambda>k. pk k \<in> set (expired_keys now hot (fst st)))"
  have sub: "set ?batch \<subseteq> set ?rows" by (auto dest: in_set_takeD)
  have "inj_on pk (set ?rows)" using assms(1) by (simp add: distinct_map)
  then have D: "D k \<longleftrightarrow> k \<in> set ?batch" if "k \<in> set ?rows" for k
    using that sub by (auto simp: D_def expired_keys_def inj_on_def)
  then have old: "\<forall>k \<in> set ?rows. D k \<longrightarrow> is_expired now hot k" by (auto dest: in_set_takeD)
  note cases = expireBatch_cases [OF assms(2) D_def]
  have gone: "expires (is_expired now hot) st st'" if "fst st' = filter (\<lambda>k. \<not> D k) ?rows"
      "\<And>name. name \<notin> set (result_refs (filter D ?rows)) \<Longrightarrow> map_of (snd st') name = map_of (snd st) name"
    unfolding expires_def that(1) using old that(2) result_refs_removed [of _ D ?rows]
    by (intro conjI exI [of _ D] refl allI impI) (simp, metis)
  show "expires (is_expired now hot) st st'"
    by (cases rule: cases) (auto intro: gone simp: expires_refl)
  have counts: "length (filter D ?rows) + length (filter (\<lambda>k. \<not> D k) ?rows) = length ?rows"
    by (simp add: sum_length_filter_compl)
  show "n + length (fst st') \<le> length (fst st)" "err = None \<Longrightarrow> n + length (fst st') = length (fst st)"
    by (cases rule: cases; use counts in simp)+
  assume "err = None" "n < batchSize"
  then have n: "length (filter D ?rows) < batchSize" "fst st' = filter (\<lambda>k. \<not> D k) ?rows"
    by (cases rule: cases; simp)+
  show "\<not> list_ex (is_expired now hot) (fst st')"
  proof
    assume "list_ex (is_expired now hot) (fst st')"
    then obtain k where k: "k \<in> set ?rows" "is_expired now hot k" "\<not> D k" using n(2) by (auto simp: list_ex_iff)
    then have full: "length ?batch = batchSize" using D [OF k(1)] by (intro take_full [of k]) auto
    have "set ?batch \<subseteq> set (filter D ?rows)" using D sub by auto
    moreover have "distinct ?rows" using assms(1) by (simp add: distinct_map)
    ultimately have "batchSize \<le> length (filter D ?rows)"
      using full by (metis card_mono distinct_card distinct_filter distinct_take finite_set)
    with n(1) show False by simp
  qed
qed

lemma expires_mono: "expires old st st' \<Longrightarrow> (\<And>k. old k \<Longrightarrow> old' k) \<Longrightarrow> expires old' st st'"
  by (auto simp: expires_def)

lemma expires_distinct: "expires old st st' \<Longrightarrow> distinct (map pk (fst st)) \<Longrightarrow> distinct (map pk (fst st'))"
  by (auto simp: expires_def distinct_map_filter)

lemma ExpireKeys_from_expires:
  assumes "distinct (map pk (fst st))" "ExpireKeys_from v hot results i deleted st = ((err, n), st')"
  shows "expires (\<lambda>k. \<exists>j. is_expired (ev_now v j) hot k) st st' \<and> n + length (fst st') \<le> deleted + length (fst st) \<and>
    (err = None \<longrightarrow> n + length (fst st') = deleted + length (fst st) \<and>
       ((\<forall>j. ev_open v j) \<longrightarrow> (\<exists>j. \<not> list_ex (is_expired (ev_now v j) hot) (fst st'))))"
  using assms
proof (induction v hot results i deleted st rule: ExpireKeys_from.induct)
  case (1 v hot results i deleted st)
  obtain err1 n1 st1 where batch: "expireBatch (ev_commit v i) (ev_objects v i) (ev_now v i) hot results st = ((err1, n1), st1)"
    by (metis prod.exhaust)
  note b = expireBatch_expires [OF "1.prems"(1) batch]
  have b1: "expires (\<lambda>k. \<exists>j. is_expired (ev_now v j) hot k) st st1" by (rule expires_mono [OF b(1)]) blast
  show ?case
  proof (cases "ev_open v i \<and> err1 = None \<and> \<not> n1 < batchSize \<and> \<not> ev_stop v i")
    case True
    have ih: "expires (\<lambda>k. \<exists>j. is_expired (ev_now v j) hot k) st1 st' \<and> n + length (fst st') \<le> deleted + n1 + length (fst st1) \<and>
      (err = None \<longrightarrow> n + length (fst st') = deleted + n1 + length (fst st1) \<and>
       ((\<forall>j. ev_open v j) \<longrightarrow> (\<exists>j. \<not> list_ex (is_expired (ev_now v j) hot) (fst st'))))"
    proof -
      have "ExpireKeys_from v hot results (Suc i) (deleted + n1) st1 = ((err, n), st')"
        using "1.prems"(2) True batch by (subst (asm) ExpireKeys_from.simps) simp
      then show ?thesis
        using "1.IH" [OF _ batch [symmetric]] True expires_distinct [OF b1 "1.prems"(1)]
        by (simp del: ExpireKeys_from.simps)
    qed
    moreover have "n1 + length (fst st1) = length (fst st)" using b(3) True by simp
    ultimately show ?thesis using expires_trans [OF b1] by auto
  next
    case False
    then consider "\<not> ev_open v i" "st' = st" "n = deleted"
      | "err \<noteq> None" "st' = st1" "n = deleted" | "err \<noteq> None" "st' = st1" "n = deleted + n1"
      | "err1 = None" "n1 < batchSize" "st' = st1" "n = deleted + n1"
      using "1.prems"(2) batch by (subst (asm) ExpireKeys_from.simps) (auto simp: Let_def split: if_splits option.splits)
    then show ?thesis using b b1 by cases (auto simp: expires_refl)
  qed
qed

text \<open>
  C30. Expiry removes keys and nothing else: every row that goes was past the retention window when its
  batch ran; every other row stays as it is; an object goes only with a row that refers to it; no
  other table changes. The count it reports never exceeds the rows that went, and without an error
  is exactly their number; and unless the budget runs out, no key older than the window at the last
  batch is left.
\<close>

theorem ExpireKeys_removes:
  assumes "distinct (map pk (idempotency_keys (st_db s)))" "ExpireKeys v r results s = ((err, n), s')"
  defines "rows \<equiv> idempotency_keys (st_db s)" and "rows' \<equiv> idempotency_keys (st_db s')"
  shows "(\<exists>D. rows' = filter (\<lambda>k. \<not> D k) rows \<and> (\<forall>k \<in> set rows. D k \<longrightarrow> (\<exists>j. k_created_at k < ev_now v j - rt_Keys r))) \<and>
    (\<forall>name. map_of (st_bucket s') name \<noteq> map_of (st_bucket s) name \<longrightarrow>
       (\<exists>k \<in> set rows - set rows'. k_result_ref k = Some name)) \<and>
    st_db s' = (st_db s)\<lparr>idempotency_keys := rows'\<rparr> \<and> st_catalog s' = st_catalog s \<and>
    n \<le> length rows - length rows' \<and>
    (err = None \<longrightarrow> n = length rows - length rows' \<and>
       ((\<forall>j. ev_open v j) \<longrightarrow> (\<exists>j. \<forall>k \<in> set rows'. \<not> k_created_at k < ev_now v j - rt_Keys r)))"
proof -
  obtain rows1 b where run: "ExpireKeys_from v (rt_Keys r) results 0 0 (rows, st_bucket s) = ((err, n), (rows1, b))"
    and s': "s' = s\<lparr>st_db := (st_db s)\<lparr>idempotency_keys := rows1\<rparr>, st_bucket := b\<rparr>"
    using assms(2) unfolding rows_def by (auto simp: ExpireKeys_def simp del: ExpireKeys_from.simps split: prod.splits)
  have rows1: "rows1 = rows'" by (simp add: rows'_def s')
  have "distinct (map pk (fst (rows, st_bucket s)))" using assms(1) by (simp add: rows_def)
  note e = ExpireKeys_from_expires [OF this run, unfolded rows1]
  have x: "expires (\<lambda>k. \<exists>j. is_expired (ev_now v j) (rt_Keys r) k) (rows, st_bucket s) (rows', b)" using e by blast
  show ?thesis
  proof (intro conjI allI impI)
    show "\<exists>D. rows' = filter (\<lambda>k. \<not> D k) rows \<and> (\<forall>k \<in> set rows. D k \<longrightarrow> (\<exists>j. k_created_at k < ev_now v j - rt_Keys r))"
      using x unfolding expires_def is_expired_def by simp
    show "\<exists>k \<in> set rows - set rows'. k_result_ref k = Some name" if "map_of (st_bucket s') name \<noteq> map_of (st_bucket s) name" for name
    proof -
      have "map_of (snd (rows', b)) name \<noteq> map_of (snd (rows, st_bucket s)) name" using that by (simp add: s')
      from expires_object [OF x this] show ?thesis by (auto simp: removed_def)
    qed
    show "st_db s' = (st_db s)\<lparr>idempotency_keys := rows'\<rparr>" "st_catalog s' = st_catalog s" using rows1 by (simp_all add: s')
    show "n \<le> length rows - length rows'" "err = None \<Longrightarrow> n = length rows - length rows'" using e by auto
    show "\<exists>j. \<forall>k \<in> set rows'. \<not> k_created_at k < ev_now v j - rt_Keys r" if "err = None" "\<forall>j. ev_open v j"
      using e that unfolding is_expired_def list_ex_iff by simp
  qed
qed

definition aged_key :: "string \<Rightarrow> status \<Rightarrow> time \<Rightarrow> string option \<Rightarrow> key_row" where
  "aged_key key st created ref =
     \<lparr>k_agent_id = ''agent'', k_idempotency_key = key, k_request_hash = [], k_status = st, k_resource_type = ''order'',
      k_resource_id = ''1'', k_operation = ''update'', k_result = None, k_result_ref = ref, k_outcome_detail = None,
      k_attempt_count = 1, k_created_at = created, k_claimed_at = created, k_completed_at = None\<rparr>"

definition aged_store :: "status \<Rightarrow> store_state" where
  "aged_store st =
     \<lparr>st_db = empty_db\<lparr>idempotency_keys := [aged_key ''a'' st 0 (Some ''results/a''), aged_key ''b'' st (9 * Day) None]\<rparr>,
      st_catalog = empty_catalog, st_bucket = [(''results/a'', ''{}''), (''results/b'', ''{}'')]\<rparr>"

definition week_retention :: retention where
  "week_retention = \<lparr>rt_Keys = 7 * Day, rt_Intents = 7 * Day, rt_Conflicts = 7 * Day, rt_Audit = 7 * Day, rt_RowsPerSecond = 1000\<rparr>"

definition calm_expiry :: expiry_env where
  "calm_expiry =
     \<lparr>ev_open = (\<lambda>_. True), ev_stop = (\<lambda>_. False), ev_now = (\<lambda>_. 10 * Day), ev_commit = (\<lambda>_. Committed), ev_objects = (\<lambda>_. ok_objects)\<rparr>"

lemma aged_store_expires:
  "ExpireKeys calm_expiry week_retention (Some (NewWith 1)) (aged_store st) =
     ((None, 1), (aged_store st)\<lparr>st_db := empty_db\<lparr>idempotency_keys := [aged_key ''b'' st (9 * Day) None]\<rparr>, st_bucket := [(''results/b'', ''{}'')]\<rparr>)"
  by (simp add: ExpireKeys_def ExpireKeys_from.simps calm_expiry_def week_retention_def aged_store_def expireBatch_def expired_keys_def
      batchSize_def is_expired_def aged_key_def pk_def delete_where_def result_refs_def List.map_filter_def Delete_def no_objects_def
      NewWith_def ok_objects_def Day_value empty_db_def)

theorem ExpireKeys_removes_witness:
  "ExpireKeys calm_expiry week_retention (Some (NewWith 1)) (aged_store StatusDone) =
     ((None, 1), snd (ExpireKeys calm_expiry week_retention (Some (NewWith 1)) (aged_store StatusDone))) \<and>
   st_catalog (snd (ExpireKeys calm_expiry week_retention (Some (NewWith 1)) (aged_store StatusDone))) = empty_catalog"
proof -
  have "distinct (map pk (idempotency_keys (st_db (aged_store StatusDone))))" by (simp add: aged_store_def aged_key_def pk_def)
  from ExpireKeys_removes [OF this aged_store_expires] show ?thesis
    unfolding aged_store_expires by (simp add: aged_store_def)
qed

text \<open>The window is counted from the creation of the key alone: a write still pending is forgotten like any other.\<close>

lemma pending_key_expires:
  "status_of (st_db (aged_store StatusPending)) ''agent'' ''a'' = Some StatusPending \<and>
   status_of (st_db (snd (ExpireKeys calm_expiry week_retention (Some (NewWith 1)) (aged_store StatusPending)))) ''agent'' ''a'' = None"
  unfolding aged_store_expires by (simp add: status_of_def key_row_of_def key_is_def aged_store_def aged_key_def)

section \<open>Retirement keeps every row\<close>

datatype any_row = IntentRow intent_row | ConflictRow conflict_row | AuditRow audit_row

fun relation_rows :: "relation \<Rightarrow> any_row set" where
  "relation_rows (IntentTable rows) = IntentRow ` set rows"
| "relation_rows (ConflictTable rows) = ConflictRow ` set rows"
| "relation_rows (AuditTable rows) = AuditRow ` set rows"
| "relation_rows OtherTable = {}"

definition parent_rows :: "db \<Rightarrow> any_row set" where
  "parent_rows d = IntentRow ` set (write_intents d) \<union> ConflictRow ` set (conflicts d) \<union> AuditRow ` set (payload_access_audit d)"

definition in_tables :: "store_state \<Rightarrow> any_row \<Rightarrow> bool" where
  "in_tables s x \<longleftrightarrow> x \<in> parent_rows (st_db s) \<or> (\<exists>(name, r) \<in> set (cg_tables (st_catalog s)). x \<in> relation_rows r)"

definition attached_names :: "store_state \<Rightarrow> string set" where
  "attached_names s = pt_name ` set (cg_partitions (st_catalog s))"

definition names_distinct :: "store_state \<Rightarrow> bool" where
  "names_distinct s \<longleftrightarrow> distinct (relation_names (st_catalog s))"

definition kept_but ::
  "(store_state \<Rightarrow> string \<Rightarrow> string \<Rightarrow> relation \<Rightarrow> bool) \<Rightarrow> string set \<Rightarrow> store_state \<Rightarrow> any_row \<Rightarrow> bool" where
  "kept_but holds N s x \<longleftrightarrow> in_tables s x \<or>
     (\<exists>t \<in> pd_Name ` set Tables. \<exists>p r. p \<notin> attached_names s \<union> N \<and> holds s t p r \<and> x \<in> relation_rows r)"

lemma without_rows: "parent_rows d \<subseteq> parent_rows (without_rows p d) \<union> relation_rows (attached_rows d p)"
  by (auto simp: parent_rows_def without_rows_def attached_rows_def delete_where_def)

lemma detach_found:
  assumes "detach table name s = Some s1"
  obtains p where "p \<in> set (cg_partitions (st_catalog s))" "pt_name p = name" "st_bucket s1 = st_bucket s"
    "st_db s1 = without_rows p (st_db s)"
    "st_catalog s1 = \<lparr>cg_partitions = filter (\<lambda>q. pt_name q \<noteq> name) (cg_partitions (st_catalog s)),
                      cg_tables = (name, attached_rows (st_db s) p) # cg_tables (st_catalog s)\<rparr>"
proof -
  obtain p where p: "List.find (\<lambda>p. pt_name p = name) (partitions_of (st_catalog s) table) = Some p"
    using assms by (auto simp: detach_def split: option.splits)
  then have "p \<in> set (partitions_of (st_catalog s) table)" "pt_name p = name" by (auto simp: find_Some_iff)
  then show thesis using that p assms by (auto simp: detach_def partitions_of_def)
qed

lemma detach_keeps:
  assumes "detach table name s = Some s1"
  shows "in_tables s x \<Longrightarrow> in_tables s1 x" "names_distinct s \<Longrightarrow> names_distinct s1"
    "name \<in> attached_names s" "attached_names s1 = attached_names s - {name}" "st_bucket s1 = st_bucket s"
    "\<exists>r. map_of (cg_tables (st_catalog s1)) name = Some r \<and> relation_of s1 name = Some r"
proof -
  obtain p where p: "p \<in> set (cg_partitions (st_catalog s))" "pt_name p = name" "st_bucket s1 = st_bucket s"
    "st_db s1 = without_rows p (st_db s)"
    "st_catalog s1 = \<lparr>cg_partitions = filter (\<lambda>q. pt_name q \<noteq> name) (cg_partitions (st_catalog s)),
                      cg_tables = (name, attached_rows (st_db s) p) # cg_tables (st_catalog s)\<rparr>"
    using detach_found [OF assms] .
  show "in_tables s x \<Longrightarrow> in_tables s1 x" using p without_rows [of "st_db s" p] by (auto simp: in_tables_def)
  show "name \<in> attached_names s" "attached_names s1 = attached_names s - {name}" using p by (auto simp: attached_names_def)
  show "st_bucket s1 = st_bucket s" by (rule p)
  show "\<exists>r. map_of (cg_tables (st_catalog s1)) name = Some r \<and> relation_of s1 name = Some r" using p by (simp add: relation_of_def)
  show "names_distinct s1" if "names_distinct s"
    using that p by (auto simp: names_distinct_def relation_names_def distinct_map_filter)
qed

lemma drop_keeps:
  assumes "names_distinct s" "map_of (cg_tables (st_catalog s)) name = Some r"
  shows "in_tables s x \<Longrightarrow> in_tables (drop_table name s) x \<or> x \<in> relation_rows r"
    "names_distinct (drop_table name s)" "attached_names (drop_table name s) = attached_names s"
    "st_bucket (drop_table name s) = st_bucket s"
proof -
  have d: "distinct (map fst (cg_tables (st_catalog s)))" using assms(1) by (simp add: names_distinct_def relation_names_def)
  show "in_tables s x \<Longrightarrow> in_tables (drop_table name s) x \<or> x \<in> relation_rows r"
    using assms(2) map_of_is_SomeI [OF d] by (fastforce simp: in_tables_def drop_table_def)
  show "names_distinct (drop_table name s)"
    using assms(1) by (auto simp: names_distinct_def relation_names_def drop_table_def distinct_map_filter)
qed (simp_all add: attached_names_def drop_table_def)

text \<open>
  The interface \<open>Archiver\<close> and what retirement relies on: the operation leaves the database alone;
  when it reports success the relation is held, under its own name; and it disturbs nothing that is
  held under another.
\<close>

locale archiver =
  fixes archive :: archive_op
    and holds :: "store_state \<Rightarrow> string \<Rightarrow> string \<Rightarrow> relation \<Rightarrow> bool"
  assumes archive_frame: "archive table part s = (res, s') \<Longrightarrow> st_db s' = st_db s \<and> st_catalog s' = st_catalog s"
    and archive_holds: "archive table part s = (ArchiveOk, s') \<Longrightarrow> relation_of s part = Some r \<Longrightarrow> holds s' table part r"
    and archive_others: "archive table part s = (res, s') \<Longrightarrow> table \<in> pd_Name ` set Tables \<Longrightarrow> t \<in> pd_Name ` set Tables \<Longrightarrow>
      p \<noteq> part \<Longrightarrow> holds s t p r \<Longrightarrow> holds s' t p r"
    and holds_bucket: "st_bucket s' = st_bucket s \<Longrightarrow> holds s' t p r = holds s t p r"
begin

lemma detach_kept:
  assumes "detach table name s = Some s1" "kept_but holds {} s x"
  shows "kept_but holds {name} s1 x"
  using assms(2) detach_keeps [OF assms(1)] holds_bucket [of s1 s] unfolding kept_but_def by blast

lemma archive_kept:
  assumes "archive table name s = (res, s')" "kept_but holds {name} s x" "table \<in> pd_Name ` set Tables"
  shows "kept_but holds {name} s' x"
proof -
  have "in_tables s' x = in_tables s x" "attached_names s' = attached_names s"
    using archive_frame [OF assms(1)] by (simp_all add: in_tables_def attached_names_def)
  then show ?thesis using assms(2) archive_others [OF assms(1,3)] unfolding kept_but_def by (metis UnCI singletonI)
qed

lemma drop_kept:
  assumes "kept_but holds N s x" "names_distinct s" "map_of (cg_tables (st_catalog s)) name = Some r"
    "holds s table name r" "table \<in> pd_Name ` set Tables" "name \<notin> attached_names s"
  shows "kept_but holds {} (drop_table name s) x"
  using assms drop_keeps [OF assms(2,3)] holds_bucket [of "drop_table name s" s] unfolding kept_but_def by (metis Un_empty_right UnCI)

lemma kept_any: "kept_but holds N s x \<Longrightarrow> kept_but holds {} s x"
  by (auto simp: kept_but_def)

lemma archived_step:
  assumes "detach table name s = Some s1" "archive table name s1 = (res, s2)" "table \<in> pd_Name ` set Tables" "names_distinct s"
  shows "names_distinct s2" "kept_but holds {} s x \<Longrightarrow> kept_but holds {} s2 x"
    "res = ArchiveOk \<Longrightarrow> kept_but holds {} s x \<Longrightarrow> kept_but holds {} (drop_table name s2) x" "names_distinct (drop_table name s2)"
proof -
  note f = archive_frame [OF assms(2)] and d = detach_keeps [OF assms(1)]
  show s2: "names_distinct s2" using f d(2) assms(4) by (simp add: names_distinct_def)
  obtain r where r: "map_of (cg_tables (st_catalog s1)) name = Some r" "relation_of s1 name = Some r"
    using d(6) by blast
  show "names_distinct (drop_table name s2)" by (rule drop_keeps(2) [OF s2]) (use f r in simp)
  show k: "kept_but holds {} s2 x" if "kept_but holds {} s x"
    using archive_kept [OF assms(2) detach_kept [OF assms(1) that] assms(3)] kept_any by blast
  show "kept_but holds {} (drop_table name s2) x" if "res = ArchiveOk" "kept_but holds {} s x"
  proof (rule drop_kept [OF k [OF that(2)] s2 _ _ assms(3)])
    show "map_of (cg_tables (st_catalog s2)) name = Some r" using f r by simp
    show "holds s2 table name r" using archive_holds [OF _ r(2)] assms(2) that(1) by simp
    show "name \<notin> attached_names s2" using f d(4) by (simp add: attached_names_def)
  qed
qed

lemma retire_partitions_kept:
  assumes "table \<in> pd_Name ` set Tables"
  shows "names_distinct s \<Longrightarrow> retire_partitions v (Some archive) table names (retired, s) = (res, retired', s') \<Longrightarrow>
    names_distinct s' \<and> (kept_but holds {} s x \<longrightarrow> kept_but holds {} s' x)"
proof (induction names arbitrary: retired s)
  case (Cons name names)
  show ?case
  proof (cases "detach table name s")
    case None
    then show ?thesis using Cons.prems by (auto split: commit_outcome.splits)
  next
    case (Some s1)
    obtain ares s2 where a: "archive table name s1 = (ares, s2)" by force
    note st = archived_step [OF Some a assms Cons.prems(1)]
    note d = detach_keeps [OF Some]
    have "names_distinct s1" "kept_but holds {} s x \<longrightarrow> kept_but holds {} s1 x" using d(2) Cons.prems(1) detach_kept [OF Some] kept_any by blast+
    then show ?thesis
      using Cons.prems Some a st Cons.IH [of s2] Cons.IH [of "drop_table name s2"]
      by (auto split: commit_outcome.splits archive_outcome.splits)
  qed
qed simp

lemma retire_tables_kept:
  assumes "set tables \<subseteq> set Tables" "names_distinct s"
    "retire_tables v r (Some archive) tables (retired, s) = (res, retired', s')" "kept_but holds {} s x"
  shows "kept_but holds {} s' x"
  using assms
proof (induction tables arbitrary: retired s)
  case (Cons table tables)
  let ?n = "pd_Name table"
  show ?case
  proof (cases "retention_expired v ?n (re_now v ?n - retention_window r ?n) s")
    case None
    then show ?thesis using Cons.prems by simp
  next
    case (Some names)
    obtain res1 retired1 s1 where run: "retire_partitions v (Some archive) ?n names (retired, s) = (res1, retired1, s1)"
      by (metis prod.exhaust)
    have "?n \<in> pd_Name ` set Tables" using Cons.prems(1) by simp
    from retire_partitions_kept [OF this Cons.prems(2) run] Cons.prems(4)
    show ?thesis using Cons.prems(1,3) Some run Cons.IH [of s1 retired1] by (cases res1) auto
  qed
qed simp

lemma RetireExpired_kept:
  assumes "names_distinct s" "RetireExpired v r (Some archive) s = (res, retired, s')" "in_tables s x"
  shows "in_tables s' x \<or> (\<exists>t \<in> pd_Name ` set Tables. \<exists>p rel. holds s' t p rel \<and> x \<in> relation_rows rel)"
  using retire_tables_kept [of Tables s v r "[]" res retired s' x] assms by (auto simp: RetireExpired_def kept_but_def)

end

lemma objectName_inject:
  assumes "t \<in> pd_Name ` set Tables" "t' \<in> pd_Name ` set Tables" "objectName t p = objectName t' p'"
  shows "t = t' \<and> p = p'"
  using assms by (auto simp: Tables_def objectName_def)

lemma archive_method_cases:
  assumes "archive_method e (Some u) table part s = (res, s')"
  obtains err where "Archive_Archive e table part s = (err, s')" "res = ArchiveOk \<longleftrightarrow> err = None"
  using assms by (auto simp: archive_method_def split: prod.splits option.splits)

lemma Archive_frame:
  assumes "Archive_Archive e table part s = (err, s')"
  shows "st_db s' = st_db s" "st_catalog s' = st_catalog s"
    "name \<noteq> objectName table part \<Longrightarrow> map_of (st_bucket s') name = map_of (st_bucket s) name"
  using assms by (auto simp: Archive_Archive_def Client_Put_def update_conv split: sum.splits put_outcome.splits prod.splits)

interpretation store_archive: archiver "archive_method e (Some u)" "archived e" for e u
proof
  fix table part s res s' assume "archive_method e (Some u) table part s = (res, s')"
  then show "st_db s' = st_db s \<and> st_catalog s' = st_catalog s" by (elim archive_method_cases) (simp add: Archive_frame)
next
  fix table part s s' r assume "archive_method e (Some u) table part s = (ArchiveOk, s')" "relation_of s part = Some r"
  then show "archived e s' table part r" by (elim archive_method_cases) (simp add: Archive_archived)
next
  fix table part s res s' t p r
  assume a: "archive_method e (Some u) table part s = (res, s')" "table \<in> pd_Name ` set Tables" "t \<in> pd_Name ` set Tables"
    and p: "p \<noteq> part" "archived e s t p r"
  have "objectName t p \<noteq> objectName table part" using objectName_inject [OF a(3,2)] p(1) by blast
  with a(1) p(2) show "archived e s' t p r" by (elim archive_method_cases) (simp add: archived_def Archive_frame(3))
qed (simp add: archived_def)

text \<open>
  C25. Retirement loses no row: whatever fails on the way (listing, detaching, exporting, the upload,
  dropping, or a commit that goes unseen), every intent, conflict and audit record that was in a table
  before the run is afterwards still in one, or in the export of a whole relation that the object store
  holds.
\<close>

theorem RetireExpired_keeps:
  assumes "names_distinct s" "RetireExpired v r (as_Archiver e (Some u)) s = (res, retired, s')" "in_tables s x"
  shows "in_tables s' x \<or>
    (\<exists>t \<in> pd_Name ` set Tables. \<exists>p rel. archived e s' t p rel \<and> x \<in> relation_rows rel)"
  using store_archive.RetireExpired_kept [OF assms(1) _ assms(3)] assms(2) by (simp add: as_Archiver_def)

definition old_intent :: intent_row where
  "old_intent =
     \<lparr>w_intent_id = ''i'', w_agent_id = ''agent'', w_idempotency_key = ''k'', w_resource_type = ''order'', w_resource_id = ''1'',
      w_operation = ''create'', w_operation_class = ''create'', w_scope_selector = None, w_payload = ''{}'',
      w_emitted_at = Day, w_published_at = Some (Day + Second), w_voided_at = None\<rparr>"

definition old_partition :: partition where
  "old_partition = \<lparr>pt_table = ''write_intents'', pt_name = ''write_intents_19700101'', pt_lower = 0, pt_upper = 7 * Day\<rparr>"

definition old_store :: store_state where
  "old_store =
     \<lparr>st_db = empty_db\<lparr>write_intents := [old_intent]\<rparr>,
      st_catalog = \<lparr>cg_partitions = [old_partition], cg_tables = []\<rparr>, st_bucket = []\<rparr>"

text \<open>A codec for the files with no record or a given list of them.\<close>

definition small_parquet :: "'r list \<Rightarrow> 'r parquet" where
  "small_parquet xs =
     \<lparr>pq_write = (\<lambda>_. True),
      pq_close = (\<lambda>rs. if rs = [] then Some ''0'' else if rs = xs then Some ''1'' else None),
      pq_read = (\<lambda>b. if b = ''0'' then Some [] else if b = ''1'' then Some xs else None)\<rparr>"

definition calm_archive :: archive_env where
  "calm_archive =
     \<lparr>ae_intents = small_parquet [intent_record old_intent], ae_conflicts = small_parquet [], ae_audit = small_parquet [],
      ae_objects = ok_objects, ae_query = (\<lambda>_. False), ae_row = (\<lambda>_ _. False), ae_create = (\<lambda>_. False),
      ae_uuid = Some, ae_jsonb = Some\<rparr>"

definition calm_retire :: retire_env where
  "calm_retire = \<lparr>re_now = (\<lambda>_. 30 * Day), re_list = (\<lambda>_. False), re_detach = (\<lambda>_. Committed), re_drop = (\<lambda>_. Committed)\<rparr>"

definition old_retired :: store_state where
  "old_retired =
     \<lparr>st_db = empty_db, st_catalog = empty_catalog, st_bucket = [(''write_intents/write_intents_19700101.parquet'', ''1'')]\<rparr>"

lemma old_archived:
  "Archive_Archive calm_archive ''write_intents'' ''write_intents_19700101''
     \<lparr>st_db = d, st_catalog = \<lparr>cg_partitions = ps, cg_tables = [(''write_intents_19700101'', IntentTable [old_intent])]\<rparr>, st_bucket = []\<rparr> =
   (None, \<lparr>st_db = d, st_catalog = \<lparr>cg_partitions = ps, cg_tables = [(''write_intents_19700101'', IntentTable [old_intent])]\<rparr>,
           st_bucket = [(''write_intents/write_intents_19700101.parquet'', ''1'')]\<rparr>)"
  by (simp add: Archive_Archive_def export_def exportRows_def archive_scanIntents_def relation_of_def Client_Put_def objectName_def
      calm_archive_def small_parquet_def ok_objects_def)

lemma old_retires:
  "RetireExpired calm_retire week_retention (as_Archiver calm_archive (Some ())) old_store =
     (RetireDone, [\<lparr>rd_Table = ''write_intents'', rd_Partition = ''write_intents_19700101'', rd_Archived = True\<rparr>], old_retired)"
proof -
  have "detach ''write_intents'' ''write_intents_19700101'' old_store =
      Some \<lparr>st_db = empty_db, st_catalog = \<lparr>cg_partitions = [], cg_tables = [(''write_intents_19700101'', IntentTable [old_intent])]\<rparr>, st_bucket = []\<rparr>"
    by (simp add: detach_def old_store_def old_partition_def partitions_of_def without_rows_def attached_rows_def in_partition_def
        delete_where_def old_intent_def Day_value empty_db_def)
  moreover have "retention_expired calm_retire ''write_intents'' (30 * Day - 7 * Day) old_store = Some [''write_intents_19700101'']"
    by (simp add: retention_expired_def calm_retire_def old_store_def old_partition_def partitions_of_def Day_value)
  ultimately show ?thesis
    by (simp add: RetireExpired_def Tables_def retention_window_def week_retention_def calm_retire_def as_Archiver_def archive_method_def
        old_archived drop_table_def old_retired_def empty_catalog_def retention_expired_def partitions_of_def)
qed

theorem RetireExpired_keeps_witness:
  "RetireExpired calm_retire week_retention (as_Archiver calm_archive (Some ())) old_store =
     (RetireDone, [\<lparr>rd_Table = ''write_intents'', rd_Partition = ''write_intents_19700101'', rd_Archived = True\<rparr>], old_retired) \<and>
   \<not> in_tables old_retired (IntentRow old_intent) \<and>
   (\<exists>t p rel. archived calm_archive old_retired t p rel \<and> IntentRow old_intent \<in> relation_rows rel)"
proof -
  have "names_distinct old_store" by (simp add: names_distinct_def relation_names_def old_store_def)
  moreover have "in_tables old_store (IntentRow old_intent)" by (simp add: in_tables_def parent_rows_def old_store_def)
  moreover have "\<not> in_tables old_retired (IntentRow old_intent)"
    by (simp add: in_tables_def parent_rows_def old_retired_def empty_db_def empty_catalog_def)
  ultimately show ?thesis using RetireExpired_keeps [OF _ old_retires] old_retires by blast
qed

text \<open>
  C27. An archived partition can be read back: when the archive of a relation succeeded and its object
  is still there, a restore into a fresh table puts one row for each row of the relation into it, in
  their order, reports their number, and changes no other table, whatever has become of the partition.
  Each row comes back the same in every column that cannot be NULL, so its times, its state of
  publication and voiding, identifiers and documents are kept. NULL is not: the export coalesces it, and
  a version or a reason that was NULL comes back as the empty string, a selector or a list of
  identifiers with the same elements, so that one that was NULL may come back as the empty one. In the
  witness an intent without a selector is restored with an empty one.
\<close>

theorem archive_restores:
  assumes "parquet_laws e" "Archive_Archive e table part s = (None, s1)" "relation_of s part = Some r" "exact_relation e r"
    and "map_of (st_bucket s2) (objectName table part) = map_of (st_bucket s1) (objectName table part)"
    and "\<not> of_get (ae_objects e)" "\<not> of_read (ae_objects e)" "\<not> ae_create e into" "\<And>i. \<not> ae_row e into i"
    and "into \<notin> set (base_tables @ relation_names (st_catalog s2))" "into \<noteq> []"
  shows "\<exists>r'. restore e (Some u) part table into s2 = (Inr (row_count r, into), stand_table into r' s2) \<and> restored r r'"
proof -
  have "archived e s2 table part r" using Archive_archived [OF assms(2,3)] assms(5) by (simp add: archived_def)
  from Restore_archived [OF assms(1) this assms(4,6-10)] show ?thesis using assms(11) by (auto simp: restore_def)
qed

theorem archive_restores_witness:
  "w_scope_selector old_intent = None \<and>
   restore calm_archive (Some ()) ''write_intents_19700101'' ''write_intents'' ''again'' old_retired =
     (Inr (1, ''again''), stand_table ''again'' (IntentTable [old_intent\<lparr>w_scope_selector := Some []\<rparr>]) old_retired) \<and>
   restored (IntentTable [old_intent]) (IntentTable [old_intent\<lparr>w_scope_selector := Some []\<rparr>])"
proof -
  have same: "same_intent r r" "same_audit a a" for r a by (simp_all add: same_intent_def same_audit_def)
  have "parquet_laws calm_archive"
    by (auto simp: parquet_laws_def parquet_law_def calm_archive_def small_parquet_def same)
  moreover have exact: "exact_relation calm_archive (IntentTable [old_intent])"
    by (simp add: exact_intent_def exact_time_def exact_option_def operation_class_in_def old_intent_def calm_archive_def go_consts)
  moreover have fresh: "''again'' \<notin> set (base_tables @ relation_names (st_catalog old_retired))"
    by (simp add: base_tables_def relation_names_def old_retired_def empty_catalog_def)
  ultimately obtain r' where r': "restore calm_archive (Some ()) ''write_intents_19700101'' ''write_intents'' ''again'' old_retired =
      (Inr (1, ''again''), stand_table ''again'' r' old_retired)" "restored (IntentTable [old_intent]) r'"
    using archive_restores [OF _ old_archived [of empty_db "[]"], of "IntentTable [old_intent]" old_retired "''again''" "()"]
    by (auto simp: relation_of_def old_retired_def objectName_def calm_archive_def ok_objects_def)
  have "insertIntent calm_archive (intent_record old_intent) = Some (old_intent\<lparr>w_scope_selector := Some []\<rparr>)"
    using exact by (auto simp: insertIntent_def intent_record_def exact_intent_def exact_times operation_class_in_def old_intent_def
        split: if_splits)
  then have res: "restore calm_archive (Some ()) ''write_intents_19700101'' ''write_intents'' ''again'' old_retired =
      (Inr (1, ''again''), stand_table ''again'' (IntentTable [old_intent\<lparr>w_scope_selector := Some []\<rparr>]) old_retired)"
    using fresh by (simp add: Let_def restore_def Restore_def restoreRows_def Client_Get_def objectName_def old_retired_def calm_archive_def
        small_parquet_def ok_objects_def base_tables_def)
  then have "cg_tables (st_catalog (stand_table ''again'' r' old_retired)) =
      cg_tables (st_catalog (stand_table ''again'' (IntentTable [old_intent\<lparr>w_scope_selector := Some []\<rparr>]) old_retired))"
    using r'(1) by simp
  then have "r' = IntentTable [old_intent\<lparr>w_scope_selector := Some []\<rparr>]" by (simp add: stand_table_def)
  moreover have "w_scope_selector old_intent = None" by (simp add: old_intent_def)
  ultimately show ?thesis using r'(2) res by blast
qed

text \<open>
  C26. Without object storage the archiver is a nil pointer in an interface that is not nil. The guard of
  \<open>RetireExpired\<close> against a missing archiver lets it through: the first expired partition is detached,
  and the process dies in its archive, with the partition neither attached nor archived.
\<close>

theorem unconfigured_archive_crashes:
  assumes "retention_expired v ''write_intents'' (re_now v ''write_intents'' - rt_Intents r) s = Some (name # names)"
    and "re_detach v name = Committed" "detach ''write_intents'' name s = Some s1"
  shows "RetireExpired v r (as_Archiver e (New_archive False)) s = (RetireCrashed, [], s1) \<and>
    name \<notin> attached_names s1 \<and> RetireExpired v r None s = (fst (RetireExpired v r None s), [], s)"
proof -
  have skip: "retire_partitions v None table names (retired, s) = (RetireDone, retired, s)" for table names retired
    by (induction names) simp_all
  have "retire_tables v r None tables ([], s) = (fst (retire_tables v r None tables ([], s)), [], s)" for tables
    by (induction tables) (auto simp: skip split: option.splits)
  then show ?thesis
    using assms detach_keeps(4) [OF assms(3)]
    by (simp add: RetireExpired_def) (simp add: Tables_def retention_window_def as_Archiver_def New_archive_def archive_method_def)
qed

theorem unconfigured_archive_crashes_witness:
  "fst (RetireExpired calm_retire week_retention (as_Archiver calm_archive (New_archive False)) old_store) = RetireCrashed"
proof -
  have "retention_expired calm_retire ''write_intents'' (re_now calm_retire ''write_intents'' - rt_Intents week_retention) old_store =
      Some [''write_intents_19700101'']"
    by (simp add: retention_expired_def calm_retire_def week_retention_def old_store_def old_partition_def partitions_of_def Day_value)
  moreover have "re_detach calm_retire ''write_intents_19700101'' = Committed" by (simp add: calm_retire_def)
  moreover have "\<exists>s1. detach ''write_intents'' ''write_intents_19700101'' old_store = Some s1"
    by (simp add: detach_def old_store_def old_partition_def partitions_of_def)
  ultimately show ?thesis using unconfigured_archive_crashes [of calm_retire week_retention old_store "''write_intents_19700101''" "[]" _ calm_archive] by auto
qed

end
