(* ===== verification/Telemetry.thy ===== *)
theory Telemetry
  imports Partitions Reconcile Relay Config
begin

text \<open>
  Metrics (\<open>internal/telemetry/telemetry.go\<close>): the registration of the collectors, which panics on
  a name used twice, and the gauges read from the database on every scrape. Counters and histograms
  are counted where the code that increments them is modelled. Durations stay in nanoseconds; the
  conversion to floating-point seconds is not modelled. A map iterated in Go has no order; the model
  lists the tables in the order of the source.
\<close>

section \<open>Registration\<close>

definition metric_names :: "string list" where
  "metric_names =
     [''idemio_writes_total'', ''idemio_responses_total'', ''idemio_replays_total'',
      ''idemio_claim_collisions_total'', ''idemio_reclaim_attempts'', ''idemio_hash_mismatches_total'',
      ''idemio_oversized_results_total'', ''idemio_probe_failures_total'', ''idemio_reconciled_total'',
      ''idemio_downstream_duration_seconds'', ''idemio_request_duration_seconds'', ''idemio_conflicts_total'',
      ''idemio_lock_timeouts_total'', ''idemio_serialization_waits_total'', ''idemio_lock_wait_seconds'',
      ''idemio_manifest_reload_failures_total'', ''idemio_manifest_info'', ''idemio_results_offloaded_total'',
      ''idemio_offload_fallbacks_total'', ''idemio_result_fetch_failures_total'', ''idemio_relay_published_total'',
      ''idemio_relay_failures_total'', ''idemio_partitions_created_total'', ''idemio_retention_deleted_total'',
      ''idemio_archived_partitions_total'', ''idemio_reconcile_stale_after_seconds'']"

definition collector_names :: "string list" where
  "collector_names =
     [''idemio_indeterminate_keys'', ''idemio_pending_keys'', ''idemio_oldest_pending_age_seconds'',
      ''idemio_partition_headroom_seconds'', ''idemio_unpublished_intents'', ''idemio_relay_lag_seconds'',
      ''idemio_retention_lag_seconds'']"

fun register_all :: "string list \<Rightarrow> string list \<Rightarrow> string list option" where
  "register_all [] registered = Some registered"
| "register_all (name # names) registered =
     (if name \<in> set registered then None else register_all names (registered @ [name]))"

definition New_metrics :: "string list option" where
  "New_metrics = map_option sort (register_all (metric_names @ collector_names) [])"

section \<open>Gauges\<close>

datatype gauge = Gauge string string int

record collector_faults =
  cf_counts :: bool
  cf_headroom :: "string \<Rightarrow> bool"
  cf_outbox :: bool
  cf_lag :: "string \<Rightarrow> bool"

text \<open>\<open>coalesce(extract(epoch FROM now() - min(\<dots>)), 0)\<close>.\<close>

definition oldest_age :: "time \<Rightarrow> time list \<Rightarrow> duration" where
  "oldest_age now stamps = (case stamps of [] \<Rightarrow> 0 | t # ts \<Rightarrow> now - foldl min t ts)"

definition has_status :: "status \<Rightarrow> key_row list \<Rightarrow> key_row list" where
  "has_status s rows = filter (\<lambda>k. k_status k = s) rows"

definition collect_counts :: "collector_faults \<Rightarrow> time \<Rightarrow> db \<Rightarrow> gauge list" where
  "collect_counts f now d =
     (if cf_counts f then []
      else [Gauge ''idemio_indeterminate_keys'' [] (int (length (has_status StatusIndeterminate (idempotency_keys d)))),
            Gauge ''idemio_pending_keys'' [] (int (length (has_status StatusPending (idempotency_keys d)))),
            Gauge ''idemio_oldest_pending_age_seconds'' []
              (oldest_age now (map k_claimed_at (has_status StatusPending (idempotency_keys d))))])"

definition collect_headroom :: "collector_faults \<Rightarrow> time \<Rightarrow> catalog \<Rightarrow> gauge list" where
  "collect_headroom f now c =
     concat (map (\<lambda>table.
       case PartitionHeadroom (cf_headroom f) now c table of
         Inl _ \<Rightarrow> []
       | Inr headroom \<Rightarrow> [Gauge ''idemio_partition_headroom_seconds'' table headroom])
       [''write_intents'', ''conflicts'', ''payload_access_audit''])"

definition collectOutbox :: "collector_faults \<Rightarrow> time \<Rightarrow> db \<Rightarrow> gauge list" where
  "collectOutbox f now d =
     (if cf_outbox f then []
      else [Gauge ''idemio_unpublished_intents'' [] (int (length (filter is_unpublished (write_intents d)))),
            Gauge ''idemio_relay_lag_seconds'' []
              (oldest_age now (map w_emitted_at (filter is_unpublished (write_intents d))))])"

definition retention_lag :: "time \<Rightarrow> duration \<Rightarrow> time list \<Rightarrow> duration" where
  "retention_lag now hot stamps =
     (let lag = (if stamps = [] then 0 else oldest_age (now - hot) stamps) in if lag < 0 then 0 else lag)"

definition lag_tables :: "config \<Rightarrow> db \<Rightarrow> (string \<times> duration \<times> time list) list" where
  "lag_tables cfg d =
     [(''idempotency_keys'', RetentionKeys cfg, map k_created_at (idempotency_keys d)),
      (''write_intents'', RetentionIntents cfg, map w_emitted_at (write_intents d)),
      (''conflicts'', RetentionConflicts cfg, map c_detected_at (conflicts d)),
      (''payload_access_audit'', RetentionAudit cfg, map au_accessed_at (payload_access_audit d))]"

definition collectRetentionLag :: "collector_faults \<Rightarrow> time \<Rightarrow> config \<Rightarrow> db \<Rightarrow> gauge list" where
  "collectRetentionLag f now cfg d =
     concat (map (\<lambda>(table, hot, stamps).
       if cf_lag f table then [] else [Gauge ''idemio_retention_lag_seconds'' table (retention_lag now hot stamps)])
       (lag_tables cfg d))"

definition Collect :: "collector_faults \<Rightarrow> time \<Rightarrow> time \<Rightarrow> config \<Rightarrow> catalog \<Rightarrow> db \<Rightarrow> gauge list" where
  "Collect f tx_now now cfg c d =
     collect_counts f tx_now d @ collect_headroom f now c @ collectOutbox f tx_now d @ collectRetentionLag f tx_now cfg d"

section \<open>What the gauges say\<close>

lemma metrics_register: "distinct (metric_names @ collector_names)"
  by code_simp

lemma register_distinct: "distinct (registered @ names) \<Longrightarrow> register_all names registered = Some (registered @ names)"
  by (induction names arbitrary: registered) auto

lemma New_metrics_registers: "New_metrics = Some (sort (metric_names @ collector_names))"
  using register_distinct [of "[]"] metrics_register by (simp add: New_metrics_def)

lemma foldl_min: "foldl min (t :: int) ts < b \<longleftrightarrow> t < b \<or> (\<exists>u \<in> set ts. u < b)"
  by (induction ts arbitrary: t) auto

lemma oldest_age_exceeds: "0 \<le> a \<Longrightarrow> a < oldest_age now stamps \<longleftrightarrow> (\<exists>t \<in> set stamps. t < now - a)"
  using foldl_min [of "hd stamps" "tl stamps" "now - a"] by (cases stamps) (auto simp: oldest_age_def)

lemma retention_lag_exceeds: "0 \<le> a \<Longrightarrow> a < retention_lag now hot stamps \<longleftrightarrow> (\<exists>t \<in> set stamps. t < now - a - hot)"
  using oldest_age_exceeds [of a "now - hot" stamps] by (auto simp: retention_lag_def Let_def not_less algebra_simps)

text \<open>A row of the table is older at \<open>now\<close> than its hot window.\<close>

definition past_window :: "config \<Rightarrow> db \<Rightarrow> time \<Rightarrow> string \<Rightarrow> bool" where
  "past_window cfg d now table \<longleftrightarrow>
     table = ''idempotency_keys'' \<and> list_ex (\<lambda>k. k_created_at k < now - RetentionKeys cfg) (idempotency_keys d) \<or>
     table = ''write_intents'' \<and> list_ex (\<lambda>w. w_emitted_at w < now - RetentionIntents cfg) (write_intents d) \<or>
     table = ''conflicts'' \<and> list_ex (\<lambda>r. c_detected_at r < now - RetentionConflicts cfg) (conflicts d) \<or>
     table = ''payload_access_audit'' \<and> list_ex (\<lambda>a. au_accessed_at a < now - RetentionAudit cfg) (payload_access_audit d)"

lemma lag_gauge:
  assumes "\<not> cf_lag f table" "table \<in> {''idempotency_keys'', ''write_intents'', ''conflicts'', ''payload_access_audit''}"
  shows "\<exists>behind. Gauge ''idemio_retention_lag_seconds'' table behind \<in> set (collectRetentionLag f now cfg d) \<and>
    (\<forall>a \<ge> 0. a < behind \<longleftrightarrow> past_window cfg d (now - a) table)"
proof -
  have "\<exists>hot stamps. (table, hot, stamps) \<in> set (lag_tables cfg d) \<and>
      (\<forall>n. (\<exists>t \<in> set stamps. t < n - hot) \<longleftrightarrow> past_window cfg d n table)"
    using assms(2) by (elim insertE emptyE) (simp_all add: lag_tables_def past_window_def list_ex_iff)
  then obtain hot stamps where t: "(table, hot, stamps) \<in> set (lag_tables cfg d)"
    "\<And>n. (\<exists>t \<in> set stamps. t < n - hot) \<longleftrightarrow> past_window cfg d n table" by blast
  have "Gauge ''idemio_retention_lag_seconds'' table (retention_lag now hot stamps) \<in> set (collectRetentionLag f now cfg d)"
    using assms(1) t(1) by (force simp: collectRetentionLag_def)
  with t(2) show ?thesis by (auto simp: retention_lag_exceeds)
qed

text \<open>
  C32. The gauges the alerts compare with a threshold are exact at every threshold, when the database
  answers: the age of the oldest pending key exceeds \<open>a\<close> exactly when a key is stale at the age \<open>a\<close>, which
  for the configured stale age is one the reconciler has to settle (the alert of
  \<open>deploy/alerts.yml\<close> compares with it); the relay lag exceeds \<open>a\<close> exactly when an unpublished intent was
  emitted more than \<open>a\<close> ago (the alert takes a minute); the retention lag of each of the four tables
  exceeds \<open>a\<close> exactly when a row of it was past its hot window \<open>a\<close> ago (the alert takes seven days); and the
  headroom gauge of a table is the one the start-up check compares. Ages are exact here, not the
  floating-point seconds Prometheus stores.
\<close>

theorem gauges_exact:
  assumes "\<not> cf_counts f" "\<not> cf_outbox f"
  shows "\<exists>age lag.
    {Gauge ''idemio_oldest_pending_age_seconds'' [] age, Gauge ''idemio_relay_lag_seconds'' [] lag}
      \<subseteq> set (Collect f tx_now now cfg c d) \<and>
    (\<forall>a \<ge> 0. a < age \<longleftrightarrow> list_ex (is_stale a tx_now) (idempotency_keys d)) \<and>
    (\<forall>a \<ge> 0. a < lag \<longleftrightarrow> list_ex (\<lambda>w. is_unpublished w \<and> w_emitted_at w < tx_now - a) (write_intents d)) \<and>
    (\<forall>table \<in> {''idempotency_keys'', ''write_intents'', ''conflicts'', ''payload_access_audit''}. \<not> cf_lag f table \<longrightarrow>
       (\<exists>behind. Gauge ''idemio_retention_lag_seconds'' table behind \<in> set (Collect f tx_now now cfg c d) \<and>
         (\<forall>a \<ge> 0. a < behind \<longleftrightarrow> past_window cfg d (tx_now - a) table))) \<and>
    (\<forall>table h. Gauge ''idemio_partition_headroom_seconds'' table h \<in> set (Collect f tx_now now cfg c d) \<longrightarrow>
       PartitionHeadroom (cf_headroom f) now c table = Inr h)"
proof (intro exI conjI)
  let ?age = "oldest_age tx_now (map k_claimed_at (has_status StatusPending (idempotency_keys d)))"
  let ?lag = "oldest_age tx_now (map w_emitted_at (filter is_unpublished (write_intents d)))"
  show "{Gauge ''idemio_oldest_pending_age_seconds'' [] ?age, Gauge ''idemio_relay_lag_seconds'' [] ?lag}
      \<subseteq> set (Collect f tx_now now cfg c d)"
    using assms by (simp add: Collect_def collect_counts_def collectOutbox_def)
  show "\<forall>a \<ge> 0. a < ?age \<longleftrightarrow> list_ex (is_stale a tx_now) (idempotency_keys d)"
    by (auto simp: oldest_age_exceeds list_ex_iff is_stale_def has_status_def)
  show "\<forall>a \<ge> 0. a < ?lag \<longleftrightarrow> list_ex (\<lambda>w. is_unpublished w \<and> w_emitted_at w < tx_now - a) (write_intents d)"
    by (auto simp: oldest_age_exceeds list_ex_iff)
  show "\<forall>table \<in> {''idempotency_keys'', ''write_intents'', ''conflicts'', ''payload_access_audit''}. \<not> cf_lag f table \<longrightarrow>
       (\<exists>behind. Gauge ''idemio_retention_lag_seconds'' table behind \<in> set (Collect f tx_now now cfg c d) \<and>
         (\<forall>a \<ge> 0. a < behind \<longleftrightarrow> past_window cfg d (tx_now - a) table))"
  proof (intro ballI impI)
    fix table assume "table \<in> {''idempotency_keys'', ''write_intents'', ''conflicts'', ''payload_access_audit''}" "\<not> cf_lag f table"
    from lag_gauge [OF this(2,1), of tx_now cfg d]
    show "\<exists>behind. Gauge ''idemio_retention_lag_seconds'' table behind \<in> set (Collect f tx_now now cfg c d) \<and>
        (\<forall>a \<ge> 0. a < behind \<longleftrightarrow> past_window cfg d (tx_now - a) table)"
      by (elim exE) (auto simp: Collect_def)
  qed
  show "\<forall>table h. Gauge ''idemio_partition_headroom_seconds'' table h \<in> set (Collect f tx_now now cfg c d) \<longrightarrow>
       PartitionHeadroom (cf_headroom f) now c table = Inr h"
    by (auto simp: Collect_def collect_counts_def collectOutbox_def collectRetentionLag_def lag_tables_def collect_headroom_def
        split: sum.splits if_splits)
qed

definition calm_scrape :: collector_faults where
  "calm_scrape = \<lparr>cf_counts = False, cf_headroom = (\<lambda>_. False), cf_outbox = False, cf_lag = (\<lambda>_. False)\<rparr>"

theorem gauges_exact_witness:
  "\<exists>age. Gauge ''idemio_oldest_pending_age_seconds'' [] age \<in> set (Collect calm_scrape 500 500 default_config empty_catalog db1) \<and>
     300 < age \<and> \<not> 400 < age"
proof -
  have stale: "list_ex (is_stale 300 500) (idempotency_keys db1)" "\<not> list_ex (is_stale 400 500) (idempotency_keys db1)" by code_simp+
  have "\<not> cf_counts calm_scrape" "\<not> cf_outbox calm_scrape" by (simp_all add: calm_scrape_def)
  from gauges_exact [OF this, of 500 500 default_config empty_catalog db1] obtain age lag where
    age: "{Gauge ''idemio_oldest_pending_age_seconds'' [] age, Gauge ''idemio_relay_lag_seconds'' [] lag}
        \<subseteq> set (Collect calm_scrape 500 500 default_config empty_catalog db1)"
      "\<forall>a \<ge> 0. a < age \<longleftrightarrow> list_ex (is_stale a 500) (idempotency_keys db1)" by (elim exE conjE) (rule that)
  have "300 < age \<and> \<not> 400 < age" using age(2) [rule_format, of 300] age(2) [rule_format, of 400] stale by simp
  with age(1) show ?thesis by (intro exI [of _ age]) simp
qed

end
