(* ===== verification/Process.thy ===== *)
theory Process
  imports Migrate Retention Telemetry
begin

text \<open>
  The processes (\<open>cmd/idemio\<close>, \<open>cmd/reconciler\<close>, \<open>cmd/relay\<close>): what each checks before it works, in
  the order of its \<open>run\<close> function, and the record of which manifest a process serves
  (\<open>internal/manifest/activation.go\<close>). The environment answers what the operating system, the
  connection pool, the object store and the listener do. Migrations act on the state of the store;
  what a file does to it is a parameter, as in \<^verbatim>\<open>Migrate\<close>.
\<close>

section \<open>Object storage at start-up\<close>

record options =
  opt_Endpoint :: string
  opt_Bucket :: string

definition Configured :: "options \<Rightarrow> bool" where
  "Configured o' \<longleftrightarrow> opt_Endpoint o' \<noteq> [] \<and> opt_Bucket o' \<noteq> []"

datatype connect_error = ConnectStorage | CheckBucket | CreateBucket

text \<open>\<open>True\<close> is a client, \<open>False\<close> the nil client of a store that is not configured.\<close>

definition objectstore_New :: "bool \<Rightarrow> bool option \<Rightarrow> bool \<Rightarrow> options \<Rightarrow> connect_error + bool" where
  "objectstore_New connect_fails exists make_fails o' =
     (if \<not> Configured o' then Inr False
      else if connect_fails then Inl ConnectStorage
      else case exists of
        None \<Rightarrow> Inl CheckBucket
      | Some there \<Rightarrow> if \<not> there \<and> make_fails then Inl CreateBucket else Inr True)"

section \<open>Activations\<close>

definition Principal_of :: "string option \<Rightarrow> int \<Rightarrow> string" where
  "Principal_of host pid = (case host of None \<Rightarrow> ''unknown'' | Some h \<Rightarrow> h) @ ''/'' @ Itoa pid"

definition RecordActivation :: "commit_outcome \<Rightarrow> time \<Rightarrow> snapshot \<Rightarrow> string \<Rightarrow> db \<Rightarrow> bool \<times> db" where
  "RecordActivation commit now snap who d =
     (let rows = manifest_activations d;
          row = \<lparr>a_manifest_version = Version snap, a_principal = who, a_resource_types = Types snap, a_activated_at = now\<rparr>;
          d' = (if list_ex (\<lambda>a. a_principal a = who \<and> a_manifest_version a = Version snap) rows then d
                else d\<lparr>manifest_activations := rows @ [row]\<rparr>) in
      case commit of
        Committed \<Rightarrow> (True, d')
      | CommitFailed \<Rightarrow> (False, d)
      | CommitUnseen \<Rightarrow> (False, d'))"

text \<open>A failed record is logged; the version gauge shows the snapshot all the same.\<close>

definition activator :: "commit_outcome \<Rightarrow> time \<Rightarrow> string \<Rightarrow> snapshot \<Rightarrow> string \<times> db \<Rightarrow> string \<times> db" where
  "activator commit now who snap st = (Version snap, snd (RecordActivation commit now snap who (snd st)))"

section \<open>The server\<close>

record boot_env =
  be_getenv :: "string \<Rightarrow> string"
  be_duration :: "string \<Rightarrow> duration option"
  be_files :: "string \<Rightarrow> (string \<times> bytes option) list option"
  be_pool :: bool
  be_migrate :: migrate_faults
  be_sql :: sql_files
  be_exec :: "bytes \<Rightarrow> store_state \<Rightarrow> store_state option"
  be_columns :: "catalog \<Rightarrow> string list option"
  be_headroom :: "string \<Rightarrow> bool"
  be_now :: time
  be_connect :: bool
  be_exists :: "bool option"
  be_make :: bool
  be_host :: "string option"
  be_pid :: int
  be_activation :: commit_outcome
  be_listen :: bool

datatype run_error =
    BadConfig "config_problem list" | BadManifests load_error | NoDatabase | BadMigration migrate_error
  | BadSchema verify_error | NoStorage connect_error | NoListener | NoBrokers | Restoring "archive_error option"

record started =
  sd_config :: config
  sd_manifests :: store
  sd_objects :: bool
  sd_results :: result_store
  sd_version :: string

definition minPartitionHeadroom :: duration where
  "minPartitionHeadroom = 14 * 24 * Hour"

definition drainMargin :: duration where
  "drainMargin = 2 * Second"

definition archive_options :: "config \<Rightarrow> options" where
  "archive_options cfg = \<lparr>opt_Endpoint = ArchiveEndpoint cfg, opt_Bucket = ArchiveBucket cfg\<rparr>"

definition load_process :: "boot_env \<Rightarrow> run_error + config \<times> store" where
  "load_process e =
     (case Load_config (be_duration e) (be_getenv e) of
        Inl problems \<Rightarrow> Inl (BadConfig problems)
      | Inr cfg \<Rightarrow>
          (case NewStore (be_files e (ManifestDir cfg)) of
             Inl err \<Rightarrow> Inl (BadManifests err)
           | Inr manifests \<Rightarrow> Inr (cfg, manifests)))"

definition verify_schema :: "boot_env \<Rightarrow> store_state \<Rightarrow> verify_error option" where
  "verify_schema e s =
     (case VerifyUniqueConstraint (be_columns e (st_catalog s)) of
        Some err \<Rightarrow> Some err
      | None \<Rightarrow> VerifyPartitionHeadroom (be_headroom e) (be_now e) (st_catalog s) minPartitionHeadroom)"

definition run_idemio :: "boot_env \<Rightarrow> store_state schema \<Rightarrow> (run_error + started) \<times> store_state schema" where
  "run_idemio e s =
     (case load_process e of
        Inl err \<Rightarrow> (Inl err, s)
      | Inr (cfg, manifests) \<Rightarrow>
          if be_pool e then (Inl NoDatabase, s)
          else case Migrate_schema (be_migrate e) (be_sql e) (be_exec e) s of
            (Some err, s1) \<Rightarrow> (Inl (BadMigration err), s1)
          | (None, s1) \<Rightarrow>
              (case verify_schema e (sc_db s1) of
                 Some err \<Rightarrow> (Inl (BadSchema err), s1)
               | None \<Rightarrow>
                   (case objectstore_New (be_connect e) (be_exists e) (be_make e) (archive_options cfg) of
                      Inl err \<Rightarrow> (Inl (NoStorage err), s1)
                    | Inr client \<Rightarrow>
                        (case activator (be_activation e) (be_now e) (Principal_of (be_host e) (be_pid e)) (Current manifests) ([], st_db (sc_db s1)) of
                           (version, d) \<Rightarrow>
                             (let s2 = s1\<lparr>sc_db := (sc_db s1)\<lparr>st_db := d\<rparr>\<rparr> in
                              if be_listen e then (Inl NoListener, s2)
                              else (Inr \<lparr>sd_config = cfg, sd_manifests = manifests, sd_objects = client,
                                         sd_results = New client (ResultInlineBytes cfg), sd_version = version\<rparr>, s2))))))"

text \<open>
  The end of a server: its listener fails, or a signal arrives and the requests in flight get the
  grace of one downstream call and a margin to finish.
\<close>

datatype serve_event = ServeEnds bool | SignalReceived "duration \<Rightarrow> bool"

datatype serve_error = ServeError | ShutdownError

definition grace :: "config \<Rightarrow> duration" where
  "grace cfg = wrap64 (DownstreamConnectTimeout cfg + DownstreamTimeout cfg + drainMargin)"

definition serveUntilSignal :: "config \<Rightarrow> serve_event \<Rightarrow> serve_error option" where
  "serveUntilSignal cfg ev =
     (case ev of
        ServeEnds closed \<Rightarrow> if closed then None else Some ServeError
      | SignalReceived drained \<Rightarrow> if drained (grace cfg) then None else Some ShutdownError)"

section \<open>The reconciler and the relay\<close>

record flags =
  fl_partition :: string
  fl_table :: string
  fl_into :: string

datatype reconciler_run = Restored nat string | Reconciling "archive_op option" result_store config store

definition run_reconciler ::
  "boot_env \<Rightarrow> archive_env \<Rightarrow> flags \<Rightarrow> store_state \<Rightarrow> (run_error + reconciler_run) \<times> store_state" where
  "run_reconciler e a fl s =
     (case load_process e of
        Inl err \<Rightarrow> (Inl err, s)
      | Inr (cfg, manifests) \<Rightarrow>
          if be_pool e then (Inl NoDatabase, s)
          else case VerifyUniqueConstraint (be_columns e (st_catalog s)) of
            Some err \<Rightarrow> (Inl (BadSchema err), s)
          | None \<Rightarrow>
              (case objectstore_New (be_connect e) (be_exists e) (be_make e) (archive_options cfg) of
                 Inl err \<Rightarrow> (Inl (NoStorage err), s)
               | Inr client \<Rightarrow>
                   if fl_partition fl \<noteq> [] then
                     (case restore a (New_archive client) (fl_partition fl) (fl_table fl) (fl_into fl) s of
                        (Inl err, s') \<Rightarrow> (Inl (Restoring err), s')
                      | (Inr (n, into), s') \<Rightarrow> (Inr (Restored n into), s'))
                   else (Inr (Reconciling (as_Archiver a (New_archive client)) (New client (ResultInlineBytes cfg)) cfg manifests), s)))"

definition retention_of :: "config \<Rightarrow> retention" where
  "retention_of cfg =
     \<lparr>rt_Keys = RetentionKeys cfg, rt_Intents = RetentionIntents cfg, rt_Conflicts = RetentionConflicts cfg,
      rt_Audit = RetentionAudit cfg, rt_RowsPerSecond = RetentionRowsPerSec cfg\<rparr>"

definition run_relay :: "boot_env \<Rightarrow> run_error + config" where
  "run_relay e =
     (case Load_config (be_duration e) (be_getenv e) of
        Inl problems \<Rightarrow> Inl (BadConfig problems)
      | Inr cfg \<Rightarrow>
          if KafkaBrokers cfg = [] then Inl NoBrokers
          else if be_pool e then Inl NoDatabase
          else Inr cfg)"

section \<open>What a server that serves has\<close>

lemma pending_complete:
  "pending_from applied files = Inr ms \<Longrightarrow> (name, c) \<in> set files \<Longrightarrow>
     version_of name \<in> set applied \<or> version_of name \<in> set (map mg_version ms)"
proof (induction files arbitrary: ms)
  case (Cons entry files)
  obtain n b where entry: "entry = (n, b)" by force
  show ?case
    using Cons.prems Cons.IH unfolding entry
    by (cases "version_of n \<in> set applied"; cases "pending_from applied files") (auto split: option.splits)
qed simp

lemma apply_all_ledger:
  assumes "apply_all f exec ms s = (None, s')" "sc_ledger s \<noteq> None"
  shows "sc_ledger s' = Some (the (sc_ledger s) @ map mg_version ms)"
  using assms
proof (induction ms arbitrary: s)
  case (Cons m ms)
  obtain s1 where s1: "apply_migration f exec m s = (None, s1)" "apply_all f exec ms s1 = (None, s')"
    using Cons.prems(1) by (auto split: prod.splits option.splits)
  then have "sc_ledger s1 = Some (the (sc_ledger s) @ [mg_version m])"
    by (auto simp: apply_migration_def Let_def split: if_splits option.splits commit_outcome.splits)
  with Cons.IH [OF s1(2)] show ?case by simp
qed auto

lemma Migrate_complete:
  assumes "Migrate_schema f (Some fs) exec s = (None, s')" "(name, c) \<in> set fs"
  shows "\<exists>vs. sc_ledger s' = Some vs \<and> version_of name \<in> set vs"
proof -
  define applied where "applied = (case sc_ledger s of None \<Rightarrow> [] | Some vs \<Rightarrow> vs)"
  define s1 where "s1 = s\<lparr>sc_ledger := Some applied\<rparr>"
  have s1_ledger: "sc_ledger s1 = Some applied" by (simp add: s1_def)
  obtain ms where s1: "pending_from applied (sort_key fst fs) = Inr ms" "apply_all f exec ms s1 = (None, s')"
    using assms(1) unfolding s1_def applied_def
    by (auto simp: Migrate_schema_def createLedger_def appliedVersions_def pendingMigrations_def Let_def
        split: if_splits commit_outcome.splits sum.splits)
  show ?thesis using pending_complete [OF s1(1), of name c] apply_all_ledger [OF s1(2)] s1_ledger assms(2) by auto
qed

lemma headroom_verified:
  assumes "VerifyPartitionHeadroom fails now c minimum = None" "table \<in> set [''write_intents'', ''conflicts'', ''payload_access_audit'']"
  shows "\<exists>u. latest_bound (partitions_of c table) = Some u \<and> now + minimum \<le> u"
proof -
  have "verify_tables fails now c minimum ts = None \<Longrightarrow> table \<in> set ts \<Longrightarrow>
      \<exists>u. latest_bound (partitions_of c table) = Some u \<and> now + minimum \<le> u" for ts
    by (induction ts) (auto simp: PartitionHeadroom_def split: sum.splits if_splits option.splits)
  from this [OF assms(1) [unfolded VerifyPartitionHeadroom_def] assms(2)] show ?thesis .
qed

lemma constraint_verified:
  "VerifyUniqueConstraint cols = None \<Longrightarrow> \<exists>cs. cols = Some cs \<and> Join cs '','' = ''agent_id,idempotency_key''"
  by (auto simp: VerifyUniqueConstraint_def expectedKeyConstraint_def split: option.splits list.splits if_splits)

lemma Load_config_valid: "Load_config dur env = Inr cfg \<Longrightarrow> Validate cfg = []"
  by (auto simp: Load_config_def Let_def split: prod.splits if_splits)

lemma RecordActivation_recorded:
  "fst (RecordActivation commit now snap who d) \<Longrightarrow>
     list_ex (\<lambda>a. a_principal a = who \<and> a_manifest_version a = Version snap)
       (manifest_activations (snd (RecordActivation commit now snap who d)))"
  by (cases commit) (auto simp: RecordActivation_def Let_def)

lemma RecordActivation_once:
  assumes "distinct (map (\<lambda>a. (a_principal a, a_manifest_version a)) (manifest_activations d))"
  shows "distinct (map (\<lambda>a. (a_principal a, a_manifest_version a)) (manifest_activations (snd (RecordActivation commit now snap who d))))"
  using assms by (cases commit) (auto simp: RecordActivation_def Let_def list_ex_iff)

text \<open>
  C31. A server that starts to listen is fit to serve: its configuration validates, its manifests are the
  whole valid directory the configuration names, every embedded migration is in the ledger, the keys
  are unique by agent and idempotency key, and every partitioned table takes rows for at least the next
  fourteen days; results go to the object store exactly when one is configured; and unless the record
  was lost, the manifest version it serves is recorded for this process.
\<close>

theorem run_idemio_fit:
  assumes "run_idemio e s = (Inr srv, s')" "be_sql e = Some fs"
  shows "Validate (sd_config srv) = [] \<and>
    Load (be_files e (ManifestDir (sd_config srv))) = Inr (Current (sd_manifests srv)) \<and>
    (\<forall>name c. (name, c) \<in> set fs \<longrightarrow> (\<exists>vs. sc_ledger s' = Some vs \<and> version_of name \<in> set vs)) \<and>
    (\<exists>cs. be_columns e (st_catalog (sc_db s')) = Some cs \<and> Join cs '','' = ''agent_id,idempotency_key'') \<and>
    (\<forall>table \<in> set Tables. \<exists>u. latest_bound (partitions_of (st_catalog (sc_db s')) (pd_Name table)) = Some u \<and> be_now e + 14 * Day \<le> u) \<and>
    (rs_objects (sd_results srv) \<longleftrightarrow> ArchiveEndpoint (sd_config srv) \<noteq> [] \<and> ArchiveBucket (sd_config srv) \<noteq> []) \<and>
    (be_activation e = Committed \<longrightarrow>
       list_ex (\<lambda>a. a_principal a = Principal_of (be_host e) (be_pid e) \<and> a_manifest_version a = sd_version srv)
         (manifest_activations (st_db (sc_db s'))))"
proof -
  obtain cfg manifests where load: "load_process e = Inr (cfg, manifests)"
    using assms(1) by (auto simp: run_idemio_def split: sum.splits)
  obtain s1 where mig: "Migrate_schema (be_migrate e) (be_sql e) (be_exec e) s = (None, s1)"
    using assms(1) load by (cases "Migrate_schema (be_migrate e) (be_sql e) (be_exec e) s") (auto simp: run_idemio_def split: if_splits option.splits)
  have fit: "verify_schema e (sc_db s1) = None"
    using assms(1) load mig by (auto simp: run_idemio_def split: if_splits option.splits)
  obtain client where client: "objectstore_New (be_connect e) (be_exists e) (be_make e) (archive_options cfg) = Inr client"
    using assms(1) load mig fit by (auto simp: run_idemio_def split: if_splits sum.splits)
  define act where "act = RecordActivation (be_activation e) (be_now e) (Current manifests) (Principal_of (be_host e) (be_pid e)) (st_db (sc_db s1))"
  have srv: "srv = \<lparr>sd_config = cfg, sd_manifests = manifests, sd_objects = client,
      sd_results = New client (ResultInlineBytes cfg), sd_version = Version (Current manifests)\<rparr>"
    and s': "s' = s1\<lparr>sc_db := (sc_db s1)\<lparr>st_db := snd act\<rparr>\<rparr>"
    using assms(1) load mig fit client by (auto simp: run_idemio_def activator_def act_def Let_def split: if_splits)
  have cfg: "Validate cfg = []" "Load (be_files e (ManifestDir cfg)) = Inr (Current manifests)"
    using load by (auto simp: load_process_def NewStore_def Current_def Load_config_valid split: sum.splits)
  have room: "\<exists>u. latest_bound (partitions_of (st_catalog (sc_db s1)) (pd_Name table)) = Some u \<and> be_now e + 14 * Day \<le> u" if "table \<in> set Tables" for table
    using headroom_verified [of "be_headroom e" "be_now e" "st_catalog (sc_db s1)" "14 * Day" "pd_Name table"] fit that
    by (auto simp: verify_schema_def minPartitionHeadroom_def Day_def Tables_def split: option.splits)
  have cons: "\<exists>cs. be_columns e (st_catalog (sc_db s1)) = Some cs \<and> Join cs '','' = ''agent_id,idempotency_key''"
    using constraint_verified fit by (auto simp: verify_schema_def split: option.splits)
  have objs: "client \<longleftrightarrow> ArchiveEndpoint cfg \<noteq> [] \<and> ArchiveBucket cfg \<noteq> []"
    using client by (auto simp: objectstore_New_def Configured_def archive_options_def split: if_splits option.splits)
  show ?thesis
  proof (intro conjI allI impI ballI)
    show "\<exists>cs. be_columns e (st_catalog (sc_db s')) = Some cs \<and> Join cs '','' = ''agent_id,idempotency_key''"
      using cons by (simp add: s')
    show "rs_objects (sd_results srv) \<longleftrightarrow> ArchiveEndpoint (sd_config srv) \<noteq> [] \<and> ArchiveBucket (sd_config srv) \<noteq> []"
      using objs by (simp add: srv New_def NewWith_def)
    show "list_ex (\<lambda>a. a_principal a = Principal_of (be_host e) (be_pid e) \<and> a_manifest_version a = sd_version srv) (manifest_activations (st_db (sc_db s')))"
      if "be_activation e = Committed"
      using RecordActivation_recorded [of "be_activation e"] that by (simp add: srv s' act_def) (simp add: RecordActivation_def Let_def)
  qed (use cfg room Migrate_complete [OF mig [unfolded assms(2)]] in \<open>simp_all add: srv s'\<close>)
qed

definition fresh_store :: store_state where
  "fresh_store = \<lparr>st_db = empty_db, st_catalog = empty_catalog, st_bucket = []\<rparr>"

text \<open>Migrations that make one long partition for every table.\<close>

definition sample_exec :: "bytes \<Rightarrow> store_state \<Rightarrow> store_state option" where
  "sample_exec b s =
     Some (s\<lparr>st_catalog := \<lparr>cg_partitions = map (\<lambda>t. \<lparr>pt_table = pd_Name t, pt_name = pd_Name t, pt_lower = 0, pt_upper = 20 * Day\<rparr>) Tables,
                            cg_tables = []\<rparr>\<rparr>)"

definition sample_boot :: boot_env where
  "sample_boot =
     \<lparr>be_getenv = default_env, be_duration = (\<lambda>_. None), be_files = (\<lambda>_. Some shipped_files), be_pool = False,
      be_migrate = calm_migrate, be_sql = Some [(''0001_init.sql'', Some ''one'')], be_exec = sample_exec,
      be_columns = (\<lambda>_. Some [''agent_id'', ''idempotency_key'']), be_headroom = (\<lambda>_. False), be_now = 0,
      be_connect = False, be_exists = Some True, be_make = False, be_host = None, be_pid = 7, be_activation = Committed,
      be_listen = False\<rparr>"

definition sample_started :: started where
  "sample_started =
     \<lparr>sd_config = default_config, sd_manifests = \<lparr>store_current = shipped_snapshot\<rparr>, sd_objects = False,
      sd_results = New False (ResultInlineBytes default_config), sd_version = Version shipped_snapshot\<rparr>"

lemma sample_version: "version_of ''0001_init.sql'' = ''0001_init''"
  by code_simp

lemma sample_migrates:
  "Migrate_schema calm_migrate (Some [(''0001_init.sql'', Some ''one'')]) sample_exec \<lparr>sc_ledger = None, sc_db = fresh_store\<rparr> =
     (None, \<lparr>sc_ledger = Some [''0001_init''], sc_db = the (sample_exec ''one'' fresh_store)\<rparr>)"
  by (simp add: Migrate_schema_def calm_migrate_def createLedger_def appliedVersions_def pendingMigrations_def sample_version
      apply_migration_def sample_exec_def)

lemma sample_verified: "verify_schema sample_boot (the (sample_exec ''one'' fresh_store)) = None"
  by (simp add: verify_schema_def sample_boot_def sample_exec_def VerifyUniqueConstraint_def expectedKeyConstraint_def
      VerifyPartitionHeadroom_def PartitionHeadroom_def partitions_of_def latest_bound_def Tables_def minPartitionHeadroom_def go_consts)

lemma sample_starts: "fst (run_idemio sample_boot \<lparr>sc_ledger = None, sc_db = fresh_store\<rparr>) = Inr sample_started"
proof -
  have load: "load_process sample_boot = Inr (default_config, \<lparr>store_current = shipped_snapshot\<rparr>)"
    using Load_default_config [of "\<lambda>_. None"] shipped_load by (simp add: load_process_def sample_boot_def NewStore_def)
  have mig: "Migrate_schema (be_migrate sample_boot) (be_sql sample_boot) (be_exec sample_boot) \<lparr>sc_ledger = None, sc_db = fresh_store\<rparr> =
     (None, \<lparr>sc_ledger = Some [''0001_init''], sc_db = the (sample_exec ''one'' fresh_store)\<rparr>)"
    using sample_migrates by (simp add: sample_boot_def)
  have off: "objectstore_New c x m (archive_options default_config) = Inr False" for c x m
    by (simp add: objectstore_New_def Configured_def archive_options_def default_config_def)
  show ?thesis
    unfolding run_idemio_def load mig by (simp add: sample_verified off activator_def sample_started_def Current_def Let_def)
      (simp add: sample_boot_def)
qed

theorem run_idemio_fit_witness:
  "fst (run_idemio sample_boot \<lparr>sc_ledger = None, sc_db = fresh_store\<rparr>) = Inr sample_started \<and>
   Validate (sd_config sample_started) = [] \<and> \<not> rs_objects (sd_results sample_started) \<and>
   (\<exists>vs. sc_ledger (snd (run_idemio sample_boot \<lparr>sc_ledger = None, sc_db = fresh_store\<rparr>)) = Some vs \<and> ''0001_init'' \<in> set vs)"
proof -
  have "run_idemio sample_boot \<lparr>sc_ledger = None, sc_db = fresh_store\<rparr> =
      (Inr sample_started, snd (run_idemio sample_boot \<lparr>sc_ledger = None, sc_db = fresh_store\<rparr>))"
    using sample_starts by (metis prod.collapse)
  from run_idemio_fit [OF this, of "[(''0001_init.sql'', Some ''one'')]"]
  have fit: "Validate (sd_config sample_started) = []"
    "rs_objects (sd_results sample_started) \<longleftrightarrow> ArchiveEndpoint (sd_config sample_started) \<noteq> [] \<and> ArchiveBucket (sd_config sample_started) \<noteq> []"
    "\<exists>vs. sc_ledger (snd (run_idemio sample_boot \<lparr>sc_ledger = None, sc_db = fresh_store\<rparr>)) = Some vs \<and> version_of ''0001_init.sql'' \<in> set vs"
    by (simp_all add: sample_boot_def)
  then show ?thesis using sample_starts by (simp add: sample_version) (simp add: sample_started_def default_config_def)
qed

text \<open>
  The reconciler without object storage hands its maintenance loop an archiver all the same, the one
  whose first use kills the process.
\<close>

lemma reconciler_without_storage:
  assumes "run_reconciler e a fl s = (Inr (Reconciling arch results cfg manifests), s')" "ArchiveEndpoint cfg = []"
  shows "arch = as_Archiver a (New_archive False) \<and> arch \<noteq> None"
  using assms by (auto simp: run_reconciler_def objectstore_New_def Configured_def archive_options_def as_Archiver_def
      split: sum.splits if_splits option.splits prod.splits)

end
