(* ===== verification/Spec2Isabelle.thy ===== *)
theory Spec2Isabelle
  imports Claim_Spec Results Downstream Ledger Latency Relay Config Reconcile System Api_Laws Canonical Reads_Laws Process
begin

text \<open>
  \<^bold>\<open>Idemio\<close> is an idempotent transaction layer: agents send writes with an idempotency key, the server
  claims the key in Postgres, calls a downstream system of record at most once, stores the outcome and
  replays it for every repetition; conflicting writes to one resource are serialized or refused.

  \<^bold>\<open>The program and its parts.\<close> The server (\<open>cmd/idemio\<close>, \<open>internal/api\<close>) admits a request
  against the manifests (\<open>internal/manifest\<close>), hashes it (\<open>internal/canonical\<close>), claims its key
  (\<open>internal/claim\<close>, \<open>internal/conflict\<close>), calls the downstream (\<open>internal/downstream\<close>) and records
  what came back, large results in an object store (\<open>internal/resultstore\<close>,
  \<open>internal/objectstore\<close>). The reconciler (\<open>cmd/reconciler\<close>, \<open>internal/reconcile\<close>,
  \<open>internal/probe\<close>) settles keys whose request was lost by asking the system of record; its process
  also keeps partitions ahead, expires keys and retires old partitions into an archive
  (\<open>internal/maintenance\<close>, \<open>internal/archive\<close>). The relay (\<open>cmd/relay\<close>, \<open>internal/relay\<close>)
  publishes the intent log. All share the schema (\<open>internal/store\<close>, \<open>migrations\<close>).

  \<^bold>\<open>Conventions.\<close> Times and durations are integers in nanoseconds, wrapped to 64 bits where Go's
  arithmetic can overflow. Strings and byte slices are lists of characters. A slice that may be nil and a
  column that may be NULL are options, so that NULL, an empty array and the empty string are kept apart. A table is a list of rows in
  insertion order, and a transaction is a function from the database to a result or an error together
  with the database it leaves. What can fail is an argument: a statement, a lock, a commit that fails or
  that takes effect unseen, an upload, a probe. Code outside the sources is a parameter with named laws:
  \<open>uuidv7\<close> and \<open>jsonb\<close> of Postgres, the RFC 8785 transform, \<open>time.ParseDuration\<close>, Parquet, the
  effect of an SQL file, the object store and the broker. The Go library is modelled where the code
  depends on it: JSON text, SHA-256, base64, calendar dates, RFC 3339, binary64 rounding.

  \<^bold>\<open>Theories.\<close>
  \<^item> \<^verbatim>\<open>Prelude\<close>: times, 64-bit wrap-around, strings, hexadecimal and decimal text.
  \<^item> \<^verbatim>\<open>Json\<close>, \<^verbatim>\<open>Json_Parse\<close>, \<^verbatim>\<open>Json_Laws\<close>: printing, scanning and decoding of JSON as Go's library does it,
    and that printed text is valid and parses back. \<^verbatim>\<open>Sha256\<close>, \<^verbatim>\<open>Float64\<close>, \<^verbatim>\<open>Calendar\<close>: the hash on
    words, rounding to doubles, civil dates with their layouts.
  \<^item> \<^verbatim>\<open>Manifest\<close>, \<^verbatim>\<open>Conflict\<close>: validation is exact, a directory loads whole or not at all, a process serves
    the version of its last successful load, and the comparison of scopes decides overlap.
  \<^item> \<^verbatim>\<open>Database\<close>, \<^verbatim>\<open>Claim\<close>, \<^verbatim>\<open>Claim_Laws\<close>, \<^verbatim>\<open>Claim_Spec\<close>: the tables and the claim and completion
    transactions; an abstract key store (locale \<open>key_store\<close>) that they refine; the verdict a state
    determines, immutability of settled keys, and exclusion of incompatible live intents.
  \<^item> \<^verbatim>\<open>Results\<close>: the object store client (locale \<open>objects\<close>), result placement and correlation identifiers.
  \<^item> \<^verbatim>\<open>Downstream\<close>, \<^verbatim>\<open>Ledger\<close>: the HTTP client with its redirects (\<open>Client_Do\<close>), the call, of which one
    POST is sent at most and whose outcome follows from the last answer, the probe, the contract of a system of record (locale
    \<open>system_of_record\<close>) and the fake one of \<open>cmd/fakedownstream\<close> that meets it.
  \<^item> \<^verbatim>\<open>Http\<close>, \<^verbatim>\<open>Canonical\<close>, \<^verbatim>\<open>Latency\<close>, \<^verbatim>\<open>Api\<close>, \<^verbatim>\<open>Api_Laws\<close>: the write handler on every branch: it is
    answered once its deadlines have passed, calls at most once, its status tells the truth, and a settled
    key is answered from its record, inline or in the object store.
  \<^item> \<^verbatim>\<open>Reads\<close>, \<^verbatim>\<open>Reads_Laws\<close>: the read endpoints: pages are complete, and payloads are audited.
  \<^item> \<^verbatim>\<open>Reconcile\<close>, \<^verbatim>\<open>Relay\<close>, \<^verbatim>\<open>Config\<close>: sweeps are safe and settle a batch each, publication is at least once and
    drains, validation keeps the order of the time limits as far as they fit in 64 bits.
  \<^item> \<^verbatim>\<open>Partitions\<close>, \<^verbatim>\<open>Archive\<close>, \<^verbatim>\<open>Retention\<close>: partitions cover the horizon exactly once, an archived
    relation restores to its rows up to NULL, which comes back as the empty value, retirement loses no row (locale \<open>archiver\<close>), expiry removes only what
    is past its window.
  \<^item> \<^verbatim>\<open>Migrate\<close>, \<^verbatim>\<open>Telemetry\<close>, \<^verbatim>\<open>Process\<close>: migrations run once and in order, the gauges are exact at
    every threshold, and a server that listens is fit to serve.
  \<^item> \<^verbatim>\<open>System\<close>: requests, calls on the wire, failures and the reconciler interleaved as a step relation.
    A write is executed at most once when no completion commits unseen and no request outlives the stale
    age; the first condition is needed.

  \<^bold>\<open>Termination and bounds.\<close> Loops over data are recursive functions. Loops that wait for the clock
  (\<open>Api\<close>) or move a boundary (\<open>Partitions\<close>) are partial functions with \<open>None\<close> for not returning, and
  that they return is proved. Expiry terminates because each full batch shortens the table. Loops that
  run as long as the process are functions of the list of ticks they see, of any length. No fuel is
  used. Names of partitions are distinct for years of four digits, which is the range assumed.

  \<^bold>\<open>What the model shows to be wrong.\<close> Lemmas at the end of \<open>Retention\<close> show that without object
  storage the reconciler process detaches an expired partition and then dies, because a nil pointer in an
  interface is not a nil interface, and that expiry forgets a pending key. \<open>Reconcile\<close> shows that a batch
  of keys whose probe fails keeps all others from being settled; \<open>Config\<close> that the stale age may be
  shorter than the life of a request, and that a large timeout wraps past validation; \<open>Manifest\<close> that a
  large conflict window wraps. \<open>Downstream\<close> shows that a call answered with a redirect may be taken for
  failed although it was executed, and that a probe answer without a count is taken for a proof that nothing
  was; \<open>Retention\<close> that a restored intent without a selector may come back with an empty one, which the
  reads print differently; \<open>Canonical\<close> that numbers beyond the exact integers pass when they
  are written with a point or an exponent.

  \<^bold>\<open>Not modelled.\<close> Log lines, histograms and the Prometheus library; TCP, TLS and the HTTP server
  beneath the handlers; the process entry points beyond their start-up checks; \<open>cmd/alertsink\<close>, a receiver for
  an alerting drill; the test support packages \<open>internal/testdb\<close>, \<open>internal/faketest\<close> and
  \<open>internal/fixtures\<close>; the static site under \<open>web\<close>. The order of rows a query leaves open is the order
  of the table. Statements of one transaction see one snapshot; isolation of concurrent transactions
  rests on the advisory lock and on the row locks of the statements, so a transaction is one step. The
  columns \<open>attempt_count\<close> and \<open>record_count\<close> are integers without the bound of an \<open>INT\<close>; the seconds of
  a window or a gauge are exact, not floating-point; names in \<open>Restore\<close> are taken as Postgres spells them,
  without the folding of unquoted identifiers; the partitions of the topic are not distinguished; and the paths a
  probe asks for are clean, so that no mux redirects them.
\<close>

end
